(* ===== verification/Prelude.thy ===== *)
theory Prelude
  imports Main "HOL-Library.Multiset"
begin

text \<open>
  Shared vocabulary of the development: the collections of rewrite rules the components
  contribute to, association lists with insertion order (the behaviour of the grouping
  maps the macros use, up to the order in which a hash map is read), and the generic lemmas
  on lists, options and maps that several components use.
\<close>

named_theorems res_simps "rewriting of fallible computations"
named_theorems gen_simps "what the generators emit"
named_theorems loop_simps "the fields the steps of the event loop change"
named_theorems loop_intros "the steps of the event loop"

section \<open>Basic names\<close>

text \<open>Identifiers are strings; source text the macros pass through unread is a string too.\<close>

type_synonym ident = string
type_synonym tokens = string

section \<open>Lists\<close>

lemma filter_eq_singleD: "filter P xs = [x] \<Longrightarrow> x \<in> set xs \<and> P x"
proof -
  assume "filter P xs = [x]"
  then have "x \<in> set (filter P xs)" by simp
  then show ?thesis by simp
qed

lemma map_filter_map_option:
  "map h (List.map_filter f xs) = List.map_filter (\<lambda>x. map_option h (f x)) xs"
  by (induction xs) (auto simp: List.map_filter_simps split: option.splits)

lemma map_filter_Some: "List.map_filter Some xs = xs"
  by (induction xs) (auto simp: List.map_filter_simps)

lemma set_map_filter_iff: "y \<in> set (List.map_filter f xs) \<longleftrightarrow> (\<exists>x\<in>set xs. f x = Some y)"
  by (induction xs) (auto simp: List.map_filter_simps split: option.splits)

lemma distinct_map_inj_onD:
  "distinct (map f xs) \<Longrightarrow> x \<in> set xs \<Longrightarrow> y \<in> set xs \<Longrightarrow> f x = f y \<Longrightarrow> x = y"
  by (meson distinct_map inj_on_def)

text \<open>The first element of a list that satisfies a predicate, as Rust's \<open>Iterator::find\<close>.\<close>

lemma find_distinct_key:
  assumes "distinct (map k xs)" and "x \<in> set xs"
  shows "List.find (\<lambda>y. k y = k x) xs = Some x"
  using assms by (induction xs) auto

lemma find_distinct_key_eq:
  assumes "distinct (map k xs)" and "x \<in> set xs" and "k x = v"
  shows "List.find (\<lambda>y. k y = v) xs = Some x"
  using find_distinct_key [OF assms(1,2)] assms(3) by simp

lemma filter_key_single:
  assumes "distinct (map k xs)" and "x \<in> set xs" and "k x = v"
  shows "filter (\<lambda>y. k y = v) xs = [x]"
  using assms
proof (induction xs)
  case (Cons y xs)
  have "filter (\<lambda>y. k y = v) xs = []" if "k y = v"
    using that Cons.prems(1) by (auto simp: filter_empty_conv image_iff)
  with Cons show ?case by auto
qed simp

lemma find_map: "List.find P (map f xs) = map_option f (List.find (\<lambda>x. P (f x)) xs)"
  by (induction xs) auto

text \<open>Lookup in the bindings made by matching a list of names against a list of values.\<close>

lemma map_of_zip_distinct:
  assumes "distinct ks" and "length ks = length vs"
  shows "map (map_of (zip ks vs)) ks = map Some vs"
proof (rule nth_equalityI)
  show "length (map (map_of (zip ks vs)) ks) = length (map Some vs)"
    using assms(2) by simp
  show "map (map_of (zip ks vs)) ks ! i = map Some vs ! i"
    if "i < length (map (map_of (zip ks vs)) ks)" for i
    using that assms by (simp add: map_of_zip_nth)
qed

lemma those_map_Some [simp]: "those (map Some xs) = Some xs"
  by (induction xs) auto

text \<open>Sums over a list of which one element is replaced.\<close>

lemma sum_list_update_add:
  "i < length xs \<Longrightarrow> sum_list (map f (xs[i := x])) + (f (xs ! i) :: 'a :: comm_monoid_add) = sum_list (map f xs) + f x"
proof (induction xs arbitrary: i)
  case (Cons y xs)
  then show ?case by (cases i) (auto simp: add.assoc add.left_commute add.commute)
qed simp

lemma sum_update_mset:
  assumes "i < length xs" and "M + f x \<subseteq># f (xs ! i)"
  shows "M + sum_list (map f (xs[i := x])) \<subseteq># sum_list (map f xs)"
proof -
  have "(M + sum_list (map f (xs[i := x]))) + f (xs ! i) = sum_list (map f xs) + (M + f x)"
    using sum_list_update_add [OF assms(1), of f x] by (simp add: ac_simps)
  also have "\<dots> \<subseteq># sum_list (map f xs) + f (xs ! i)"
    using assms(2) by (rule subset_mset.add_left_mono)
  finally show ?thesis by simp
qed

lemma sum_update_same:
  "i < length xs \<Longrightarrow> f x = f (xs ! i) \<Longrightarrow> sum_list (map f (xs[i := x])) = (sum_list (map f xs) :: 'a multiset)"
  using sum_list_update_add [of i xs f x] by simp

section \<open>Grouping\<close>

text \<open>
  \<open>values_of k kvs\<close> are the values filed under \<open>k\<close>, in the order they were inserted.
\<close>

definition values_of :: "'k \<Rightarrow> ('k \<times> 'v) list \<Rightarrow> 'v list" where
  "values_of k kvs = map snd (filter (\<lambda>kv. fst kv = k) kvs)"

lemma values_of_Nil [simp]: "values_of k [] = []"
  by (simp add: values_of_def)

lemma values_of_Cons [simp]:
  "values_of k (kv # kvs) = (if fst kv = k then snd kv # values_of k kvs else values_of k kvs)"
  by (simp add: values_of_def)

lemma values_of_append [simp]: "values_of k (xs @ ys) = values_of k xs @ values_of k ys"
  by (simp add: values_of_def)

lemma set_values_of: "v \<in> set (values_of k kvs) \<longleftrightarrow> (k, v) \<in> set kvs"
  by (force simp: values_of_def)

lemma values_of_eq_Nil_iff: "values_of k kvs = [] \<longleftrightarrow> k \<notin> set (map fst kvs)"
  by (induction kvs) auto

lemma values_of_map: "values_of k (map (\<lambda>x. (f x, g x)) xs) = map g (filter (\<lambda>x. f x = k) xs)"
  by (induction xs) auto

text \<open>
  An order in which a hash map may be read: every key once, in any order.
\<close>

definition key_order :: "('k list \<Rightarrow> 'k list) \<Rightarrow> bool" where
  "key_order ord \<longleftrightarrow> (\<forall>ks. set (ord ks) = set ks \<and> distinct (ord ks))"

lemma key_orderD:
  assumes "key_order ord"
  shows "set (ord ks) = set ks" and "distinct (ord ks)"
  using assms by (auto simp: key_order_def)

lemma key_order_remdups: "key_order remdups"
  by (simp add: key_order_def)

end
