(* ===== verification/Rust_Syntax.thy ===== *)
theory Rust_Syntax
  imports Prelude
begin

text \<open>
  The part of Rust's abstract syntax the macros look at, with the constructors and the
  field names their patterns use (the input of \<open>shakespeare-macro/src\<close>). What the macros
  copy without looking inside is kept as \<open>tokens\<close>, so that a copied item is still the
  same item.
\<close>

section \<open>Paths and types\<close>

datatype path_segment = PathSegment (seg_ident: ident) (seg_arguments: tokens)

datatype path = Path (leading_colon: bool) (segments: "path_segment list")

text \<open>
  A type: references with their optional lifetime, paths with their optional \<open>qself\<close>
  (the \<open><T as Trait>\<close> prefix, with its position), tuples, a parenthesised type and the rest.
  \<open>Type_Envelope role T\<close> is the one path type whose arguments the macros write themselves,
  \<open>::shakespeare::Envelope<dyn role, T>\<close>.
\<close>

datatype ty =
    Type_Reference (ref_lifetime: "ident option") (ref_mut: bool) (ref_elem: ty)
  | Type_Path (ty_qself: "(ty \<times> nat) option") (ty_path: path)
  | Type_Tuple (tuple_elems: "ty list")
  | Type_Paren ty
  | Type_Envelope path ty
  | Type_Other tokens

datatype type_path = TypePath (qself: "(ty \<times> nat) option") (type_path_path: path)

datatype return_type = ReturnType_Default | ReturnType_Type ty

section \<open>Attributes and visibility\<close>

datatype attr_style = AttrStyle_Outer | AttrStyle_Inner

datatype meta = Meta_Path path | Meta_List path tokens | Meta_NameValue path tokens

fun meta_path :: "meta \<Rightarrow> path" where
  "meta_path (Meta_Path p) = p"
| "meta_path (Meta_List p _) = p"
| "meta_path (Meta_NameValue p _) = p"

datatype attribute = Attribute (attr_style: attr_style) (attr_meta: meta)

definition attr_path :: "attribute \<Rightarrow> path" where
  "attr_path a = meta_path (attr_meta a)"

datatype visibility = Visibility_Public | Visibility_Other tokens

section \<open>Functions\<close>

datatype pat = Pat_Ident ident | Pat_Other tokens

datatype pat_type = PatType (pt_attrs: "attribute list") (pt_pat: pat) (pt_ty: ty)

datatype receiver = Receiver tokens

datatype fn_arg = FnArg_Receiver receiver | FnArg_Typed pat_type

text \<open>
  \<open>sig_rest\<close> stands for the parts of a signature the macros never inspect (\<open>const\<close>,
  \<open>unsafe\<close>, lifetimes, the where clause).
\<close>

record signature =
  sig_asyncness :: bool
  sig_ident :: ident
  sig_type_params :: "ident list"
  sig_inputs :: "fn_arg list"
  sig_output :: return_type
  sig_rest :: tokens

record item_fn =
  fn_attrs :: "attribute list"
  fn_sig :: signature
  fn_block :: tokens

text \<open>\<open>syn::ImplItemFn\<close>, which \<open>data/mod.rs\<close> names \<open>FunctionItem\<close>.\<close>

record function_item =
  fun_attrs :: "attribute list"
  fun_sig :: signature
  fun_block :: tokens

section \<open>Items\<close>

datatype impl_item = ImplItem_Fn function_item | ImplItem_Other tokens

record item_impl =
  imp_attrs :: "attribute list"
  imp_trait :: "path option"
  imp_self_ty :: ty
  imp_items :: "impl_item list"

datatype trait_item = TraitItem_Fn signature | TraitItem_Other tokens

record item_trait =
  trait_attrs :: "attribute list"
  trait_vis :: visibility
  trait_ident :: ident
  trait_items :: "trait_item list"

datatype item_struct = ItemStruct (struct_ident: ident) (struct_rest: tokens)
datatype item_enum = ItemEnum (enum_ident: ident) (enum_rest: tokens)
datatype item_union = ItemUnion (union_ident: ident) (union_rest: tokens)

text \<open>\<open>mod_content\<close> is \<open>None\<close> for a module without an inline body (\<open>mod name;\<close>).\<close>

datatype item_mod =
    ItemMod (mod_attrs: "attribute list") (mod_vis: visibility) (mod_unsafety: bool)
      (mod_ident: ident) (mod_content: "item list option")
and item =
    Item_Impl item_impl
  | Item_Fn item_fn
  | Item_Struct item_struct
  | Item_Enum item_enum
  | Item_Union item_union
  | Item_Mod item_mod
  | Item_Trait item_trait
  | Item_Other tokens

text \<open>\<open>Path::from(ident)\<close>: one plain segment.\<close>

definition path_from_ident :: "ident \<Rightarrow> path" where
  "path_from_ident i = Path False [PathSegment i []]"

text \<open>\<open>parse_quote!(())\<close>: the unit type.\<close>

abbreviation unit_type :: ty where
  "unit_type \<equiv> Type_Tuple []"

text \<open>
  \<open>(#(#types),*)\<close>: the type the quoted list stands for. No type gives the unit, one type a
  parenthesised type and not a tuple, several a tuple.
\<close>

fun tuple_type :: "ty list \<Rightarrow> ty" where
  "tuple_type [] = Type_Tuple []"
| "tuple_type [t] = Type_Paren t"
| "tuple_type ts = Type_Tuple ts"

text \<open>
  What the Rust compiler reads a type as: parentheses are not part of it. Two types that
  differ in parentheses only are one type.
\<close>

fun strip_paren :: "ty \<Rightarrow> ty" where
  "strip_paren (Type_Paren t) = strip_paren t"
| "strip_paren (Type_Reference l m t) = Type_Reference l m (strip_paren t)"
| "strip_paren (Type_Tuple ts) = Type_Tuple (map strip_paren ts)"
| "strip_paren (Type_Envelope r t) = Type_Envelope r (strip_paren t)"
| "strip_paren (Type_Path q p) = Type_Path q p"
| "strip_paren (Type_Other t) = Type_Other t"

end
