(* ===== verification/Generated_Code.thy ===== *)
theory Generated_Code
  imports Rust_Syntax
begin

text \<open>
  The code the macros generate, one constructor for each \<open>fallible_quote!\<close> template of
  \<open>shakespeare-macro/src\<close>: the holes of the template are the constructor's fields, the
  fixed text around them is the constructor itself. The names of actor and state types come
  first (\<open>data/actor_name.rs\<close>, \<open>data/data_name.rs\<close>, \<open>data/role_name.rs\<close>).
\<close>

section \<open>Names\<close>

datatype actor_name = ActorName type_path
datatype data_name = DataName type_path
datatype role_name = RoleName path

section \<open>Roles\<close>

text \<open>\<open>Variant((T1, T2))\<close>, one variant of a payload enum.\<close>

datatype variant = Variant (var_ident: ident) (var_ty: ty)

text \<open>\<open>pub enum path { variants }\<close>.\<close>

datatype enum_def = EnumDef (enum_path: path) (enum_variants: "variant list")

text \<open>
  \<open>impl Accepts<ty> for dyn role\<close>, whose \<open>into_payload\<close> is \<open>Self::Payload::variant((value))\<close>.
\<close>

datatype accepts_impl =
  AcceptsImpl (acc_ty: ty) (acc_role: role_name) (acc_variant: ident)

text \<open>
  \<open>impl Emits<ty> for dyn role\<close>, whose \<open>from_return_payload\<close> takes any of the variants apart
  and is \<open>unimplemented!\<close> on the others. The payload path occurs in the panic's text.
\<close>

datatype emits_impl =
  EmitsImpl (em_ty: ty) (em_role: role_name) (em_variants: "ident list") (em_payload: path)

text \<open>The trait of a role: its attributes, visibility, name and rewritten methods.\<close>

datatype trait_def =
  TraitDef (td_attrs: "attribute list") (td_vis: visibility) (td_role: role_name)
    (td_methods: "signature list")

text \<open>\<open>impl Role for dyn role\<close>, with its \<open>Payload\<close> and \<open>Return\<close> types.\<close>

datatype role_impl = RoleImpl (ri_role: role_name) (ri_payload: path) (ri_return: path)

section \<open>Performances\<close>

text \<open>
  A method of the shell: \<open>fn ident(&self, params) -> Envelope<dyn role, ty>\<close>, whose body packs
  the patterns as a tuple into \<open>payload::variant\<close>.
\<close>

datatype sending_method =
  SendingMethod (sm_attrs: "attribute list") (sm_ident: ident) (sm_params: "pat_type list")
    (sm_role: role_name) (sm_return: ty) (sm_patterns: "pat list") (sm_payload: path)
    (sm_variant: ident)

text \<open>\<open>impl role for actor\<close>: the sending methods, and \<open>enqueue\<close>, which calls \<open>pi_sender\<close>.\<close>

datatype perf_impl =
  PerfImpl (pi_role: role_name) (pi_actor: actor_name) (pi_methods: "sending_method list")
    (pi_sender: ident)

text \<open>
  The call in an arm, \<open>Role::Return::variant(self.fn_name(args))\<close>, awaited when the handler
  is asynchronous.
\<close>

datatype handler_call =
  HandlerCall (hc_role: role_name) (hc_variant: ident) (hc_fn: ident) (hc_args: "ident list")
    (hc_await: bool)

text \<open>\<open>payload::variant((patterns)) => { call }\<close>.\<close>

datatype dispatch_arm =
  DispatchArm (da_payload: path) (da_variant: ident) (da_pattern: "ident list")
    (da_call: handler_call)

text \<open>
  \<open>impl data\<close>: the dispatch method (which matches the payload against the arms and hands the
  value to the message's return path) and the renamed handlers.
\<close>

datatype dispatch_impl =
  DispatchImpl (di_data: data_name) (di_method: ident) (di_role: role_name)
    (di_arms: "dispatch_arm list") (di_handlers: "function_item list")

section \<open>Actors\<close>

text \<open>\<open><<dyn role as Role>::Channel as Channel>::Sender\<close>, the type of a queue's sender.\<close>

datatype sender_type = SenderType path

text \<open>A field of the shell, one sender per role.\<close>

datatype shell_field = ShellField (sf_name: ident) (sf_type: sender_type)

text \<open>The shell: its \<open>this\<close> field (a weak reference to itself) is part of the template.\<close>

datatype actor_struct_def =
  ActorStructDef (as_attrs: "attribute list") (as_vis: visibility) (as_name: actor_name)
    (as_fields: "shell_field list")

text \<open>\<open>async fn accessor(&self, payload) { self.field.send(payload) }\<close>.\<close>

datatype push_method =
  PushMethod (pm_vis: visibility) (pm_accessor: ident) (pm_role: role_name) (pm_field: ident)

datatype push_impl = PushImpl (pu_actor: actor_name) (pu_methods: "push_method list")

text \<open>\<open>impl ActorShell for actor\<close> and \<open>impl ActorState for data\<close>.\<close>

datatype shell_trait_impl =
  ShellTraitImpl (st_actor: actor_name) (st_state: data_name) (st_exit: ty) (st_panic: ty)

datatype state_trait_impl = StateTraitImpl (stt_data: data_name) (stt_actor: actor_name)

text \<open>\<open>impl actor { fn get_shell(&self) }\<close>, which upgrades \<open>this\<close>.\<close>

datatype getter_impl = GetterImpl actor_name

text \<open>\<open>let (input, mut output) = <dyn role as Role>::Channel::new(Default::default());\<close>\<close>

datatype queue_construction =
  QueueConstruction (qc_role: role_name) (qc_input: ident) (qc_output: ident)

datatype field_init = FieldInit (fi_field: ident) (fi_value: ident)

datatype constructor_expr = ConstructorExpr actor_name (ce_fields: "field_init list")

text \<open>
  \<open>Some(msg) = output.recv(), if !(output.is_empty()) || context.is_running() => { reset the
  timer; state.handler(&mut context, msg).await }\<close>
\<close>

datatype select_branch = SelectBranch (sb_output: ident) (sb_handler: ident)

text \<open>
  What the loop's result is passed to: the hook of the actor, or the value as it is (the
  panic value, respectively \<open>()\<close>).
\<close>

datatype hook_expr = Call_Hook ident | No_Hook

text \<open>\<open>impl actor { fn start(mut state: data) -> ActorHandles<actor> }\<close>, with its event loop.\<close>

datatype start_impl =
  StartImpl (si_actor: actor_name) (si_data: data_name) (si_queues: "queue_construction list")
    (si_constructor: constructor_expr) (si_branches: "select_branch list")
    (si_panic_hook: hook_expr) (si_exit_hook: hook_expr)

section \<open>Everything that is quoted\<close>

datatype quoted =
    Q_Variant variant
  | Q_Enum enum_def
  | Q_Accepts accepts_impl
  | Q_Emits emits_impl
  | Q_Trait trait_def
  | Q_Role_Impl role_impl
  | Q_Sending sending_method
  | Q_Perf perf_impl
  | Q_Call handler_call
  | Q_Arm dispatch_arm
  | Q_Dispatch dispatch_impl
  | Q_Sender_Type sender_type
  | Q_Field shell_field
  | Q_Struct actor_struct_def
  | Q_Push push_method
  | Q_Push_Impl push_impl
  | Q_Shell_Trait shell_trait_impl
  | Q_State_Trait state_trait_impl
  | Q_Getter getter_impl
  | Q_Queue queue_construction
  | Q_Field_Init field_init
  | Q_Branch select_branch
  | Q_Constructor constructor_expr
  | Q_Panic_Hook hook_expr
  | Q_Exit_Hook hook_expr
  | Q_Start start_impl

end
