(* ===== verification/Macro_Lib.thy ===== *)
theory Macro_Lib
  imports Generated_Code
begin

text \<open>
  What the macros are written against. The record \<open>lib\<close> holds the functions of third-party
  crates they call, as parameters: the case conversions of \<open>convert_case\<close>, the attribute
  parser of \<open>structmeta\<close>, the parser of \<open>syn\<close> that checks every quoted template, the texts from
  which \<open>proc_macro2\<close> makes an identifier, and the order in which the hash maps made by
  \<open>itertools\<close> are read. Then come compile errors, panics (\<open>failure\<close>), the three macros of
  \<open>shakespeare-macro/src/macros.rs\<close>, and what a sequence of fallible quotes comes to.
\<close>

section \<open>Third-party functions\<close>

record lib =
  to_snake :: "string \<Rightarrow> string"
  to_upper_camel :: "string \<Rightarrow> string"
  parse_performance_attribute :: "meta \<Rightarrow> bool option"
  reparse :: "quoted \<Rightarrow> string option"
  valid_ident :: "string \<Rightarrow> bool"
  order_inputs :: "ty list list \<Rightarrow> ty list list"
  order_returns :: "ty list \<Rightarrow> ty list"

text \<open>
  The one fact about them that theorems may assume: a hash map is read with every key once.
  What \<open>syn\<close> parses and what \<open>proc_macro2\<close> takes for an identifier is never assumed.
\<close>

definition hash_orders :: "lib \<Rightarrow> bool" where
  "hash_orders L \<longleftrightarrow> key_order (order_inputs L) \<and> key_order (order_returns L)"

section \<open>Errors\<close>

text \<open>
  A compile error is a list of located messages; \<open>syn::Error::combine\<close> appends. The span is
  the syntax the code hands to \<open>Error::new\<close> or \<open>Error::new_spanned\<close>.
\<close>

datatype data_item = Struct item_struct | Enum item_enum | Union item_union

datatype span =
    Span_Module item_mod
  | Span_Data data_item
  | Span_Signature signature
  | Span_Impl item_impl
  | Span_Type ty
  | Span_Quote quoted

datatype message = Message string | Quote_Error string quoted

type_synonym syn_error = "(span \<times> message) list"

datatype failure = Compile_Error syn_error | Panicked string

type_synonym 'a res = "failure + 'a"

definition error_new :: "span \<Rightarrow> string \<Rightarrow> failure" where
  "error_new s m = Compile_Error [(s, Message m)]"

section \<open>Fallible computations\<close>

fun bind_res :: "'a res \<Rightarrow> ('a \<Rightarrow> 'b res) \<Rightarrow> 'b res" where
  "bind_res (Inl e) k = Inl e"
| "bind_res (Inr x) k = k x"

lemma bind_res_Inr_iff [res_simps]:
  "bind_res m k = Inr y \<longleftrightarrow> (\<exists>x. m = Inr x \<and> k x = Inr y)"
  by (cases m) auto

lemma bind_res_Inl_iff [res_simps]:
  "bind_res m k = Inl e \<longleftrightarrow> m = Inl e \<or> (\<exists>x. m = Inr x \<and> k x = Inl e)"
  by (cases m) auto

lemma bind_res_assoc: "bind_res (bind_res m f) g = bind_res m (\<lambda>x. bind_res (f x) g)"
  by (cases m) auto

text \<open>\<open>Result::unwrap\<close>: an error becomes a panic.\<close>

fun unwrap_res :: "'a res \<Rightarrow> 'a res" where
  "unwrap_res (Inl (Compile_Error es)) = Inl (Panicked ''unwrap'')"
| "unwrap_res r = r"

lemma unwrap_res_Inr_iff [res_simps]: "unwrap_res r = Inr x \<longleftrightarrow> r = Inr x"
  by (cases r rule: unwrap_res.cases) auto

section \<open>Identifiers\<close>

text \<open>
  \<open>format_ident!\<close> on a text that need not be an identifier: empty, numeric and many other texts
  panic in \<open>Ident::new\<close>. A text that starts with \<open>r#\<close> goes to \<open>Ident::new_raw\<close>, and \<open>valid_ident\<close> speaks of both.
\<close>

definition format_ident :: "lib \<Rightarrow> string \<Rightarrow> ident res" where
  "format_ident L s =
     (if valid_ident L s then Inr s else Inl (Panicked (s @ '' is not a valid identifier'')))"

lemma format_ident_Inr_iff [res_simps]: "format_ident L s = Inr i \<longleftrightarrow> i = s \<and> valid_ident L s"
  by (auto simp: format_ident_def)

section \<open>The macros of macros.rs\<close>

text \<open>\<open>filter_unwrap!\<close> keeps what a pattern matches, unwrapped; a pattern is a partial function.\<close>

fun filter_unwrap :: "('a \<Rightarrow> 'b option) \<Rightarrow> 'a list \<Rightarrow> 'b list" where
  "filter_unwrap pat [] = []"
| "filter_unwrap pat (x # xs) =
     (case pat x of None \<Rightarrow> filter_unwrap pat xs | Some a \<Rightarrow> a # filter_unwrap pat xs)"

text \<open>
  \<open>fallible_quote!\<close>: the tokens of a template are parsed again; a failure to parse is reported
  with the parser's message and the tokens.
\<close>

definition fallible_quote :: "lib \<Rightarrow> ('a \<Rightarrow> quoted) \<Rightarrow> 'a \<Rightarrow> 'a res" where
  "fallible_quote L q x =
     (case reparse L (q x) of
        None \<Rightarrow> Inr x
      | Some e \<Rightarrow> Inl (Compile_Error [(Span_Quote (q x), Quote_Error e (q x))]))"

text \<open>\<open>map_or_bail!\<close>: collect into a result, which stops at the first error.\<close>

fun map_or_bail :: "('a \<Rightarrow> 'b res) \<Rightarrow> 'a list \<Rightarrow> 'b list res" where
  "map_or_bail f [] = Inr []"
| "map_or_bail f (x # xs) =
     (case f x of
        Inl e \<Rightarrow> Inl e
      | Inr y \<Rightarrow> (case map_or_bail f xs of Inl e \<Rightarrow> Inl e | Inr ys \<Rightarrow> Inr (y # ys)))"

lemma filter_unwrap_eq_map_filter: "filter_unwrap pat xs = List.map_filter pat xs"
  by (induction xs) (auto simp: List.map_filter_simps split: option.splits)

lemma filter_unwrap_append [simp]:
  "filter_unwrap pat (xs @ ys) = filter_unwrap pat xs @ filter_unwrap pat ys"
  by (induction xs) (auto split: option.splits)

lemma set_filter_unwrap: "y \<in> set (filter_unwrap pat xs) \<longleftrightarrow> (\<exists>x\<in>set xs. pat x = Some y)"
  by (simp add: filter_unwrap_eq_map_filter set_map_filter_iff)

lemma fallible_quote_Inr_iff [res_simps]:
  "fallible_quote L q x = Inr y \<longleftrightarrow> y = x \<and> reparse L (q x) = None"
  by (auto simp: fallible_quote_def split: option.splits)

lemma fallible_quote_not_panic [simp]: "fallible_quote L q x \<noteq> Inl (Panicked m)"
  by (simp add: fallible_quote_def split: option.splits)

lemma map_or_bail_Cons_Inr_iff:
  "map_or_bail f (x # xs) = Inr zs \<longleftrightarrow>
     (\<exists>y ys. zs = y # ys \<and> f x = Inr y \<and> map_or_bail f xs = Inr ys)"
  by (auto split: sum.splits)

lemma map_or_bail_Inr_iff:
  "map_or_bail f xs = Inr ys \<longleftrightarrow> list_all2 (\<lambda>x y. f x = Inr y) xs ys"
proof (induction xs arbitrary: ys)
  case Nil
  then show ?case by auto
next
  case (Cons x xs)
  show ?case
    by (auto simp: map_or_bail_Cons_Inr_iff Cons.IH list_all2_Cons1 simp del: map_or_bail.simps)
qed

lemma map_or_bail_total: "(\<And>x. x \<in> set xs \<Longrightarrow> f x = Inr (g x)) \<Longrightarrow> map_or_bail f xs = Inr (map g xs)"
  by (induction xs) auto

lemma map_or_bail_map: "map_or_bail f xs = Inr ys \<Longrightarrow> (\<And>x y. f x = Inr y \<Longrightarrow> y = g x) \<Longrightarrow> ys = map g xs"
  by (induction xs arbitrary: ys) (auto split: sum.splits)

lemma map_or_bail_error: "map_or_bail f xs = Inl e \<Longrightarrow> \<exists>x\<in>set xs. f x = Inl e"
  by (induction xs) (auto split: sum.splits)

lemma map_or_bail_cong: "(\<And>x. x \<in> set xs \<Longrightarrow> f x = g x) \<Longrightarrow> map_or_bail f xs = map_or_bail g xs"
proof (induction xs)
  case (Cons x xs)
  then have "map_or_bail f xs = map_or_bail g xs" and "f x = g x" by simp_all
  then show ?case by (simp split: sum.splits)
qed simp

section \<open>Checks\<close>

text \<open>
  What can fail while code is generated: a text that is made an identifier and a filled-in
  template that is parsed. The message of a template is the one of \<open>fallible_quote!\<close>, but for the
  three that the code parses in another way: the type of a sender is unwrapped, a field of the shell
  has a message of its own, and a field of its constructor passes on the parser's.
\<close>

datatype check = Identifier string | Template quoted

fun template_error :: "quoted \<Rightarrow> string \<Rightarrow> failure" where
  "template_error (Q_Sender_Type t) e = Panicked ''unwrap''"
| "template_error (Q_Field f) e = Compile_Error [(Span_Quote (Q_Field f),
     Message (''Parse failure trying to create actor field: '' @ e @ '' - this is a bug, please file an issue''))]"
| "template_error (Q_Field_Init f) e = Compile_Error [(Span_Quote (Q_Field_Init f), Message e)]"
| "template_error q e = Compile_Error [(Span_Quote q, Quote_Error e q)]"

fun check_failure :: "lib \<Rightarrow> check \<Rightarrow> failure option" where
  "check_failure L (Identifier s) =
     (if valid_ident L s then None else Some (Panicked (s @ '' is not a valid identifier'')))"
| "check_failure L (Template q) = map_option (template_error q) (reparse L q)"

fun first_failure :: "lib \<Rightarrow> check list \<Rightarrow> failure option" where
  "first_failure L [] = None"
| "first_failure L (c # cs) =
     (case check_failure L c of Some e \<Rightarrow> Some e | None \<Rightarrow> first_failure L cs)"

text \<open>A computation whose only way to fail is the first of its checks that fails.\<close>

definition passing :: "lib \<Rightarrow> check list \<Rightarrow> 'a \<Rightarrow> 'a res" where
  "passing L cs x = (case first_failure L cs of Some e \<Rightarrow> Inl e | None \<Rightarrow> Inr x)"

lemma first_failure_append:
  "first_failure L (cs @ ds) =
     (case first_failure L cs of Some e \<Rightarrow> Some e | None \<Rightarrow> first_failure L ds)"
  by (induction cs) (auto split: option.splits)

lemma first_failure_None_iff: "first_failure L cs = None \<longleftrightarrow> (\<forall>c\<in>set cs. check_failure L c = None)"
  by (induction cs) (auto split: option.splits)

named_theorems passing_simps "fallible computations as their checks"

lemma fallible_quote_passing [passing_simps]:
  "(\<And>e. template_error (q x) e = Compile_Error [(Span_Quote (q x), Quote_Error e (q x))]) \<Longrightarrow>
     fallible_quote L q x = passing L [Template (q x)] x"
  by (simp add: fallible_quote_def passing_def split: option.splits)

lemma format_ident_passing [passing_simps]: "format_ident L s = passing L [Identifier s] s"
  by (simp add: format_ident_def passing_def)

lemma bind_passing [passing_simps]:
  "bind_res (passing L cs x) (\<lambda>y. passing L (ds y) (g y)) = passing L (cs @ ds x) (g x)"
  by (simp add: passing_def first_failure_append split: option.splits)

lemma bind_passing_Inr [passing_simps]: "bind_res (passing L cs x) (\<lambda>y. Inr (g y)) = passing L cs (g x)"
  by (simp add: passing_def split: option.splits)

lemma passing_Nil [simp]: "passing L [] x = Inr x"
  by (simp add: passing_def)

lemma passing_total: "first_failure L cs = None \<Longrightarrow> passing L cs x = Inr x"
  by (simp add: passing_def)

lemma map_or_bail_passing [passing_simps]:
  "map_or_bail (\<lambda>x. passing L (cs x) (g x)) xs = passing L (concat (map cs xs)) (map g xs)"
proof (induction xs)
  case (Cons x xs)
  then show ?case
    by (cases "first_failure L (cs x)"; cases "first_failure L (concat (map cs xs))")
      (simp_all add: passing_def first_failure_append)
qed simp

end
