(* ===== verification/Names.thy ===== *)
theory Names
  imports Macro_Lib
begin

text \<open>
  The names the macros derive (\<open>shakespeare-macro/src/data/role_name.rs\<close>, \<open>data_name.rs\<close>,
  \<open>actor_name.rs\<close>): from a role's path the names of its queue, its dispatch method, its
  payload enums and its accessor; from a state type the path of its shell type. A path with
  no segments panics where the code unwraps its last segment; the \<open>debug_assert!\<close>s on
  non-empty paths are that same condition, and every role name is made by \<open>RoleName_new\<close>, which checks it.

  \<open>queue_name\<close> and \<open>method_name\<close> are the texts the code computes, \<open>queue_ident\<close> and \<open>method_ident\<close> the
  identifiers it makes of them, which panic on a text that is none (a role called \<open>__\<close> gives the empty
  one). An identifier followed by letters is an identifier, so \<open>format_ident!\<close> on an identifier and a suffix
  does not panic; it drops the \<open>r#\<close> of a raw identifier, and raw names of roles are not modelled there.
\<close>

section \<open>Role names\<close>

text \<open>The last segment of a path, as \<open>segments.last()\<close>.\<close>

definition last_segment :: "path \<Rightarrow> path_segment option" where
  "last_segment p = (if segments p = [] then None else Some (last (segments p)))"

fun RoleName_new :: "path \<Rightarrow> role_name res" where
  "RoleName_new p =
     (if segments p = [] then Inl (Panicked ''assertion failed: !p.segments.is_empty()'')
      else Inr (RoleName p))"

fun role_path :: "role_name \<Rightarrow> path" where
  "role_path (RoleName p) = p"

text \<open>\<open>path_leaf\<close> unwraps the last segment; \<open>wf_role\<close> is the condition under which it can.\<close>

definition wf_role :: "role_name \<Rightarrow> bool" where
  "wf_role r \<longleftrightarrow> segments (role_path r) \<noteq> []"

fun path_leaf :: "role_name \<Rightarrow> string" where
  "path_leaf (RoleName p) = seg_ident (last (segments p))"

definition queue_name :: "lib \<Rightarrow> role_name \<Rightarrow> ident" where
  "queue_name L r = to_snake L (path_leaf r)"

definition queue_ident :: "lib \<Rightarrow> role_name \<Rightarrow> ident res" where
  "queue_ident L r = format_ident L (queue_name L r)"

definition method_name :: "lib \<Rightarrow> role_name \<Rightarrow> ident" where
  "method_name L r = to_snake L (''perform_'' @ path_leaf r)"

definition method_ident :: "lib \<Rightarrow> role_name \<Rightarrow> ident res" where
  "method_ident L r = format_ident L (method_name L r)"

text \<open>\<open>map_path_leaf\<close> renames the last segment and keeps its arguments.\<close>

fun map_path_leaf :: "path \<Rightarrow> (ident \<Rightarrow> ident) \<Rightarrow> path" where
  "map_path_leaf (Path c segs) f =
     Path c (butlast segs @ [PathSegment (f (seg_ident (last segs))) (seg_arguments (last segs))])"

definition payload_path :: "role_name \<Rightarrow> path" where
  "payload_path r = map_path_leaf (role_path r) (\<lambda>data_name. data_name @ ''Payload'')"

definition return_payload_path :: "role_name \<Rightarrow> path" where
  "return_payload_path r = map_path_leaf (role_path r) (\<lambda>p. p @ ''ReturnPayload'')"

definition sender_method_name :: "lib \<Rightarrow> role_name \<Rightarrow> ident" where
  "sender_method_name L r = ''push_to_'' @ queue_name L r"

definition sender_method_ident :: "lib \<Rightarrow> role_name \<Rightarrow> ident res" where
  "sender_method_ident L r = bind_res (queue_ident L r) (\<lambda>field_name. Inr (''push_to_'' @ field_name))"

text \<open>The quoted type is parsed with \<open>unwrap\<close>: a parse failure is a panic here.\<close>

definition sender_type_name :: "lib \<Rightarrow> role_name \<Rightarrow> sender_type res" where
  "sender_type_name L r = unwrap_res (fallible_quote L Q_Sender_Type (SenderType (role_path r)))"

section \<open>Data and actor names\<close>

fun DataName_new :: "type_path \<Rightarrow> data_name res" where
  "DataName_new p =
     (if segments (type_path_path p) = [] then Inl (Panicked ''assertion failed: !p.path.segments.is_empty()'')
      else Inr (DataName p))"

definition ActorName_new :: "type_path \<Rightarrow> actor_name" where
  "ActorName_new p = ActorName p"

text \<open>\<open><data as ::shakespeare::ActorState>::ShellType\<close>.\<close>

fun get_shell_type_path :: "data_name \<Rightarrow> actor_name" where
  "get_shell_type_path (DataName tp) =
     ActorName_new (TypePath (Some (Type_Path (qself tp) (type_path_path tp), 2))
       (Path True [PathSegment ''shakespeare'' [], PathSegment ''ActorState'' [], PathSegment ''ShellType'' []]))"

section \<open>Facts\<close>

lemma RoleName_new_wf: "RoleName_new p = Inr r \<longleftrightarrow> r = RoleName p \<and> wf_role r"
  by (auto simp: wf_role_def)

lemma segments_map_path_leaf [simp]: "segments (map_path_leaf p f) \<noteq> []"
  by (cases p) auto

lemma map_path_leaf_parent:
  "butlast (segments (map_path_leaf p f)) = butlast (segments p)"
  "leading_colon (map_path_leaf p f) = leading_colon p"
  by (cases p; simp)+

lemma map_path_leaf_last:
  "segments p \<noteq> [] \<Longrightarrow>
     last (segments (map_path_leaf p f)) =
       PathSegment (f (seg_ident (last (segments p)))) (seg_arguments (last (segments p)))"
  by (cases p) auto

text \<open>
  A role's two payload enums never have the same path, and neither is the path of the role;
  different roles have different payload paths.
\<close>

lemma map_path_leaf_inj:
  assumes "segments p \<noteq> []" and "segments q \<noteq> []"
    and "map_path_leaf p f = map_path_leaf q g"
  shows "f (seg_ident (last (segments p))) = g (seg_ident (last (segments q)))"
    and "butlast (segments p) = butlast (segments q)"
    and "leading_colon p = leading_colon q"
    and "seg_arguments (last (segments p)) = seg_arguments (last (segments q))"
proof -
  have "last (segments (map_path_leaf p f)) = last (segments (map_path_leaf q g))"
    using assms(3) by simp
  then show "f (seg_ident (last (segments p))) = g (seg_ident (last (segments q)))"
    and "seg_arguments (last (segments p)) = seg_arguments (last (segments q))"
    using assms(1,2) by (simp_all add: map_path_leaf_last)
  show "butlast (segments p) = butlast (segments q)"
    using assms(3) map_path_leaf_parent(1) by metis
  show "leading_colon p = leading_colon q"
    using assms(3) map_path_leaf_parent(2) by metis
qed

lemma payload_path_inj:
  assumes "wf_role r" and "wf_role s" and "payload_path r = payload_path s"
  shows "r = s"
proof -
  note eqs = map_path_leaf_inj [OF _ _ assms(3) [unfolded payload_path_def]]
  have nonempty: "segments (role_path r) \<noteq> []" "segments (role_path s) \<noteq> []"
    using assms(1,2) by (simp_all add: wf_role_def)
  from eqs(1) [OF nonempty] eqs(4) [OF nonempty]
  have "last (segments (role_path r)) = last (segments (role_path s))"
    by (cases "last (segments (role_path r))"; cases "last (segments (role_path s))") simp
  with eqs(2) [OF nonempty] nonempty have "segments (role_path r) = segments (role_path s)"
    by (metis append_butlast_last_id)
  with eqs(3) [OF nonempty] show ?thesis
    by (cases r; cases s) (auto intro: path.expand)
qed

lemma not_suffix_append: "xs @ ys = xs @ zs \<Longrightarrow> ys = zs"
  by simp

lemma payload_path_neq_return:
  assumes "wf_role r"
  shows "payload_path r \<noteq> return_payload_path r"
proof
  assume eq: "payload_path r = return_payload_path r"
  have "segments (role_path r) \<noteq> []" using assms by (simp add: wf_role_def)
  then have "path_leaf r @ ''Payload'' = path_leaf r @ ''ReturnPayload''"
    using map_path_leaf_inj(1) [OF _ _ eq [unfolded payload_path_def return_payload_path_def]]
    by (cases r) auto
  then show False by simp
qed

text \<open>What making a name can fail with, and what it gives when it does not.\<close>

lemma name_ident_Inr [res_simps]:
  "queue_ident L r = Inr i \<longleftrightarrow> i = queue_name L r \<and> valid_ident L (queue_name L r)"
  "method_ident L r = Inr i \<longleftrightarrow> i = method_name L r \<and> valid_ident L (method_name L r)"
  "sender_method_ident L r = Inr i \<longleftrightarrow> i = sender_method_name L r \<and> valid_ident L (queue_name L r)"
  by (auto simp: queue_ident_def method_ident_def sender_method_ident_def sender_method_name_def res_simps)

lemma name_ident_passing [passing_simps]:
  "queue_ident L r = passing L [Identifier (queue_name L r)] (queue_name L r)"
  "method_ident L r = passing L [Identifier (method_name L r)] (method_name L r)"
  "sender_method_ident L r = passing L [Identifier (queue_name L r)] (sender_method_name L r)"
  by (simp_all add: queue_ident_def method_ident_def sender_method_ident_def sender_method_name_def passing_simps)

lemma sender_type_name_passing [passing_simps]:
  "sender_type_name L r = passing L [Template (Q_Sender_Type (SenderType (role_path r)))] (SenderType (role_path r))"
  by (simp add: sender_type_name_def fallible_quote_def passing_def split: option.splits)

end
