(* ===== verification/Signatures.thy ===== *)
theory Signatures
  imports Names
begin

text \<open>
  \<open>shakespeare-macro/src/data/signature_ext.rs\<close> (the trait \<open>SignatureExt\<close> on signatures) and
  \<open>interfacerewriter.rs\<close> (the fold that turns a handler's signature into the shell's).
\<close>

section \<open>The context parameter\<close>

text \<open>
  The second input, when it is a typed parameter whose type is a reference with any
  lifetime but \<open>'static\<close>, is taken for the actor's context.
\<close>

fun is_context_type :: "ty \<Rightarrow> bool" where
  "is_context_type (Type_Reference l m t) = (case l of None \<Rightarrow> True | Some i \<Rightarrow> i \<noteq> ''static'')"
| "is_context_type _ = False"

definition has_context_input :: "signature \<Rightarrow> bool" where
  "has_context_input s =
     (case sig_inputs s of
        _ # FnArg_Typed p # _ \<Rightarrow> is_context_type (pt_ty p)
      | _ \<Rightarrow> False)"

definition remove_context_param :: "signature \<Rightarrow> signature" where
  "remove_context_param s =
     (if has_context_input s
      then s\<lparr>sig_inputs := take 1 (sig_inputs s) @ drop 2 (sig_inputs s)\<rparr>
      else s)"

section \<open>Types, variants and patterns\<close>

definition extract_return_type :: "signature \<Rightarrow> ty" where
  "extract_return_type s =
     (case sig_output s of ReturnType_Type t \<Rightarrow> t | ReturnType_Default \<Rightarrow> unit_type)"

definition enum_variant_name :: "lib \<Rightarrow> signature \<Rightarrow> ident" where
  "enum_variant_name L s = to_upper_camel L (sig_ident s)"

text \<open>The identifier made of it: a raw method name, say, keeps its \<open>r#\<close> and may panic here.\<close>

definition enum_variant_ident :: "lib \<Rightarrow> signature \<Rightarrow> ident res" where
  "enum_variant_ident L s = format_ident L (enum_variant_name L s)"

fun typed_arg :: "fn_arg \<Rightarrow> pat_type option" where
  "typed_arg (FnArg_Typed p) = Some p"
| "typed_arg (FnArg_Receiver r) = None"

definition extract_input_type_vector :: "signature \<Rightarrow> ty list" where
  "extract_input_type_vector s = map pt_ty (filter_unwrap typed_arg (sig_inputs s))"

text \<open>The decimal numerals \<open>format_ident!\<close> prints after the underscore.\<close>

fun nat_to_string :: "nat \<Rightarrow> string" where
  "nat_to_string n =
     (if n < 10 then [char_of (48 + n)] else nat_to_string (n div 10) @ [char_of (48 + n mod 10)])"

declare nat_to_string.simps [simp del]

text \<open>
  \<open>(0..num_parameters - 1)\<close> on \<open>usize\<close>: with no inputs at all the subtraction overflows, which
  panics (the inputs of a performance always start with the receiver).
\<close>

definition num_parameters :: "signature \<Rightarrow> nat" where
  "num_parameters s =
     (if has_context_input s then length (sig_inputs s) - 1 else length (sig_inputs s))"

definition payload_pattern :: "signature \<Rightarrow> ident list res" where
  "payload_pattern s =
     (if num_parameters s = 0 then Inl (Panicked ''attempt to subtract with overflow'')
      else Inr (map (\<lambda>n. CHR ''_'' # nat_to_string n) [0..<num_parameters s - 1]))"

definition method_call_pattern :: "signature \<Rightarrow> ident list res" where
  "method_call_pattern s =
     bind_res (payload_pattern s) (\<lambda>names.
       if has_context_input s then Inr (''context'' # names) else Inr names)"

definition create_return_variant :: "lib \<Rightarrow> signature \<Rightarrow> variant res" where
  "create_return_variant L s =
     bind_res (enum_variant_ident L s) (\<lambda>variant_name.
       fallible_quote L Q_Variant (Variant variant_name (extract_return_type s)))"

section \<open>The interface of the shell\<close>

text \<open>
  \<open>InterfaceRewriter::fold_signature\<close>. The fold first rewrites the receiver of the signature
  to \<open>&self\<close>, then drops \<open>async\<close> and the context parameter and wraps the return type in an
  envelope.
\<close>

fun fold_receiver :: "fn_arg \<Rightarrow> fn_arg" where
  "fold_receiver (FnArg_Receiver r) = FnArg_Receiver (Receiver ''&self'')"
| "fold_receiver (FnArg_Typed p) = FnArg_Typed p"

definition fold_signature :: "role_name \<Rightarrow> signature \<Rightarrow> signature" where
  "fold_signature role s =
     (let s = s\<lparr>sig_inputs := map fold_receiver (sig_inputs s)\<rparr>;
          s = s\<lparr>sig_asyncness := False\<rparr>;
          old_return = (case sig_output s of ReturnType_Type ret \<Rightarrow> ret | ReturnType_Default \<Rightarrow> unit_type);
          s = remove_context_param s
      in s\<lparr>sig_output := ReturnType_Type (Type_Envelope (role_path role) old_return)\<rparr>)"

section \<open>Facts\<close>

lemma has_context_inputD:
  "has_context_input s \<Longrightarrow>
     \<exists>r p rest. sig_inputs s = r # FnArg_Typed p # rest \<and> is_context_type (pt_ty p)"
  by (auto simp: has_context_input_def split: list.splits fn_arg.splits)

lemma has_context_input_iff:
  "has_context_input s \<longleftrightarrow>
     (\<exists>r p rest. sig_inputs s = r # FnArg_Typed p # rest \<and> is_context_type (pt_ty p))"
  by (auto simp: has_context_input_def split: list.splits fn_arg.splits)

lemma remove_context_param_frame [simp]:
  "sig_ident (remove_context_param s) = sig_ident s"
  "sig_output (remove_context_param s) = sig_output s"
  "sig_asyncness (remove_context_param s) = sig_asyncness s"
  "sig_type_params (remove_context_param s) = sig_type_params s"
  "sig_rest (remove_context_param s) = sig_rest s"
  by (simp_all add: remove_context_param_def)

lemma enum_variant_name_remove [simp]:
  "enum_variant_name L (remove_context_param s) = enum_variant_name L s"
  by (simp add: enum_variant_name_def)

lemma enum_variant_ident_Inr [res_simps]:
  "enum_variant_ident L s = Inr i \<longleftrightarrow> i = enum_variant_name L s \<and> valid_ident L (enum_variant_name L s)"
  by (auto simp: enum_variant_ident_def res_simps)

lemma enum_variant_ident_passing [passing_simps]:
  "enum_variant_ident L s = passing L [Identifier (enum_variant_name L s)] (enum_variant_name L s)"
  by (simp add: enum_variant_ident_def passing_simps)

lemma extract_return_type_remove [simp]:
  "extract_return_type (remove_context_param s) = extract_return_type s"
  by (simp add: extract_return_type_def)

text \<open>
  A well-formed handler: the receiver comes first and only there, and a role's own
  parameters are \<open>'static\<close>, so none of them looks like a context.
\<close>

definition receiver_first :: "signature \<Rightarrow> bool" where
  "receiver_first s =
     (case sig_inputs s of
        FnArg_Receiver _ # rest \<Rightarrow> list_all (\<lambda>a. typed_arg a \<noteq> None) rest
      | _ \<Rightarrow> False)"

lemma receiver_firstE:
  assumes "receiver_first s"
  obtains r ps where "sig_inputs s = FnArg_Receiver r # map FnArg_Typed ps"
proof -
  from assms obtain r rest where s: "sig_inputs s = FnArg_Receiver r # rest"
    and rest: "list_all (\<lambda>a. typed_arg a \<noteq> None) rest"
    by (auto simp: receiver_first_def split: list.splits fn_arg.splits)
  from rest have "\<exists>ps. rest = map FnArg_Typed ps"
  proof (induction rest)
    case (Cons a rest)
    then obtain ps where "rest = map FnArg_Typed ps" by auto
    moreover from Cons.prems obtain p where "a = FnArg_Typed p" by (cases a) auto
    ultimately have "a # rest = map FnArg_Typed (p # ps)" by simp
    then show ?case by (rule exI)
  qed simp
  with s that show ?thesis by blast
qed

lemma filter_unwrap_typed [simp]: "filter_unwrap typed_arg (map FnArg_Typed ps) = ps"
  by (induction ps) auto

lemma length_typed_args:
  assumes "receiver_first s"
  shows "length (extract_input_type_vector s) = length (sig_inputs s) - 1"
proof -
  from assms obtain r ps where "sig_inputs s = FnArg_Receiver r # map FnArg_Typed ps"
    by (rule receiver_firstE)
  then show ?thesis by (simp add: extract_input_type_vector_def)
qed

text \<open>The parameters that become the message: all but the receiver and the context.\<close>

definition message_params :: "signature \<Rightarrow> pat_type list" where
  "message_params s = filter_unwrap typed_arg (sig_inputs (remove_context_param s))"

lemma message_params_cases:
  assumes "receiver_first s"
  shows "(\<not> has_context_input s \<and> message_params s = filter_unwrap typed_arg (sig_inputs s)) \<or>
         (has_context_input s \<and> (\<exists>c. filter_unwrap typed_arg (sig_inputs s) = c # message_params s))"
proof (cases "has_context_input s")
  case True
  then obtain r p rest where s: "sig_inputs s = r # FnArg_Typed p # rest"
    by (auto simp: has_context_input_iff)
  with assms True show ?thesis
    by (auto simp: message_params_def remove_context_param_def receiver_first_def
        split: fn_arg.splits)
qed (simp add: message_params_def remove_context_param_def)

lemma num_parameters_message_params:
  assumes "receiver_first s"
  shows "num_parameters s = Suc (length (message_params s))"
proof -
  from assms obtain r ps where s: "sig_inputs s = FnArg_Receiver r # map FnArg_Typed ps"
    by (rule receiver_firstE)
  show ?thesis
    by (cases ps)
      (auto simp: s num_parameters_def message_params_def remove_context_param_def has_context_input_def)
qed

lemma payload_pattern_length:
  assumes "receiver_first s"
  shows "\<exists>names. payload_pattern s = Inr names \<and> length names = length (message_params s)"
  using num_parameters_message_params [OF assms] by (simp add: payload_pattern_def)

end
