(* ===== verification/Declarations.thy ===== *)
theory Declarations
  imports Signatures
begin

text \<open>
  What the macros read (\<open>shakespeare-macro/src/declarations\<close>, \<open>data/data_item.rs\<close>,
  \<open>data/handler_functions.rs\<close>): an actor module is split into its state type, its \<open>stop\<close> and
  \<open>catch\<close> hooks, its performances, the roles that canonical performances define, and the rest.
\<close>

section \<open>State types: data_item.rs\<close>

fun data_ident :: "data_item \<Rightarrow> ident" where
  "data_ident (Struct s) = struct_ident s"
| "data_ident (Enum e) = enum_ident e"
| "data_ident (Union u) = union_ident u"

text \<open>The name is built from one segment, so \<open>DataName::new\<close> cannot fail on it.\<close>

definition DataItem_name :: "data_item \<Rightarrow> data_name" where
  "DataItem_name d = DataName (TypePath None (path_from_ident (data_ident d)))"

fun DataItem_try_from :: "item \<Rightarrow> data_item option" where
  "DataItem_try_from (Item_Struct s) = Some (Struct s)"
| "DataItem_try_from (Item_Enum e) = Some (Enum e)"
| "DataItem_try_from (Item_Union u) = Some (Union u)"
| "DataItem_try_from _ = None"

lemma DataItem_name_new: "DataName_new (TypePath None (path_from_ident (data_ident d))) = Inr (DataItem_name d)"
  by (simp add: DataItem_name_def path_from_ident_def)

section \<open>Hooks: handler_functions.rs\<close>

datatype handler_function_type = Exit_Function | Panic_Function

record handler_functions =
  hf_state_name :: "data_name option"
  hf_panic :: "item_fn option"
  hf_exit :: "item_fn option"

definition HandlerFunctions_new :: handler_functions where
  "HandlerFunctions_new = \<lparr>hf_state_name = None, hf_panic = None, hf_exit = None\<rparr>"

definition set_data_name :: "data_name \<Rightarrow> handler_functions \<Rightarrow> handler_functions" where
  "set_data_name n h = h\<lparr>hf_state_name := Some n\<rparr>"

text \<open>The flag says whether the function was one of the hooks; a later hook replaces an earlier.\<close>

definition HandlerFunctions_add :: "item_fn \<Rightarrow> handler_functions \<Rightarrow> bool \<times> handler_functions" where
  "HandlerFunctions_add f h =
     (if sig_ident (fn_sig f) = ''stop'' then (True, h\<lparr>hf_exit := Some f\<rparr>)
      else if sig_ident (fn_sig f) = ''catch'' then (True, h\<lparr>hf_panic := Some f\<rparr>)
      else (False, h))"

definition exit_name :: "handler_functions \<Rightarrow> ident option" where
  "exit_name h = map_option (\<lambda>f. sig_ident (fn_sig f)) (hf_exit h)"

definition panic_name :: "handler_functions \<Rightarrow> ident option" where
  "panic_name h = map_option (\<lambda>f. sig_ident (fn_sig f)) (hf_panic h)"

datatype func_return_type = FuncReturnType "item_fn option" handler_function_type

definition panic_return :: "handler_functions \<Rightarrow> func_return_type" where
  "panic_return h = FuncReturnType (hf_panic h) Panic_Function"

definition exit_return :: "handler_functions \<Rightarrow> func_return_type" where
  "exit_return h = FuncReturnType (hf_exit h) Exit_Function"

text \<open>\<open>std::boxed::Box<dyn std::any::Any + std::marker::Send>\<close>, the type of a panic value.\<close>

abbreviation box_any :: ty where
  "box_any \<equiv> Type_Other ''std::boxed::Box<dyn std::any::Any + std::marker::Send>''"

text \<open>The tokens of a hook's return type.\<close>

fun return_type_tokens :: "func_return_type \<Rightarrow> ty" where
  "return_type_tokens (FuncReturnType (Some f) k) =
     (case sig_output (fn_sig f) of ReturnType_Type t \<Rightarrow> t | ReturnType_Default \<Rightarrow> unit_type)"
| "return_type_tokens (FuncReturnType None Exit_Function) = unit_type"
| "return_type_tokens (FuncReturnType None Panic_Function) = box_any"

text \<open>
  The tokens of the hooks: an inherent impl of the state type with both functions. Without a
  state type the conversion panics.
\<close>

datatype hooks_impl = HooksImpl data_name "item_fn option" "item_fn option"

definition handlers_to_tokens :: "handler_functions \<Rightarrow> hooks_impl res" where
  "handlers_to_tokens h =
     (case hf_state_name h of
        Some n \<Rightarrow> Inr (HooksImpl n (hf_panic h) (hf_exit h))
      | None \<Rightarrow> Inl (Panicked ''Actor is missing internal state type''))"

section \<open>Performances: declarations/performance.rs\<close>

record performance_decl =
  pd_role_name :: role_name
  pd_handlers :: "function_item list"

fun impl_item_fn :: "impl_item \<Rightarrow> function_item option" where
  "impl_item_fn (ImplItem_Fn f) = Some f"
| "impl_item_fn (ImplItem_Other t) = None"

text \<open>The checks on one handler: no type parameters, and a receiver first.\<close>

definition check_handler :: "function_item \<Rightarrow> unit res" where
  "check_handler h =
     (if sig_type_params (fun_sig h) \<noteq> []
      then Inl (error_new (Span_Signature (fun_sig h)) ''Generic performances are not supported'')
      else
        (case sig_inputs (fun_sig h) of
           FnArg_Receiver _ # _ \<Rightarrow> Inr ()
         | _ \<Rightarrow> Inl (error_new (Span_Signature (fun_sig h)) ''Performance method must have self-receiver'')))"

fun check_handlers :: "function_item list \<Rightarrow> unit res" where
  "check_handlers [] = Inr ()"
| "check_handlers (h # hs) = bind_res (check_handler h) (\<lambda>_. check_handlers hs)"

definition PerformanceDecl_new :: "path \<Rightarrow> item_impl \<Rightarrow> performance_decl res" where
  "PerformanceDecl_new role_name imp =
     (if segments role_name = []
      then Inl (Panicked ''assertion failed: !role_name.segments.is_empty()'')
      else
        let handlers = filter_unwrap impl_item_fn (imp_items imp) in
        bind_res (check_handlers handlers) (\<lambda>_.
        bind_res (RoleName_new role_name) (\<lambda>r.
          Inr \<lparr>pd_role_name = r, pd_handlers = handlers\<rparr>)))"

section \<open>Roles: declarations/role.rs\<close>

record role_decl =
  rd_name :: path
  rd_attributes :: "attribute list"
  rd_vis :: visibility
  rd_signatures :: "signature list"

definition RoleDecl_new ::
  "path \<Rightarrow> attribute list \<Rightarrow> visibility \<Rightarrow> signature list \<Rightarrow> role_decl" where
  "RoleDecl_new name attributes vis signatures =
     \<lparr>rd_name = name, rd_attributes = attributes, rd_vis = vis,
      rd_signatures = map remove_context_param signatures\<rparr>"

section \<open>Actors: declarations/actor.rs\<close>

record actor_decl =
  ad_actor_name :: actor_name
  ad_attributes :: "attribute list"
  ad_vis :: visibility
  ad_data_item :: data_item
  ad_handlers :: handler_functions
  ad_performances :: "performance_decl list"
  ad_roles :: "role_decl list"
  ad_misc :: "item list"

definition is_performance_tag :: "attribute \<Rightarrow> bool" where
  "is_performance_tag a =
     (case last_segment (attr_path a) of None \<Rightarrow> False | Some ps \<Rightarrow> seg_ident ps = ''performance'')"

definition is_not_internal_attribute :: "attribute \<Rightarrow> bool" where
  "is_not_internal_attribute a =
     (case last_segment (attr_path a) of
        None \<Rightarrow> True
      | Some ps \<Rightarrow> \<not> (seg_ident ps = ''actor'' \<or> seg_ident ps = ''performance'' \<or> seg_ident ps = ''role''))"

text \<open>
  \<open>read_performance\<close>: an impl block without the tag is none; a tagged one without a trait
  panics (the code unwraps \<open>trait_\<close>); a canonical one also declares its role.
\<close>

definition read_performance ::
  "lib \<Rightarrow> item_impl \<Rightarrow> (performance_decl \<times> role_decl option) option res" where
  "read_performance L imp =
     (case List.find is_performance_tag (imp_attrs imp) of
        None \<Rightarrow> Inr None
      | Some attr \<Rightarrow>
          (case imp_trait imp of
             None \<Rightarrow> Inl (Panicked ''called `Option::unwrap()` on a `None` value'')
           | Some role_name \<Rightarrow>
               bind_res (PerformanceDecl_new role_name imp) (\<lambda>perf.
                 let canonical =
                   (case parse_performance_attribute L (attr_meta attr) of
                      None \<Rightarrow> False | Some c \<Rightarrow> c)
                 in
                 if canonical then
                   let signatures = map fun_sig (filter_unwrap impl_item_fn (imp_items imp));
                       attributes = filter is_not_internal_attribute (imp_attrs imp);
                       role = RoleDecl_new role_name attributes Visibility_Public signatures
                   in Inr (Some (perf, Some role))
                 else Inr (Some (perf, None)))))"

text \<open>The variables of the loop over the module's items.\<close>

record scan =
  sc_performances :: "performance_decl list"
  sc_roles :: "role_decl list"
  sc_data_items :: "data_item list"
  sc_misc :: "item list"
  sc_handlers :: handler_functions

definition scan_init :: scan where
  "scan_init = \<lparr>sc_performances = [], sc_roles = [], sc_data_items = [], sc_misc = [],
     sc_handlers = HandlerFunctions_new\<rparr>"

text \<open>\<open>misc.push(item)\<close>, where an item that no case took ends up.\<close>

definition push_misc :: "item \<Rightarrow> scan \<Rightarrow> scan" where
  "push_misc i s = s\<lparr>sc_misc := sc_misc s @ [i]\<rparr>"

text \<open>One round of the loop.\<close>

definition scan_item :: "lib \<Rightarrow> item \<Rightarrow> scan \<Rightarrow> scan res" where
  "scan_item L i s =
     (case i of
        Item_Impl imp \<Rightarrow>
          bind_res (read_performance L imp) (\<lambda>found.
            case found of
              Some (perf, role) \<Rightarrow>
                Inr (s\<lparr>sc_performances := sc_performances s @ [perf],
                       sc_roles := sc_roles s @ (case role of None \<Rightarrow> [] | Some r \<Rightarrow> [r])\<rparr>)
            | None \<Rightarrow> Inr (push_misc i s))
      | Item_Fn f \<Rightarrow>
          (case HandlerFunctions_add f (sc_handlers s) of
             (True, h) \<Rightarrow> Inr (s\<lparr>sc_handlers := h\<rparr>)
           | (False, h) \<Rightarrow> Inr (push_misc i (s\<lparr>sc_handlers := h\<rparr>)))
      | other \<Rightarrow>
          (case DataItem_try_from other of
             Some d \<Rightarrow> Inr (s\<lparr>sc_data_items := sc_data_items s @ [d]\<rparr>)
           | None \<Rightarrow> Inr (push_misc i s)))"

fun scan_items :: "lib \<Rightarrow> item list \<Rightarrow> scan \<Rightarrow> scan res" where
  "scan_items L [] s = Inr s"
| "scan_items L (i # is) s = bind_res (scan_item L i s) (scan_items L is)"

text \<open>\<open>combine_errors\<close>, over the errors of the extra state types.\<close>

fun combine_errors :: "failure \<Rightarrow> failure \<Rightarrow> failure" where
  "combine_errors (Compile_Error a) (Compile_Error b) = Compile_Error (a @ b)"
| "combine_errors one another = one"

fun reduce_errors :: "failure \<Rightarrow> failure list \<Rightarrow> failure" where
  "reduce_errors e [] = e"
| "reduce_errors e (f # fs) = reduce_errors (combine_errors e f) fs"

definition extra_data_error :: "data_item \<Rightarrow> failure" where
  "extra_data_error d = error_new (Span_Data d) ''Only one data item allowed in actor declaration''"

text \<open>The single state type, by \<open>at_most_one\<close>.\<close>

definition single_data_item :: "item_mod \<Rightarrow> data_item list \<Rightarrow> data_item res" where
  "single_data_item m ds =
     (case ds of
        [] \<Rightarrow> Inl (error_new (Span_Module m) ''Actor declaration must contain one struct, enum or union'')
      | [d] \<Rightarrow> Inr d
      | d # extras \<Rightarrow> Inl (reduce_errors (extra_data_error d) (map extra_data_error extras)))"

definition ActorDecl_new :: "lib \<Rightarrow> item_mod \<Rightarrow> actor_decl res" where
  "ActorDecl_new L m =
     (case mod_content m of
        None \<Rightarrow> Inl (error_new (Span_Module m) ''Actor declaration cannot be empty'')
      | Some items \<Rightarrow>
          bind_res (scan_items L items scan_init) (\<lambda>s.
          bind_res (single_data_item m (sc_data_items s)) (\<lambda>data_item.
            let handlers = set_data_name (DataItem_name data_item) (sc_handlers s);
                actor_path = TypePath None (path_from_ident (mod_ident m));
                actor_name = ActorName_new actor_path
            in
            if sc_performances s = []
            then Inl (error_new (Span_Module m)
              ''Actor must have at least one performance, even if it's externally defined'')
            else
              Inr \<lparr>ad_actor_name = actor_name,
                   ad_attributes = filter is_not_internal_attribute (mod_attrs m),
                   ad_vis = mod_vis m, ad_data_item = data_item, ad_handlers = handlers,
                   ad_performances = sc_performances s, ad_roles = sc_roles s,
                   ad_misc = sc_misc s\<rparr>)))"

end
