(* ===== verification/Actor_Split.thy ===== *)
theory Actor_Split
  imports Declarations
begin

text \<open>
  A declarative account of the loop in \<open>ActorDecl::new\<close>: every item of the module has one
  class, found by looking at the item alone, and the loop's result is the items of each
  class in their order. The loop agrees with it on every module, errors included.
\<close>

datatype item_class =
    Class_Performance performance_decl "role_decl option"
  | Class_Stop item_fn
  | Class_Catch item_fn
  | Class_Data data_item
  | Class_Misc item

definition classify :: "lib \<Rightarrow> item \<Rightarrow> item_class res" where
  "classify L i =
     (case i of
        Item_Impl imp \<Rightarrow>
          bind_res (read_performance L imp) (\<lambda>found.
            Inr (case found of Some (p, r) \<Rightarrow> Class_Performance p r | None \<Rightarrow> Class_Misc i))
      | Item_Fn f \<Rightarrow>
          Inr (if sig_ident (fn_sig f) = ''stop'' then Class_Stop f
               else if sig_ident (fn_sig f) = ''catch'' then Class_Catch f else Class_Misc i)
      | other \<Rightarrow>
          Inr (case DataItem_try_from other of Some d \<Rightarrow> Class_Data d | None \<Rightarrow> Class_Misc i))"

fun class_performance :: "item_class \<Rightarrow> performance_decl option" where
  "class_performance (Class_Performance p r) = Some p"
| "class_performance _ = None"

fun class_role :: "item_class \<Rightarrow> role_decl option" where
  "class_role (Class_Performance p r) = r"
| "class_role _ = None"

fun class_data :: "item_class \<Rightarrow> data_item option" where
  "class_data (Class_Data d) = Some d"
| "class_data _ = None"

fun class_misc :: "item_class \<Rightarrow> item option" where
  "class_misc (Class_Misc i) = Some i"
| "class_misc _ = None"

fun class_stop :: "item_class \<Rightarrow> item_fn option" where
  "class_stop (Class_Stop f) = Some f"
| "class_stop _ = None"

fun class_catch :: "item_class \<Rightarrow> item_fn option" where
  "class_catch (Class_Catch f) = Some f"
| "class_catch _ = None"

text \<open>The last element, when there is one: a later hook replaces an earlier one.\<close>

definition last_or :: "'a option \<Rightarrow> 'a list \<Rightarrow> 'a option" where
  "last_or d xs = (if xs = [] then d else Some (last xs))"

definition assemble :: "item_class list \<Rightarrow> scan" where
  "assemble cs =
     \<lparr>sc_performances = filter_unwrap class_performance cs,
      sc_roles = filter_unwrap class_role cs,
      sc_data_items = filter_unwrap class_data cs,
      sc_misc = filter_unwrap class_misc cs,
      sc_handlers =
        \<lparr>hf_state_name = None,
         hf_panic = last_or None (filter_unwrap class_catch cs),
         hf_exit = last_or None (filter_unwrap class_stop cs)\<rparr>\<rparr>"

lemma assemble_Nil [simp]: "assemble [] = scan_init"
  by (simp add: assemble_def scan_init_def HandlerFunctions_new_def last_or_def)

lemma last_or_snoc [simp]: "last_or d (xs @ [x]) = Some x"
  by (simp add: last_or_def)

text \<open>One round of the loop adds the item to its class.\<close>

definition is_plain_item :: "item \<Rightarrow> bool" where
  "is_plain_item i = (case i of Item_Impl _ \<Rightarrow> False | Item_Fn _ \<Rightarrow> False | _ \<Rightarrow> True)"

lemma scan_plain_item:
  "is_plain_item i \<Longrightarrow> scan_item L i s =
     (case DataItem_try_from i of
        Some d \<Rightarrow> Inr (s\<lparr>sc_data_items := sc_data_items s @ [d]\<rparr>)
      | None \<Rightarrow> Inr (push_misc i s))"
  "is_plain_item i \<Longrightarrow> classify L i =
     Inr (case DataItem_try_from i of Some d \<Rightarrow> Class_Data d | None \<Rightarrow> Class_Misc i)"
  by (cases i; simp add: scan_item_def classify_def is_plain_item_def)+

lemma scan_item_classify:
  "scan_item L i (assemble cs) = bind_res (classify L i) (\<lambda>c. Inr (assemble (cs @ [c])))"
proof (cases "is_plain_item i")
  case True
  then show ?thesis
    by (simp add: scan_plain_item assemble_def push_misc_def split: option.splits)
next
  case False
  then consider imp where "i = Item_Impl imp" | f where "i = Item_Fn f"
    by (cases i) (auto simp: is_plain_item_def)
  then show ?thesis
  proof cases
    case (1 imp)
    then show ?thesis
      by (cases "read_performance L imp")
        (auto simp: scan_item_def classify_def assemble_def push_misc_def split: option.splits)
  next
    case (2 f)
    then show ?thesis
      by (simp add: scan_item_def classify_def assemble_def push_misc_def HandlerFunctions_add_def)
  qed
qed

lemma scan_items_classify:
  "scan_items L items (assemble cs) =
     bind_res (map_or_bail (classify L) items) (\<lambda>ds. Inr (assemble (cs @ ds)))"
proof (induction items arbitrary: cs)
  case (Cons i items)
  show ?case
  proof (cases "classify L i")
    case (Inr c)
    then show ?thesis
      using Cons [of "cs @ [c]"]
      by (cases "map_or_bail (classify L) items") (simp_all add: scan_item_classify)
  qed (simp add: scan_item_classify)
qed simp

lemma scan_items_assemble:
  "scan_items L items scan_init = bind_res (map_or_bail (classify L) items) (\<lambda>cs. Inr (assemble cs))"
  using scan_items_classify [of L items "[]"] by simp

text \<open>Every item has a class, and each class keeps what the item was.\<close>

lemma classify_item:
  assumes "classify L i = Inr c"
  shows "case c of
      Class_Performance p r \<Rightarrow> \<exists>imp. i = Item_Impl imp \<and> read_performance L imp = Inr (Some (p, r))
    | Class_Stop f \<Rightarrow> i = Item_Fn f
    | Class_Catch f \<Rightarrow> i = Item_Fn f
    | Class_Data d \<Rightarrow> DataItem_try_from i = Some d
    | Class_Misc j \<Rightarrow> j = i"
  using assms by (auto simp: classify_def res_simps split: item.splits option.splits if_splits)

end
