(* ===== verification/Role_Output.thy ===== *)
theory Role_Output
  imports Actor_Split
begin

text \<open>
  What \<open>#[role]\<close> generates (\<open>shakespeare-macro/src/outputs/role\<close>): the enum of messages with
  the \<open>Accepts\<close> implementations, the enum of return values with the \<open>Emits\<close>
  implementations, the trait with its rewritten methods, and the \<open>Role\<close> implementation.
\<close>

section \<open>Grouping maps\<close>

text \<open>
  \<open>into_grouping_map().fold(\<dots>)\<close> and \<open>.reduce(\<dots>)\<close> file the values under their key in the order
  of the list, and give a hash map, read in the order \<open>ord\<close>.
\<close>

definition grouping_map ::
  "('k list \<Rightarrow> 'k list) \<Rightarrow> ('k \<times> 'v) list \<Rightarrow> ('k \<times> 'v list) list" where
  "grouping_map ord kvs = map (\<lambda>k. (k, values_of k kvs)) (ord (map fst kvs))"

text \<open>\<open>reduce\<close> starts from the first value of a group; a group is never empty.\<close>

fun reduce1 :: "('v \<Rightarrow> 'v \<Rightarrow> 'v) \<Rightarrow> 'v list \<Rightarrow> 'v option" where
  "reduce1 f [] = None"
| "reduce1 f (v # vs) = Some (foldl f v vs)"

definition group_reduce ::
  "('k list \<Rightarrow> 'k list) \<Rightarrow> ('v \<Rightarrow> 'v \<Rightarrow> 'v) \<Rightarrow> ('k \<times> 'v) list \<Rightarrow> ('k \<times> 'v) list" where
  "group_reduce ord f kvs =
     List.map_filter (\<lambda>(k, vs). map_option (Pair k) (reduce1 f vs)) (grouping_map ord kvs)"

section \<open>The payload enum\<close>

record payload_enum =
  pe_definition :: enum_def
  pe_impls :: "accepts_impl list"

definition create_variant :: "lib \<Rightarrow> signature \<Rightarrow> variant res" where
  "create_variant L s =
     bind_res (enum_variant_ident L s) (\<lambda>variant_name.
       fallible_quote L Q_Variant (Variant variant_name (tuple_type (extract_input_type_vector s))))"

definition type_vector_to_accepts ::
  "lib \<Rightarrow> ty list \<Rightarrow> ident \<Rightarrow> role_name \<Rightarrow> accepts_impl res" where
  "type_vector_to_accepts L types name role =
     fallible_quote L Q_Accepts (AcceptsImpl (tuple_type types) role name)"

text \<open>
  The methods grouped by their list of input types, each group with its first variant and size. The
  identifiers of the variants are made as the grouping reads them, so all of them come before the first
  template.
\<close>

definition input_groups :: "lib \<Rightarrow> signature list \<Rightarrow> (ty list \<times> ident \<times> nat) list" where
  "input_groups L sigs =
     group_reduce (order_inputs L) (\<lambda>(ident, count) v. (ident, count + snd v))
       (map (\<lambda>s. (extract_input_type_vector s, (enum_variant_name L s, 1::nat))) sigs)"

definition create_from_impls ::
  "lib \<Rightarrow> role_name \<Rightarrow> signature list \<Rightarrow> accepts_impl list res" where
  "create_from_impls L role sigs =
     bind_res (map_or_bail (enum_variant_ident L) sigs) (\<lambda>variant_names.
       map_or_bail (\<lambda>(types, ident, n). type_vector_to_accepts L types ident role)
         (filter (\<lambda>(types, ident, n). types \<noteq> [] \<and> n = 1) (input_groups L sigs)))"

definition PayloadEnum_new ::
  "lib \<Rightarrow> path \<Rightarrow> signature list \<Rightarrow> role_name \<Rightarrow> payload_enum res" where
  "PayloadEnum_new L payload_type methods role =
     bind_res (map_or_bail (create_variant L) methods) (\<lambda>variants.
     bind_res (create_from_impls L role methods) (\<lambda>impls.
     bind_res (fallible_quote L Q_Enum (EnumDef payload_type variants)) (\<lambda>definition.
       Inr \<lparr>pe_definition = definition, pe_impls = impls\<rparr>)))"

section \<open>The enum of return values\<close>

record return_payload =
  rp_definition :: enum_def
  rp_impls :: "emits_impl list"

definition create_try_from ::
  "lib \<Rightarrow> path \<Rightarrow> ty \<Rightarrow> ident list \<Rightarrow> role_name \<Rightarrow> emits_impl res" where
  "create_try_from L payload_type typ idents role =
     fallible_quote L Q_Emits (EmitsImpl typ role idents payload_type)"

definition return_groups :: "lib \<Rightarrow> signature list \<Rightarrow> (ty \<times> ident list) list" where
  "return_groups L sigs =
     grouping_map (order_returns L) (map (\<lambda>s. (extract_return_type s, enum_variant_name L s)) sigs)"

definition create_output_from_impls ::
  "lib \<Rightarrow> path \<Rightarrow> signature list \<Rightarrow> role_name \<Rightarrow> emits_impl list res" where
  "create_output_from_impls L payload_type sigs role =
     bind_res (map_or_bail (enum_variant_ident L) sigs) (\<lambda>variant_names.
       map_or_bail (\<lambda>(typ, idents). create_try_from L payload_type typ idents role)
         (return_groups L sigs))"

definition ReturnPayload_new ::
  "lib \<Rightarrow> path \<Rightarrow> signature list \<Rightarrow> role_name \<Rightarrow> return_payload res" where
  "ReturnPayload_new L return_payload_type methods role =
     bind_res (map_or_bail (create_return_variant L) methods) (\<lambda>variants.
     bind_res (create_output_from_impls L return_payload_type methods role) (\<lambda>impls.
     bind_res (fallible_quote L Q_Enum (EnumDef return_payload_type variants)) (\<lambda>definition.
       Inr \<lparr>rp_definition = definition, rp_impls = impls\<rparr>)))"

section \<open>The whole role\<close>

record role_output =
  ro_payload_enum :: payload_enum
  ro_return_payload_enum :: return_payload
  ro_trait_definition :: trait_def
  ro_role_impl :: role_impl

definition RoleOutput_new :: "lib \<Rightarrow> role_decl \<Rightarrow> role_output res" where
  "RoleOutput_new L role =
     bind_res (RoleName_new (rd_name role)) (\<lambda>role_name.
     let payload_type = payload_path role_name;
         return_payload_type = return_payload_path role_name;
         signatures = rd_signatures role
     in
     bind_res (PayloadEnum_new L payload_type signatures role_name) (\<lambda>payload_enum.
     bind_res (ReturnPayload_new L return_payload_type signatures role_name) (\<lambda>return_payload_enum.
     let rewritten = map (fold_signature role_name) signatures in
     bind_res (fallible_quote L Q_Trait
       (TraitDef (rd_attributes role) (rd_vis role) role_name rewritten)) (\<lambda>trait_definition.
     bind_res (fallible_quote L Q_Role_Impl
       (RoleImpl role_name payload_type return_payload_type)) (\<lambda>role_impl.
       Inr \<lparr>ro_payload_enum = payload_enum, ro_return_payload_enum = return_payload_enum,
            ro_trait_definition = trait_definition, ro_role_impl = role_impl\<rparr>)))))"

section \<open>Facts\<close>

lemma grouping_map_iff:
  assumes "key_order ord"
  shows "(k, vs) \<in> set (grouping_map ord kvs) \<longleftrightarrow> k \<in> set (map fst kvs) \<and> vs = values_of k kvs"
  using key_orderD(1) [OF assms, of "map fst kvs"] by (auto simp: grouping_map_def)

lemma distinct_grouping_map:
  "key_order ord \<Longrightarrow> distinct (map fst (grouping_map ord kvs))"
  by (simp add: grouping_map_def comp_def key_orderD(2))

lemma group_reduce_iff:
  assumes "key_order ord"
  shows "(k, v) \<in> set (group_reduce ord f kvs) \<longleftrightarrow> reduce1 f (values_of k kvs) = Some v"
proof -
  have "(k, v) \<in> set (group_reduce ord f kvs) \<longleftrightarrow>
      (\<exists>vs. (k, vs) \<in> set (grouping_map ord kvs) \<and> reduce1 f vs = Some v)"
    by (force simp: group_reduce_def set_map_filter_iff)
  also have "\<dots> \<longleftrightarrow> k \<in> set (map fst kvs) \<and> reduce1 f (values_of k kvs) = Some v"
    by (auto simp: grouping_map_iff [OF assms] simp del: set_map)
  also have "\<dots> \<longleftrightarrow> reduce1 f (values_of k kvs) = Some v"
    using values_of_eq_Nil_iff [of k kvs] by (cases "values_of k kvs") auto
  finally show ?thesis .
qed

lemma foldl_count:
  "foldl (\<lambda>(i, c) v. (i, c + snd v)) (i, c) vs = (i, c + sum_list (map snd vs))"
  for c :: nat
  by (induction vs arbitrary: c) auto

lemma group_reduce_count_iff:
  assumes "key_order ord"
  shows "(k, i, n) \<in> set (group_reduce ord (\<lambda>(i, c) v. (i, c + snd v)) (map (\<lambda>x. (f x, (g x, 1::nat))) xs)) \<longleftrightarrow>
    (\<exists>x rest. filter (\<lambda>x. f x = k) xs = x # rest \<and> i = g x \<and> n = length (x # rest))"
  unfolding group_reduce_iff [OF assms] values_of_map
  by (cases "filter (\<lambda>x. f x = k) xs") (auto simp: foldl_count comp_def sum_list_triv)

text \<open>
  Exactly one method takes the types: the groups the code keeps are the non-empty type lists
  of a single method.
\<close>

lemma input_groups_single_iff:
  assumes "hash_orders L"
  shows "(types, ident, 1) \<in> set (input_groups L sigs) \<longleftrightarrow>
    (\<exists>s. filter (\<lambda>s. extract_input_type_vector s = types) sigs = [s] \<and> ident = enum_variant_name L s)"
proof -
  have ord: "key_order (order_inputs L)" using assms by (simp add: hash_orders_def)
  show ?thesis
    unfolding input_groups_def group_reduce_count_iff [OF ord] by auto
qed

lemma return_groups_iff:
  assumes "hash_orders L"
  shows "(t, ids) \<in> set (return_groups L sigs) \<longleftrightarrow>
    t \<in> extract_return_type ` set sigs \<and>
    ids = map (enum_variant_name L) (filter (\<lambda>s. extract_return_type s = t) sigs)"
  using assms unfolding return_groups_def hash_orders_def
  by (force simp: grouping_map_iff values_of_map)

lemma distinct_return_groups:
  "hash_orders L \<Longrightarrow> distinct (map fst (return_groups L sigs))"
  by (simp add: return_groups_def hash_orders_def distinct_grouping_map)

lemma distinct_group_reduce:
  assumes "key_order ord"
  shows "distinct (map fst (group_reduce ord f kvs))"
proof -
  have "map fst (List.map_filter (\<lambda>(k, vs). map_option (Pair k) (reduce1 f vs)) gs)
      = map fst (filter (\<lambda>g. snd g \<noteq> []) gs)" for gs :: "('a \<times> 'b list) list"
  proof (induction gs)
    case (Cons g gs)
    then show ?case by (cases g; cases "snd g") (auto simp: List.map_filter_simps)
  qed (simp add: List.map_filter_simps)
  then show ?thesis
    by (simp add: group_reduce_def distinct_map_filter distinct_grouping_map [OF assms])
qed

section \<open>Successful expansion\<close>

lemma create_from_impls_Inr:
  assumes "create_from_impls L role sigs = Inr impls"
  shows "impls = map (\<lambda>(types, ident, n). AcceptsImpl (tuple_type types) role ident)
    (filter (\<lambda>(types, ident, n). types \<noteq> [] \<and> n = 1) (input_groups L sigs))"
proof -
  from assms have "map_or_bail (\<lambda>(types, ident, n). type_vector_to_accepts L types ident role)
      (filter (\<lambda>(types, ident, n). types \<noteq> [] \<and> n = 1) (input_groups L sigs)) = Inr impls"
    unfolding create_from_impls_def bind_res_Inr_iff by blast
  then show ?thesis
    by (rule map_or_bail_map) (auto simp: type_vector_to_accepts_def res_simps split: prod.splits)
qed

lemma create_output_from_impls_Inr:
  assumes "create_output_from_impls L p sigs role = Inr impls"
  shows "impls = map (\<lambda>(typ, idents). EmitsImpl typ role idents p) (return_groups L sigs)"
proof -
  from assms have "map_or_bail (\<lambda>(typ, idents). create_try_from L p typ idents role) (return_groups L sigs) = Inr impls"
    unfolding create_output_from_impls_def bind_res_Inr_iff by blast
  then show ?thesis
    by (rule map_or_bail_map) (auto simp: create_try_from_def res_simps split: prod.splits)
qed

lemma create_variants_Inr:
  assumes "map_or_bail (create_variant L) sigs = Inr vs"
  shows "vs = map (\<lambda>s. Variant (enum_variant_name L s) (tuple_type (extract_input_type_vector s))) sigs"
  using assms by (rule map_or_bail_map) (auto simp: create_variant_def res_simps)

lemma create_return_variants_Inr:
  assumes "map_or_bail (create_return_variant L) sigs = Inr vs"
  shows "vs = map (\<lambda>s. Variant (enum_variant_name L s) (extract_return_type s)) sigs"
  using assms by (rule map_or_bail_map) (auto simp: create_return_variant_def res_simps)

text \<open>Everything a successful expansion of a role contains.\<close>

lemma RoleOutput_new_Inr:
  assumes "RoleOutput_new L role = Inr out"
  defines "rn \<equiv> RoleName (rd_name role)" and "sigs \<equiv> rd_signatures role"
  shows "segments (rd_name role) \<noteq> []"
    and "pe_definition (ro_payload_enum out) = EnumDef (payload_path rn)
      (map (\<lambda>s. Variant (enum_variant_name L s) (tuple_type (extract_input_type_vector s))) sigs)"
    and "pe_impls (ro_payload_enum out) =
      map (\<lambda>(types, ident, n). AcceptsImpl (tuple_type types) rn ident)
        (filter (\<lambda>(types, ident, n). types \<noteq> [] \<and> n = 1) (input_groups L sigs))"
    and "rp_definition (ro_return_payload_enum out) = EnumDef (return_payload_path rn)
      (map (\<lambda>s. Variant (enum_variant_name L s) (extract_return_type s)) sigs)"
    and "rp_impls (ro_return_payload_enum out) =
      map (\<lambda>(typ, idents). EmitsImpl typ rn idents (return_payload_path rn)) (return_groups L sigs)"
    and "ro_trait_definition out =
      TraitDef (rd_attributes role) (rd_vis role) rn (map (fold_signature rn) sigs)"
    and "ro_role_impl out = RoleImpl rn (payload_path rn) (return_payload_path rn)"
  using assms(1)
  by (auto simp: RoleOutput_new_def PayloadEnum_new_def ReturnPayload_new_def Let_def res_simps
      rn_def sigs_def split: if_splits
      dest!: create_from_impls_Inr create_output_from_impls_Inr create_variants_Inr
        create_return_variants_Inr)

end
