(* ===== verification/Performance_Output.thy ===== *)
theory Performance_Output
  imports Role_Output
begin

text \<open>
  What \<open>#[performance]\<close> generates (\<open>shakespeare-macro/src/outputs/performance\<close>): the role's
  implementation on the shell, whose methods pack their arguments into an envelope, and the
  dispatch function on the state type, which unpacks a message and calls the handler.
\<close>

section \<open>The shell's methods: actor_role_perf.rs\<close>

record actor_perf =
  ap_imp :: perf_impl

definition create_sending_method ::
  "lib \<Rightarrow> path \<Rightarrow> role_name \<Rightarrow> function_item \<Rightarrow> sending_method res" where
  "create_sending_method L payload_type role f =
     (let s = remove_context_param (fun_sig f);
          params = filter_unwrap typed_arg (sig_inputs s);
          patterns = map pt_pat params
      in bind_res (enum_variant_ident L (fun_sig f)) (\<lambda>variant_name.
      let return_type = (case sig_output s of ReturnType_Type ret \<Rightarrow> ret | ReturnType_Default \<Rightarrow> unit_type)
      in fallible_quote L Q_Sending
           (SendingMethod (fun_attrs f) (sig_ident s) params role return_type patterns payload_type variant_name)))"

definition ActorPerf_new ::
  "lib \<Rightarrow> actor_name \<Rightarrow> path \<Rightarrow> role_name \<Rightarrow> function_item list \<Rightarrow> actor_perf res" where
  "ActorPerf_new L actor_path payload_type role handlers =
     bind_res (map_or_bail (create_sending_method L payload_type role) handlers) (\<lambda>sending_methods.
     bind_res (sender_method_ident L role) (\<lambda>sender_name.
     bind_res (fallible_quote L Q_Perf (PerfImpl role actor_path sending_methods sender_name)) (\<lambda>imp.
       Inr \<lparr>ap_imp = imp\<rparr>)))"

section \<open>The dispatch function: dispatch\_core\_fn.rs\<close>

record dispatch_function =
  df_fun :: dispatch_impl

definition make_method_name :: "lib \<Rightarrow> role_name \<Rightarrow> ident \<Rightarrow> ident" where
  "make_method_name L role m = to_snake L (path_leaf role @ ''_'' @ m)"

definition make_method_ident :: "lib \<Rightarrow> role_name \<Rightarrow> ident \<Rightarrow> ident res" where
  "make_method_ident L role m = format_ident L (make_method_name L role m)"

lemma make_method_ident_Inr [res_simps]:
  "make_method_ident L role m = Inr i \<longleftrightarrow> i = make_method_name L role m \<and> valid_ident L (make_method_name L role m)"
  by (auto simp: make_method_ident_def res_simps)

lemma make_method_ident_passing [passing_simps]:
  "make_method_ident L role m = passing L [Identifier (make_method_name L role m)] (make_method_name L role m)"
  by (simp add: make_method_ident_def passing_simps)

text \<open>\<open>#[doc(hidden)]\<close>.\<close>

definition hide_doc :: attribute where
  "hide_doc = Attribute AttrStyle_Outer (Meta_List (path_from_ident ''doc'') ''hidden'')"

definition dispatch_case ::
  "lib \<Rightarrow> role_name \<Rightarrow> path \<Rightarrow> function_item \<Rightarrow> dispatch_arm res" where
  "dispatch_case L role payload_type f =
     bind_res (payload_pattern (fun_sig f)) (\<lambda>payload_pattern.
     bind_res (method_call_pattern (fun_sig f)) (\<lambda>method_call_pattern.
     bind_res (enum_variant_ident L (fun_sig f)) (\<lambda>variant_name.
     bind_res (make_method_ident L role (sig_ident (fun_sig f))) (\<lambda>fn_name.
     let asyncness = sig_asyncness (fun_sig f) in
     bind_res (fallible_quote L Q_Call
       (HandlerCall role variant_name fn_name method_call_pattern asyncness)) (\<lambda>into_call.
     fallible_quote L Q_Arm (DispatchArm payload_type variant_name payload_pattern into_call))))))"

text \<open>A handler under its new name, and the handlers of a performance, whose names are made one by one.\<close>

definition rename_handler :: "lib \<Rightarrow> role_name \<Rightarrow> function_item \<Rightarrow> function_item" where
  "rename_handler L role h =
     h\<lparr>fun_sig := (fun_sig h)\<lparr>sig_ident := make_method_name L role (sig_ident (fun_sig h))\<rparr>,
       fun_attrs := fun_attrs h @ [hide_doc]\<rparr>"

definition renamed_handlers :: "lib \<Rightarrow> role_name \<Rightarrow> function_item list \<Rightarrow> function_item list res" where
  "renamed_handlers L role handlers =
     map_or_bail (\<lambda>h. bind_res (make_method_ident L role (sig_ident (fun_sig h))) (\<lambda>name.
       Inr (h\<lparr>fun_sig := (fun_sig h)\<lparr>sig_ident := name\<rparr>, fun_attrs := fun_attrs h @ [hide_doc]\<rparr>))) handlers"

lemma renamed_handlers_passing [passing_simps]:
  "renamed_handlers L role hs =
     passing L (map (\<lambda>h. Identifier (make_method_name L role (sig_ident (fun_sig h)))) hs) (map (rename_handler L role) hs)"
  by (simp add: renamed_handlers_def passing_simps rename_handler_def [abs_def] concat_map_singleton)

lemma renamed_handlers_Inr:
  "renamed_handlers L role hs = Inr fs \<Longrightarrow> fs = map (rename_handler L role) hs"
  by (simp add: renamed_handlers_passing passing_def split: option.splits)

definition DispatchFunction_new ::
  "lib \<Rightarrow> data_name \<Rightarrow> role_name \<Rightarrow> path \<Rightarrow> ident \<Rightarrow> function_item list \<Rightarrow> dispatch_function res" where
  "DispatchFunction_new L data role payload_type dispatch_method_name handlers =
     bind_res (map_or_bail (dispatch_case L role payload_type) handlers) (\<lambda>arms.
     bind_res (renamed_handlers L role handlers) (\<lambda>renamed_handlers.
     bind_res (fallible_quote L Q_Dispatch
       (DispatchImpl data dispatch_method_name role arms renamed_handlers)) (\<lambda>f.
       Inr \<lparr>df_fun = f\<rparr>)))"

section \<open>Both together: outputs/performance/mod.rs\<close>

record perf_dispatch =
  pf_actor_impl :: actor_perf
  pf_dispatch_fn :: dispatch_function

definition PerfDispatch_new ::
  "lib \<Rightarrow> performance_decl \<Rightarrow> actor_name \<Rightarrow> data_name \<Rightarrow> perf_dispatch option res" where
  "PerfDispatch_new L perf actor_path data =
     (let role = pd_role_name perf;
          handlers = pd_handlers perf
      in
      bind_res (method_ident L role) (\<lambda>dispatch_method_name.
      let payload_type = payload_path role
      in
      if handlers = [] then Inr None
      else
        bind_res (ActorPerf_new L actor_path payload_type role handlers) (\<lambda>actor_impl.
        bind_res (DispatchFunction_new L data role payload_type dispatch_method_name handlers) (\<lambda>dispatch_fn.
          Inr (Some \<lparr>pf_actor_impl = actor_impl, pf_dispatch_fn = dispatch_fn\<rparr>)))))"

section \<open>Successful expansion\<close>

text \<open>What a successful expansion contains for each handler.\<close>

definition sending_of :: "lib \<Rightarrow> role_name \<Rightarrow> function_item \<Rightarrow> sending_method" where
  "sending_of L role f =
     SendingMethod (fun_attrs f) (sig_ident (fun_sig f)) (message_params (fun_sig f)) role
       (extract_return_type (fun_sig f)) (map pt_pat (message_params (fun_sig f)))
       (payload_path role) (enum_variant_name L (fun_sig f))"

definition numbered :: "nat \<Rightarrow> ident list" where
  "numbered n = map (\<lambda>i. CHR ''_'' # nat_to_string i) [0..<n]"

definition arm_of :: "lib \<Rightarrow> role_name \<Rightarrow> function_item \<Rightarrow> dispatch_arm" where
  "arm_of L role f =
     (let names = numbered (length (message_params (fun_sig f))) in
      DispatchArm (payload_path role) (enum_variant_name L (fun_sig f)) names
        (HandlerCall role (enum_variant_name L (fun_sig f))
          (make_method_name L role (sig_ident (fun_sig f)))
          (if has_context_input (fun_sig f) then ''context'' # names else names)
          (sig_asyncness (fun_sig f))))"

lemma create_sending_method_Inr:
  "create_sending_method L (payload_path role) role f = Inr m \<Longrightarrow> m = sending_of L role f"
  by (auto simp: create_sending_method_def sending_of_def message_params_def Let_def res_simps
      extract_return_type_def)

lemma payload_pattern_numbered:
  "receiver_first s \<Longrightarrow> payload_pattern s = Inr (numbered (length (message_params s)))"
  by (simp add: payload_pattern_def num_parameters_message_params numbered_def)

lemma dispatch_case_Inr:
  "receiver_first (fun_sig f) \<Longrightarrow> dispatch_case L role (payload_path role) f = Inr a \<Longrightarrow> a = arm_of L role f"
  by (auto simp: dispatch_case_def arm_of_def res_simps Let_def method_call_pattern_def
      payload_pattern_numbered split: if_splits)

lemma PerfDispatch_new_Inr:
  assumes "PerfDispatch_new L perf actor data = Inr (Some out)"
    and "\<forall>h\<in>set (pd_handlers perf). receiver_first (fun_sig h)"
  defines "role \<equiv> pd_role_name perf" and "hs \<equiv> pd_handlers perf"
  shows "hs \<noteq> []"
    and "ap_imp (pf_actor_impl out) =
      PerfImpl role actor (map (sending_of L role) hs) (sender_method_name L role)"
    and "df_fun (pf_dispatch_fn out) =
      DispatchImpl data (method_name L role) role (map (arm_of L role) hs)
        (map (rename_handler L role) hs)"
proof -
  from assms(1) obtain ap df where ne: "hs \<noteq> []"
    and ap: "ActorPerf_new L actor (payload_path role) role hs = Inr ap"
    and df: "DispatchFunction_new L data role (payload_path role) (method_name L role) hs = Inr df"
    and out: "out = \<lparr>pf_actor_impl = ap, pf_dispatch_fn = df\<rparr>"
    by (auto simp: PerfDispatch_new_def Let_def res_simps hs_def role_def split: if_splits)
  show "hs \<noteq> []" by (rule ne)
  from ap obtain ms where ms: "map_or_bail (create_sending_method L (payload_path role) role) hs = Inr ms"
    and "ap_imp ap = PerfImpl role actor ms (sender_method_name L role)"
    by (auto simp: ActorPerf_new_def res_simps Let_def)
  moreover have "ms = map (sending_of L role) hs"
    using ms by (rule map_or_bail_map) (rule create_sending_method_Inr)
  ultimately show "ap_imp (pf_actor_impl out) =
      PerfImpl role actor (map (sending_of L role) hs) (sender_method_name L role)"
    using out by simp
  from df obtain arms where arms: "map_or_bail (dispatch_case L role (payload_path role)) hs = Inr arms"
    and "df_fun df = DispatchImpl data (method_name L role) role arms (map (rename_handler L role) hs)"
    by (auto simp: DispatchFunction_new_def res_simps Let_def dest!: renamed_handlers_Inr)
  moreover have "arms = map (arm_of L role) hs"
    using arms assms(2) unfolding map_or_bail_Inr_iff hs_def
    by (auto simp: list_all2_conv_all_nth dispatch_case_Inr intro!: nth_equalityI)
  ultimately show "df_fun (pf_dispatch_fn out) =
      DispatchImpl data (method_name L role) role (map (arm_of L role) hs)
        (map (rename_handler L role) hs)"
    using out by simp
qed

end
