(* ===== verification/Actor_Output.thy ===== *)
theory Actor_Output
  imports Performance_Output
begin

text \<open>
  What \<open>#[actor]\<close> generates (\<open>shakespeare-macro/src/outputs/actor\<close>): the shell with one sender
  per role, the methods that push to them, the marker traits, the self getter, and the
  \<open>start\<close> function with its queues and its event loop.
\<close>

section \<open>The shell: actor\_struct.rs\<close>

record actor_struct =
  ast_strukt :: actor_struct_def
  ast_sender_methods :: push_impl
  ast_shell_trait :: shell_trait_impl
  ast_state_trait :: state_trait_impl

text \<open>The field is parsed with its own error message, not with \<open>fallible_quote!\<close>.\<close>

definition shell_field_from_performance :: "lib \<Rightarrow> performance_decl \<Rightarrow> shell_field res" where
  "shell_field_from_performance L perf =
     bind_res (sender_type_name L (pd_role_name perf)) (\<lambda>sender_type_name.
     bind_res (queue_ident L (pd_role_name perf)) (\<lambda>field_name.
     let field = ShellField field_name sender_type_name
     in
     (case reparse L (Q_Field field) of
        None \<Rightarrow> Inr field
      | Some err \<Rightarrow> Inl (Compile_Error [(Span_Quote (Q_Field field),
          Message (''Parse failure trying to create actor field: '' @ err @ '' - this is a bug, please file an issue''))]))))"

definition create_meta_trait_impl ::
  "lib \<Rightarrow> func_return_type \<Rightarrow> func_return_type \<Rightarrow> actor_name \<Rightarrow> data_name \<Rightarrow>
     (shell_trait_impl \<times> state_trait_impl) res" where
  "create_meta_trait_impl L panic_ret exit_ret actor data =
     bind_res (fallible_quote L Q_Shell_Trait
       (ShellTraitImpl actor data (return_type_tokens exit_ret) (return_type_tokens panic_ret)))
       (\<lambda>actor_trait.
     bind_res (fallible_quote L Q_State_Trait (StateTraitImpl data actor)) (\<lambda>state_trait.
       Inr (actor_trait, state_trait)))"

definition create_inherent_impl ::
  "lib \<Rightarrow> role_name list \<Rightarrow> visibility \<Rightarrow> actor_name \<Rightarrow> push_impl res" where
  "create_inherent_impl L role_names actor_vis actor =
     bind_res (map_or_bail (\<lambda>role.
       bind_res (queue_ident L role) (\<lambda>field_name.
       bind_res (sender_method_ident L role) (\<lambda>accessor_name.
         fallible_quote L Q_Push (PushMethod actor_vis accessor_name role field_name)))) role_names) (\<lambda>methods.
     fallible_quote L Q_Push_Impl (PushImpl actor methods))"

definition ActorStruct_new :: "lib \<Rightarrow> actor_decl \<Rightarrow> actor_struct res" where
  "ActorStruct_new L actor =
     bind_res (map_or_bail (shell_field_from_performance L) (ad_performances actor)) (\<lambda>fields.
     bind_res (fallible_quote L Q_Struct
       (ActorStructDef (ad_attributes actor) (ad_vis actor) (ad_actor_name actor) fields)) (\<lambda>strukt.
     let role_names = map pd_role_name (ad_performances actor) in
     bind_res (create_inherent_impl L role_names (ad_vis actor) (ad_actor_name actor)) (\<lambda>sender_methods.
     bind_res (create_meta_trait_impl L (panic_return (ad_handlers actor)) (exit_return (ad_handlers actor))
       (ad_actor_name actor) (DataItem_name (ad_data_item actor))) (\<lambda>(shell_trait, state_trait).
       Inr \<lparr>ast_strukt = strukt, ast_sender_methods = sender_methods,
            ast_shell_trait = shell_trait, ast_state_trait = state_trait\<rparr>))))"

section \<open>The getter: self\_getter.rs\<close>

record self_getter =
  sg_actor_getter :: getter_impl

definition SelfGetter_new :: "lib \<Rightarrow> actor_name \<Rightarrow> self_getter res" where
  "SelfGetter_new L actor =
     bind_res (fallible_quote L Q_Getter (GetterImpl actor)) (\<lambda>actor_getter.
       Inr \<lparr>sg_actor_getter = actor_getter\<rparr>)"

section \<open>The start function: spawning\_function.rs\<close>

record spawning_function =
  sp_fun :: start_impl

definition input_field_name :: "ident \<Rightarrow> ident" where
  "input_field_name name = name @ ''_input''"

definition output_field_name :: "ident \<Rightarrow> ident" where
  "output_field_name name = name @ ''_output''"

text \<open>A field of the constructor: \<open>Field::parse_named\<close> parses it, and its error is passed on as it is.\<close>

definition actor_field :: "lib \<Rightarrow> role_name \<Rightarrow> ident \<Rightarrow> field_init res" where
  "actor_field L role input =
     bind_res (queue_ident L role) (\<lambda>field_name.
     (case reparse L (Q_Field_Init (FieldInit field_name input)) of
        None \<Rightarrow> Inr (FieldInit field_name input)
      | Some err \<Rightarrow> Inl (Compile_Error [(Span_Quote (Q_Field_Init (FieldInit field_name input)), Message err)])))"

definition SpawningFunction_new ::
  "lib \<Rightarrow> actor_name \<Rightarrow> data_name \<Rightarrow> performance_decl list \<Rightarrow> ident option \<Rightarrow> ident option \<Rightarrow>
     spawning_function res" where
  "SpawningFunction_new L actor data performances panic_handler exit_handler =
     bind_res (map_or_bail (queue_ident L \<circ> pd_role_name) performances) (\<lambda>field_names.
      let input_field_names = map input_field_name field_names;
          output_field_names = map output_field_name field_names
      in
      bind_res (map_or_bail (\<lambda>(role, inn, out).
          fallible_quote L Q_Queue (QueueConstruction (pd_role_name role) inn out))
        (zip performances (zip input_field_names output_field_names))) (\<lambda>queue_constructions.
      bind_res (map_or_bail (\<lambda>(role, input). actor_field L (pd_role_name role) input)
        (zip performances input_field_names)) (\<lambda>actor_fields.
      if performances = [] then Inl (Panicked ''assertion failed: !performances.is_empty()'') else
      bind_res (map_or_bail (\<lambda>(perf, output).
          bind_res (method_ident L (pd_role_name perf)) (\<lambda>fn_name.
            fallible_quote L Q_Branch (SelectBranch output fn_name)))
        (zip performances output_field_names)) (\<lambda>select_branches.
      bind_res (fallible_quote L Q_Constructor (ConstructorExpr actor actor_fields)) (\<lambda>constructor.
      bind_res (fallible_quote L Q_Panic_Hook
        (case panic_handler of Some handler \<Rightarrow> Call_Hook handler | None \<Rightarrow> No_Hook)) (\<lambda>run_panic_handler.
      bind_res (fallible_quote L Q_Exit_Hook
        (case exit_handler of Some handler \<Rightarrow> Call_Hook handler | None \<Rightarrow> No_Hook)) (\<lambda>run_exit_handler.
      bind_res (fallible_quote L Q_Start
        (StartImpl actor data queue_constructions constructor select_branches
          run_panic_handler run_exit_handler)) (\<lambda>f.
        Inr \<lparr>sp_fun = f\<rparr>))))))))"

section \<open>The whole actor: outputs/actor/mod.rs\<close>

record actor_output =
  ao_data_item :: data_item
  ao_actor_struct :: actor_struct
  ao_getter :: self_getter
  ao_spawning_function :: spawning_function
  ao_handlers :: handler_functions
  ao_performances :: "perf_dispatch list"
  ao_roles :: "role_output list"
  ao_misc :: "item list"

text \<open>\<open>flatten()\<close> drops the performances without methods (the externally defined ones).\<close>

definition ActorOutput_new :: "lib \<Rightarrow> actor_decl \<Rightarrow> actor_output res" where
  "ActorOutput_new L node =
     bind_res (ActorStruct_new L node) (\<lambda>actor_struct.
     let data = DataItem_name (ad_data_item node);
         panic_name = panic_name (ad_handlers node);
         exit_name = exit_name (ad_handlers node)
     in
     bind_res (SelfGetter_new L (ad_actor_name node)) (\<lambda>getter.
     if ad_performances node = [] then Inl (Panicked ''assertion failed: !performances.is_empty()'') else
     bind_res (SpawningFunction_new L (ad_actor_name node) data (ad_performances node)
       panic_name exit_name) (\<lambda>sf.
     bind_res (map_or_bail (RoleOutput_new L) (ad_roles node)) (\<lambda>roles.
     bind_res (map_or_bail (\<lambda>perf. PerfDispatch_new L perf (ad_actor_name node) data)
       (ad_performances node)) (\<lambda>performances.
       Inr \<lparr>ao_data_item = ad_data_item node, ao_actor_struct = actor_struct, ao_getter = getter,
            ao_spawning_function = sf, ao_handlers = ad_handlers node,
            ao_performances = List.map_filter (\<lambda>p. p) performances,
            ao_roles = roles, ao_misc = ad_misc node\<rparr>)))))"

section \<open>Emitted items\<close>

text \<open>The items of an expansion, in the order \<open>to_tokens\<close> writes them.\<close>

datatype out_item =
    Out_Struct actor_struct_def
  | Out_Shell_Trait shell_trait_impl
  | Out_State_Trait state_trait_impl
  | Out_Push push_impl
  | Out_Data data_item
  | Out_Getter getter_impl
  | Out_Start start_impl
  | Out_Hooks hooks_impl
  | Out_Perf perf_impl
  | Out_Dispatch dispatch_impl
  | Out_Enum enum_def
  | Out_Accepts accepts_impl
  | Out_Emits emits_impl
  | Out_Trait trait_def
  | Out_Role_Impl role_impl
  | Out_Misc item

definition struct_to_tokens :: "actor_struct \<Rightarrow> out_item list" where
  "struct_to_tokens a =
     [Out_Struct (ast_strukt a), Out_Shell_Trait (ast_shell_trait a),
      Out_State_Trait (ast_state_trait a), Out_Push (ast_sender_methods a)]"

definition perf_to_tokens :: "perf_dispatch \<Rightarrow> out_item list" where
  "perf_to_tokens p = [Out_Perf (ap_imp (pf_actor_impl p)), Out_Dispatch (df_fun (pf_dispatch_fn p))]"

definition role_to_tokens :: "role_output \<Rightarrow> out_item list" where
  "role_to_tokens r =
     Out_Enum (pe_definition (ro_payload_enum r)) # map Out_Accepts (pe_impls (ro_payload_enum r)) @
     Out_Enum (rp_definition (ro_return_payload_enum r)) # map Out_Emits (rp_impls (ro_return_payload_enum r)) @
     [Out_Trait (ro_trait_definition r), Out_Role_Impl (ro_role_impl r)]"

definition actor_to_tokens :: "actor_output \<Rightarrow> out_item list res" where
  "actor_to_tokens a =
     bind_res (handlers_to_tokens (ao_handlers a)) (\<lambda>hooks.
       Inr (struct_to_tokens (ao_actor_struct a) @ [Out_Data (ao_data_item a),
              Out_Getter (sg_actor_getter (ao_getter a)), Out_Start (sp_fun (ao_spawning_function a)),
              Out_Hooks hooks] @
            concat (map perf_to_tokens (ao_performances a)) @
            concat (map role_to_tokens (ao_roles a)) @
            map Out_Misc (ao_misc a)))"

section \<open>Successful expansion\<close>

lemma ActorStruct_new_Inr:
  assumes "ActorStruct_new L actor = Inr out"
  shows "ast_strukt out = ActorStructDef (ad_attributes actor) (ad_vis actor) (ad_actor_name actor)
      (map (\<lambda>p. ShellField (queue_name L (pd_role_name p)) (SenderType (role_path (pd_role_name p))))
        (ad_performances actor))"
    and "ast_sender_methods out = PushImpl (ad_actor_name actor)
      (map (\<lambda>p. PushMethod (ad_vis actor) (sender_method_name L (pd_role_name p)) (pd_role_name p)
          (queue_name L (pd_role_name p))) (ad_performances actor))"
    and "ast_shell_trait out = ShellTraitImpl (ad_actor_name actor) (DataItem_name (ad_data_item actor))
      (return_type_tokens (exit_return (ad_handlers actor)))
      (return_type_tokens (panic_return (ad_handlers actor)))"
    and "ast_state_trait out = StateTraitImpl (DataItem_name (ad_data_item actor)) (ad_actor_name actor)"
proof -
  from assms obtain fields methods where
    fields: "map_or_bail (shell_field_from_performance L) (ad_performances actor) = Inr fields"
    and methods: "map_or_bail (\<lambda>role.
        bind_res (queue_ident L role) (\<lambda>field_name.
        bind_res (sender_method_ident L role) (\<lambda>accessor_name.
          fallible_quote L Q_Push (PushMethod (ad_vis actor) accessor_name role field_name))))
        (map pd_role_name (ad_performances actor)) = Inr methods"
    and out: "ast_strukt out = ActorStructDef (ad_attributes actor) (ad_vis actor) (ad_actor_name actor) fields"
      "ast_sender_methods out = PushImpl (ad_actor_name actor) methods"
    and traits: "ast_shell_trait out = ShellTraitImpl (ad_actor_name actor) (DataItem_name (ad_data_item actor))
      (return_type_tokens (exit_return (ad_handlers actor)))
      (return_type_tokens (panic_return (ad_handlers actor)))"
      "ast_state_trait out = StateTraitImpl (DataItem_name (ad_data_item actor)) (ad_actor_name actor)"
    by (auto simp: ActorStruct_new_def create_inherent_impl_def create_meta_trait_impl_def
        res_simps Let_def split: prod.splits)
  have "fields = map (\<lambda>p. ShellField (queue_name L (pd_role_name p)) (SenderType (role_path (pd_role_name p))))
      (ad_performances actor)"
    using fields by (rule map_or_bail_map)
      (auto simp: shell_field_from_performance_def sender_type_name_def res_simps Let_def
        split: option.splits)
  with out show "ast_strukt out = ActorStructDef (ad_attributes actor) (ad_vis actor) (ad_actor_name actor)
      (map (\<lambda>p. ShellField (queue_name L (pd_role_name p)) (SenderType (role_path (pd_role_name p))))
        (ad_performances actor))" by simp
  have "methods = map (\<lambda>role. PushMethod (ad_vis actor) (sender_method_name L role) role (queue_name L role))
      (map pd_role_name (ad_performances actor))"
    using methods by (rule map_or_bail_map) (auto simp: res_simps)
  with out show "ast_sender_methods out = PushImpl (ad_actor_name actor)
      (map (\<lambda>p. PushMethod (ad_vis actor) (sender_method_name L (pd_role_name p)) (pd_role_name p)
          (queue_name L (pd_role_name p))) (ad_performances actor))" by simp
qed (use assms in \<open>auto simp: ActorStruct_new_def create_inherent_impl_def create_meta_trait_impl_def
        res_simps Let_def split: prod.splits\<close>)

text \<open>What a queue's two halves and its branch are called, for one performance.\<close>

definition queue_of :: "lib \<Rightarrow> performance_decl \<Rightarrow> queue_construction" where
  "queue_of L p = QueueConstruction (pd_role_name p)
     (input_field_name (queue_name L (pd_role_name p))) (output_field_name (queue_name L (pd_role_name p)))"

definition field_init_of :: "lib \<Rightarrow> performance_decl \<Rightarrow> field_init" where
  "field_init_of L p = FieldInit (queue_name L (pd_role_name p)) (input_field_name (queue_name L (pd_role_name p)))"

definition branch_of :: "lib \<Rightarrow> performance_decl \<Rightarrow> select_branch" where
  "branch_of L p = SelectBranch (output_field_name (queue_name L (pd_role_name p))) (method_name L (pd_role_name p))"

definition hook_of :: "ident option \<Rightarrow> hook_expr" where
  "hook_of h = (case h of Some handler \<Rightarrow> Call_Hook handler | None \<Rightarrow> No_Hook)"

lemma zip_map_self: "zip xs (map f xs) = map (\<lambda>x. (x, f x)) xs"
  by (induction xs) auto

lemma SpawningFunction_new_Inr:
  assumes "SpawningFunction_new L actor data ps pan ext = Inr out"
  shows "ps \<noteq> [] \<and> sp_fun out = StartImpl actor data (map (queue_of L) ps)
    (ConstructorExpr actor (map (field_init_of L) ps)) (map (branch_of L) ps) (hook_of pan) (hook_of ext)"
proof -
  have pairs: "zip ps (map input_field_name (map (queue_name L \<circ> pd_role_name) ps)) =
      map (\<lambda>p. (p, input_field_name (queue_name L (pd_role_name p)))) ps"
    "zip ps (map output_field_name (map (queue_name L \<circ> pd_role_name) ps)) =
      map (\<lambda>p. (p, output_field_name (queue_name L (pd_role_name p)))) ps"
    "zip ps (zip (map input_field_name (map (queue_name L \<circ> pd_role_name) ps))
        (map output_field_name (map (queue_name L \<circ> pd_role_name) ps))) =
      map (\<lambda>p. (p, input_field_name (queue_name L (pd_role_name p)),
        output_field_name (queue_name L (pd_role_name p)))) ps"
    by (simp_all add: zip_map_self zip_map_map zip_same_conv_map comp_def)
  have names: "fns = map (queue_name L \<circ> pd_role_name) ps"
    if "map_or_bail (queue_ident L \<circ> pd_role_name) ps = Inr fns" for fns
    using that by (rule map_or_bail_map) (auto simp: res_simps)
  obtain qs fs bs where ne: "ps \<noteq> []"
    and qs: "map_or_bail (\<lambda>(role, inn, out). fallible_quote L Q_Queue (QueueConstruction (pd_role_name role) inn out))
        (map (\<lambda>p. (p, input_field_name (queue_name L (pd_role_name p)),
          output_field_name (queue_name L (pd_role_name p)))) ps) = Inr qs"
    and fs: "map_or_bail (\<lambda>(role, input). actor_field L (pd_role_name role) input)
        (map (\<lambda>p. (p, input_field_name (queue_name L (pd_role_name p)))) ps) = Inr fs"
    and bs: "map_or_bail (\<lambda>(perf, output). bind_res (method_ident L (pd_role_name perf)) (\<lambda>fn_name.
          fallible_quote L Q_Branch (SelectBranch output fn_name)))
        (map (\<lambda>p. (p, output_field_name (queue_name L (pd_role_name p)))) ps) = Inr bs"
    and out: "sp_fun out = StartImpl actor data qs (ConstructorExpr actor fs) bs (hook_of pan) (hook_of ext)"
  proof -
    from assms obtain fns where fns: "map_or_bail (queue_ident L \<circ> pd_role_name) ps = Inr fns"
      unfolding SpawningFunction_new_def bind_res_Inr_iff by blast
    show thesis
      using assms that
      unfolding SpawningFunction_new_def fns names [OF fns] bind_res.simps Let_def pairs
      by (auto simp: res_simps hook_of_def split: if_splits)
  qed
  from qs have "qs = map (queue_of L) ps"
    by (drule_tac map_or_bail_map [where g = "\<lambda>(p, i, out). QueueConstruction (pd_role_name p) i out"])
      (auto simp: res_simps queue_of_def comp_def)
  moreover from fs have "fs = map (field_init_of L) ps"
    by (drule_tac map_or_bail_map [where g = "\<lambda>(p, i). FieldInit (queue_name L (pd_role_name p)) i"])
      (auto simp: res_simps field_init_of_def comp_def actor_field_def split: option.splits)
  moreover from bs have "bs = map (branch_of L) ps"
    by (drule_tac map_or_bail_map [where g = "\<lambda>(p, out). SelectBranch out (method_name L (pd_role_name p))"])
      (auto simp: res_simps branch_of_def comp_def)
  ultimately show ?thesis using ne out by simp
qed

lemma ActorOutput_new_Inr:
  assumes "ActorOutput_new L node = Inr out"
  shows "ad_performances node \<noteq> []"
    and "ActorStruct_new L node = Inr (ao_actor_struct out)"
    and "sp_fun (ao_spawning_function out) = StartImpl (ad_actor_name node) (DataItem_name (ad_data_item node))
      (map (queue_of L) (ad_performances node))
      (ConstructorExpr (ad_actor_name node) (map (field_init_of L) (ad_performances node)))
      (map (branch_of L) (ad_performances node))
      (hook_of (panic_name (ad_handlers node))) (hook_of (exit_name (ad_handlers node)))"
    and "sg_actor_getter (ao_getter out) = GetterImpl (ad_actor_name node)"
    and "map_or_bail (RoleOutput_new L) (ad_roles node) = Inr (ao_roles out)"
    and "\<exists>outs. map_or_bail (\<lambda>perf. PerfDispatch_new L perf (ad_actor_name node) (DataItem_name (ad_data_item node)))
      (ad_performances node) = Inr outs \<and> ao_performances out = List.map_filter (\<lambda>p. p) outs"
    and "ao_handlers out = ad_handlers node" and "ao_data_item out = ad_data_item node"
    and "ao_misc out = ad_misc node"
  using assms
  by (auto simp: ActorOutput_new_def SelfGetter_new_def Let_def res_simps split: if_splits
      dest!: SpawningFunction_new_Inr)

end
