(* ===== verification/Macro_Entry.thy ===== *)
theory Macro_Entry
  imports Actor_Output
begin

text \<open>
  The entry points of the macros (\<open>shakespeare-macro/src/lib.rs\<close>): the three \<open>make_\<close> functions
  and the internal functions behind the attributes, which parse their item and turn every
  error into \<open>compile_error!\<close> tokens.
\<close>

section \<open>The make functions\<close>

definition make_actor :: "lib \<Rightarrow> item_mod \<Rightarrow> actor_output res" where
  "make_actor L m = bind_res (ActorDecl_new L m) (ActorOutput_new L)"

definition make_performance :: "lib \<Rightarrow> item_impl \<Rightarrow> perf_dispatch res" where
  "make_performance L imp =
     (let empty_perf_error = error_new (Span_Impl imp) ''Standalone performance needs methods'' in
      case imp_trait imp of
        None \<Rightarrow> Inl (error_new (Span_Impl imp) ''Cannot define standalone performance with no role name'')
      | Some role_name \<Rightarrow>
          (case imp_self_ty imp of
             Type_Path q typath \<Rightarrow>
               bind_res (DataName_new (TypePath q typath)) (\<lambda>data_name.
               let actor_path = get_shell_type_path data_name in
               bind_res (PerformanceDecl_new role_name imp) (\<lambda>decl.
               bind_res (PerfDispatch_new L decl actor_path data_name) (\<lambda>pd.
                 case pd of Some pd \<Rightarrow> Inr pd | None \<Rightarrow> Inl empty_perf_error)))
           | _ \<Rightarrow> Inl (error_new (Span_Type (imp_self_ty imp)) ''Unsupported self type in performance'')))"

fun trait_item_fn :: "trait_item \<Rightarrow> signature option" where
  "trait_item_fn (TraitItem_Fn s) = Some s"
| "trait_item_fn (TraitItem_Other t) = None"

definition make_role :: "lib \<Rightarrow> item_trait \<Rightarrow> role_output res" where
  "make_role L imp =
     (let signatures = filter_unwrap trait_item_fn (trait_items imp);
          decl = RoleDecl_new (path_from_ident (trait_ident imp)) (trait_attrs imp) (trait_vis imp) signatures
      in RoleOutput_new L decl)"

section \<open>The attributes\<close>

text \<open>
  What an attribute hands back to the compiler: the items, the tokens of a compile error, or
  nothing at all because the macro panicked. The item's parser is \<open>syn::parse2\<close>, a parameter. The
  functions the compiler calls, \<open>actor\<close>, \<open>performance\<close> and \<open>role\<close>, convert tokens from and to its own type and
  call the internal ones.
\<close>

datatype macro_output =
    Expanded "out_item list"
  | Compile_Error_Tokens syn_error
  | Macro_Panicked string

fun finish :: "out_item list res \<Rightarrow> macro_output" where
  "finish (Inr items) = Expanded items"
| "finish (Inl (Compile_Error e)) = Compile_Error_Tokens e"
| "finish (Inl (Panicked m)) = Macro_Panicked m"

text \<open>\<open>syn::parse2(tokens).map_err(|err| err.to_compile_error())\<close>.\<close>

definition parse_macro_input :: "(tokens \<Rightarrow> syn_error + 'a) \<Rightarrow> tokens \<Rightarrow> 'a res" where
  "parse_macro_input parse tokens =
     (case parse tokens of Inl err \<Rightarrow> Inl (Compile_Error err) | Inr x \<Rightarrow> Inr x)"

definition actor_internal ::
  "(tokens \<Rightarrow> syn_error + item_mod) \<Rightarrow> lib \<Rightarrow> tokens \<Rightarrow> tokens \<Rightarrow> macro_output" where
  "actor_internal parse L attr item =
     finish (bind_res (parse_macro_input parse item) (\<lambda>module.
       bind_res (make_actor L module) actor_to_tokens))"

definition performance_internal ::
  "(tokens \<Rightarrow> syn_error + item_impl) \<Rightarrow> lib \<Rightarrow> tokens \<Rightarrow> tokens \<Rightarrow> macro_output" where
  "performance_internal parse L attr item =
     finish (bind_res (parse_macro_input parse item) (\<lambda>imp.
       bind_res (make_performance L imp) (\<lambda>perf. Inr (perf_to_tokens perf))))"

definition role_internal ::
  "(tokens \<Rightarrow> syn_error + item_trait) \<Rightarrow> lib \<Rightarrow> tokens \<Rightarrow> tokens \<Rightarrow> macro_output" where
  "role_internal parse L attr item =
     finish (bind_res (parse_macro_input parse item) (\<lambda>imp.
       bind_res (make_role L imp) (\<lambda>role. Inr (role_to_tokens role))))"

section \<open>Facts\<close>

lemma check_handlers_Inr: "check_handlers hs = Inr () \<longleftrightarrow> (\<forall>h\<in>set hs. check_handler h = Inr ())"
  by (induction hs) (auto simp: res_simps)

lemma check_handler_Inr:
  "check_handler h = Inr () \<longleftrightarrow>
     sig_type_params (fun_sig h) = [] \<and> (\<exists>r rest. sig_inputs (fun_sig h) = FnArg_Receiver r # rest)"
  by (auto simp: check_handler_def split: list.splits fn_arg.splits)

lemma PerformanceDecl_new_Inr [res_simps]:
  "PerformanceDecl_new p imp = Inr d \<longleftrightarrow>
     segments p \<noteq> [] \<and>
     d = \<lparr>pd_role_name = RoleName p, pd_handlers = filter_unwrap impl_item_fn (imp_items imp)\<rparr> \<and>
     (\<forall>h\<in>set (filter_unwrap impl_item_fn (imp_items imp)). check_handler h = Inr ())"
  by (auto simp: PerformanceDecl_new_def Let_def res_simps check_handlers_Inr split: if_splits)

text \<open>
  Rust's grammar allows the receiver only as the first input, so \<open>parsed_signature\<close> is what
  \<open>syn\<close> guarantees of every signature it parses.
\<close>

definition parsed_signature :: "signature \<Rightarrow> bool" where
  "parsed_signature s \<longleftrightarrow> list_all (\<lambda>a. typed_arg a \<noteq> None) (tl (sig_inputs s))"

lemma check_handler_receiver_first:
  "check_handler h = Inr () \<Longrightarrow> parsed_signature (fun_sig h) \<Longrightarrow> receiver_first (fun_sig h)"
  by (auto simp: check_handler_Inr receiver_first_def parsed_signature_def)

end
