(* ===== verification/Codegen_Semantics.thy ===== *)
theory Codegen_Semantics
  imports Macro_Entry
begin

text \<open>
  What the generated code does when it runs: the shell's methods pack their arguments, the
  dispatch function finds the arm of the message's variant, takes the arguments out again
  and calls the handler, and \<open>from_return_payload\<close> takes the return value out of its variant.
  The definitions interpret the templates of \<open>Generated_Code\<close>, so a generator that pairs
  the wrong names gives code with the wrong meaning, or with none.
\<close>

section \<open>Values and tuples\<close>

text \<open>
  A value of a parameter's type, or a tuple of values. As \<open>tuple_type\<close> does for types, the
  quoted tuple of one value is that value.
\<close>

datatype 'v val = Val 'v | Tuple "'v val list"

fun pack_tuple :: "'v val list \<Rightarrow> 'v val" where
  "pack_tuple [] = Tuple []"
| "pack_tuple [v] = v"
| "pack_tuple vs = Tuple vs"

text \<open>Matching a value against the pattern \<open>(x1, \<dots>, xn)\<close>: no bindings when it does not match.\<close>

fun match_tuple :: "ident list \<Rightarrow> 'v val \<Rightarrow> (ident \<times> 'v val) list option" where
  "match_tuple [] v = (case v of Tuple [] \<Rightarrow> Some [] | _ \<Rightarrow> None)"
| "match_tuple [x] v = Some [(x, v)]"
| "match_tuple xs v =
     (case v of Tuple vs \<Rightarrow> (if length vs = length xs then Some (zip xs vs) else None) | Val _ \<Rightarrow> None)"

lemma match_pack_tuple:
  "length xs = length vs \<Longrightarrow> match_tuple xs (pack_tuple vs) = Some (zip xs vs)"
  by (cases "(xs, pack_tuple vs)" rule: match_tuple.cases; cases vs rule: pack_tuple.cases) auto

section \<open>A call on the shell\<close>

text \<open>A message: a variant of a payload enum and its one field.\<close>

datatype 'v payload = Payload (pl_enum: path) (pl_variant: ident) (pl_value: "'v val")

fun pat_ident :: "pat \<Rightarrow> ident option" where
  "pat_ident (Pat_Ident x) = Some x"
| "pat_ident (Pat_Other t) = None"

text \<open>
  The body of a shell method: the parameters are bound to the arguments, the patterns are
  evaluated again as the fields of a tuple. Parameters that are not plain names are outside
  this semantics.
\<close>

definition run_sending :: "sending_method \<Rightarrow> 'v val list \<Rightarrow> 'v payload option" where
  "run_sending m args =
     (case those (map (pat_ident \<circ> pt_pat) (sm_params m)) of
        None \<Rightarrow> None
      | Some xs \<Rightarrow>
          if length xs \<noteq> length args then None
          else
            (case those (map (\<lambda>p. Option.bind (pat_ident p) (map_of (zip xs args))) (sm_patterns m)) of
               None \<Rightarrow> None
             | Some vs \<Rightarrow> Some (Payload (sm_payload m) (sm_variant m) (pack_tuple vs))))"

text \<open>The method of a role's implementation that is called by name.\<close>

definition run_shell_call :: "perf_impl \<Rightarrow> ident \<Rightarrow> 'v val list \<Rightarrow> 'v payload option" where
  "run_shell_call p m args =
     Option.bind (List.find (\<lambda>s. sm_ident s = m) (pi_methods p)) (\<lambda>s. run_sending s args)"

section \<open>Dispatch\<close>

text \<open>An argument of a handler: the context, or a value.\<close>

datatype 'v call_arg = Context_Arg | Value_Arg "'v val"

text \<open>
  The names in scope in an arm: the dispatch function's \<open>context\<close> parameter and the pattern's
  bindings, which shadow it.
\<close>

definition arm_env :: "(ident \<times> 'v val) list \<Rightarrow> ident \<Rightarrow> 'v call_arg option" where
  "arm_env binds x =
     (case map_of binds x of
        Some v \<Rightarrow> Some (Value_Arg v)
      | None \<Rightarrow> if x = ''context'' then Some Context_Arg else None)"

text \<open>
  One run of the dispatch function on a state and a message: the first arm that matches, its
  handler by name, the handler's effect (\<open>invoke\<close>), and the value wrapped in the return
  enum's variant. \<open>None\<close> stands for generated code that does not compile.
\<close>

definition run_dispatch ::
  "(function_item \<Rightarrow> 'v call_arg list \<Rightarrow> 'c) \<Rightarrow> dispatch_impl \<Rightarrow> 'v payload \<Rightarrow> (ident \<times> 'c) option" where
  "run_dispatch invoke d msg =
     Option.bind
       (List.find (\<lambda>a. da_payload a = pl_enum msg \<and> da_variant a = pl_variant msg) (di_arms d)) (\<lambda>arm.
     Option.bind (match_tuple (da_pattern arm) (pl_value msg)) (\<lambda>binds.
     Option.bind (List.find (\<lambda>h. sig_ident (fun_sig h) = hc_fn (da_call arm)) (di_handlers d)) (\<lambda>handler.
     Option.bind (those (map (arm_env binds) (hc_args (da_call arm)))) (\<lambda>args.
       Some (hc_variant (da_call arm), invoke handler args)))))"

text \<open>\<open>from_return_payload\<close>: \<open>None\<close> is the \<open>unimplemented!\<close> panic.\<close>

definition run_from_return :: "emits_impl \<Rightarrow> ident \<times> 'r \<Rightarrow> 'r option" where
  "run_from_return e r = (if fst r \<in> set (em_variants e) then Some (snd r) else None)"

text \<open>\<open>into_payload\<close> of an \<open>Accepts\<close> implementation.\<close>

definition run_into_payload :: "accepts_impl \<Rightarrow> path \<Rightarrow> 'v val \<Rightarrow> 'v payload" where
  "run_into_payload a enum v = Payload enum (acc_variant a) v"

section \<open>Numbered names\<close>

lemma nat_to_string_not_Nil [simp]: "nat_to_string n \<noteq> []"
  by (subst nat_to_string.simps) simp

lemma Nil_neq_nat_to_string [simp]: "[] \<noteq> nat_to_string n"
  using nat_to_string_not_Nil [of n] by metis

lemma char_of_digit_inj:
  assumes "(char_of (48 + a) :: char) = char_of (48 + b)" and "a < 10" and "b < (10::nat)"
  shows "a = b"
proof -
  have "of_char (char_of (48 + a) :: char) = (of_char (char_of (48 + b) :: char) :: nat)"
    using assms(1) by simp
  then have "(48 + a) mod 256 = (48 + b) mod (256::nat)" by simp
  with assms(2,3) show ?thesis by simp
qed

lemma nat_to_string_small: "n < 10 \<Longrightarrow> nat_to_string n = [char_of (48 + n)]"
  by (subst nat_to_string.simps) simp

lemma nat_to_string_large:
  "\<not> n < 10 \<Longrightarrow> nat_to_string n = nat_to_string (n div 10) @ [char_of (48 + n mod 10)]"
  by (subst nat_to_string.simps) simp

lemma nat_to_string_inj: "nat_to_string m = nat_to_string n \<Longrightarrow> m = n"
proof (induction m arbitrary: n rule: nat_to_string.induct)
  case (1 m)
  show ?case
  proof (cases "m < 10"; cases "n < 10")
    assume "m < 10" "n < 10"
    with "1.prems" show ?thesis by (auto simp: nat_to_string_small intro: char_of_digit_inj)
  next
    assume m: "\<not> m < 10" and n: "\<not> n < 10"
    from "1.prems" have "nat_to_string (m div 10) = nat_to_string (n div 10)"
      and "(char_of (48 + m mod 10) :: char) = char_of (48 + n mod 10)"
      using m n by (simp_all add: nat_to_string_large)
    with "1.IH" [OF m] have "m div 10 = n div 10" "m mod 10 = n mod 10"
      by (auto intro: char_of_digit_inj)
    then show ?thesis by (metis div_mult_mod_eq)
  qed (use "1.prems" in \<open>auto simp: nat_to_string_small nat_to_string_large append_eq_Cons_conv\<close>)
qed

lemma distinct_numbered [simp]: "distinct (numbered n)"
  by (auto simp: numbered_def distinct_map inj_on_def dest: nat_to_string_inj)

lemma context_not_numbered [simp]: "''context'' \<notin> set (numbered n)"
  by (auto simp: numbered_def)

lemma length_numbered [simp]: "length (numbered n) = n"
  by (simp add: numbered_def)

section \<open>Dispatch is correct\<close>

text \<open>
  What \<open>rustc\<close> demands of the handlers of one performance, after the case conversions: distinct
  method names, distinct variants, distinct renamed methods, and named, distinct parameters.
\<close>

definition handlers_compile :: "lib \<Rightarrow> role_name \<Rightarrow> function_item list \<Rightarrow> bool" where
  "handlers_compile L role hs \<longleftrightarrow>
     distinct (map (\<lambda>h. sig_ident (fun_sig h)) hs) \<and>
     distinct (map (\<lambda>h. enum_variant_name L (fun_sig h)) hs) \<and>
     distinct (map (\<lambda>h. make_method_name L role (sig_ident (fun_sig h))) hs) \<and>
     (\<forall>h\<in>set hs. receiver_first (fun_sig h) \<and>
        (\<exists>xs. map pt_pat (message_params (fun_sig h)) = map Pat_Ident xs \<and> distinct xs))"

lemma run_sending_of:
  assumes "map pt_pat (message_params (fun_sig h)) = map Pat_Ident xs" and "distinct xs"
    and "length args = length xs"
  shows "run_sending (sending_of L role h) args =
    Some (Payload (payload_path role) (enum_variant_name L (fun_sig h)) (pack_tuple args))"
proof -
  have "map (pat_ident \<circ> pt_pat) (message_params (fun_sig h)) = map Some xs"
    using arg_cong [OF assms(1), of "map pat_ident"] by (simp add: comp_def)
  moreover have "map (\<lambda>p. Option.bind (pat_ident p) (map_of (zip xs args))) (map Pat_Ident xs) = map Some args"
    using map_of_zip_distinct [OF assms(2), of args] assms(3) by (simp add: comp_def)
  ultimately show ?thesis
    using assms by (simp add: run_sending_def sending_of_def)
qed

lemma arm_env_args:
  assumes "length vs = n"
  shows "those (map (arm_env (zip (numbered n) vs)) (numbered n)) = Some (map Value_Arg vs)"
    and "those (map (arm_env (zip (numbered n) vs)) (''context'' # numbered n)) =
      Some (Context_Arg # map Value_Arg vs)"
proof -
  let ?m = "map_of (zip (numbered n) vs)"
  have "map ?m (numbered n) = map Some vs"
    using assms by (intro map_of_zip_distinct) simp_all
  then have "map (arm_env (zip (numbered n) vs)) (numbered n) = map Some (map Value_Arg vs)"
    by (auto simp: list_eq_iff_nth_eq arm_env_def)
  then show args: "those (map (arm_env (zip (numbered n) vs)) (numbered n)) = Some (map Value_Arg vs)"
    by (simp only: those_map_Some)
  have "?m ''context'' = None"
    using assms by (simp add: map_of_zip_is_None)
  then show "those (map (arm_env (zip (numbered n) vs)) (''context'' # numbered n)) =
      Some (Context_Arg # map Value_Arg vs)"
    using args by (simp add: arm_env_def)
qed

text \<open>The call a handler gets: its context when it declares one, then the message's values.\<close>

definition handler_args :: "function_item \<Rightarrow> 'v val list \<Rightarrow> 'v call_arg list" where
  "handler_args h args =
     (if has_context_input (fun_sig h) then Context_Arg # map Value_Arg args else map Value_Arg args)"

lemma run_dispatch_arm:
  assumes "handlers_compile L role hs" and "h \<in> set hs"
    and "length args = length (message_params (fun_sig h))"
  shows "run_dispatch invoke
      (DispatchImpl data m role (map (arm_of L role) hs) (map (rename_handler L role) hs))
      (Payload (payload_path role) (enum_variant_name L (fun_sig h)) (pack_tuple args)) =
    Some (enum_variant_name L (fun_sig h), invoke (rename_handler L role h) (handler_args h args))"
proof -
  have arm: "List.find (\<lambda>a. da_payload a = payload_path role \<and> da_variant a = enum_variant_name L (fun_sig h))
      (map (arm_of L role) hs) = Some (arm_of L role h)"
    using find_distinct_key_eq [of "\<lambda>h. enum_variant_name L (fun_sig h)" hs h, OF _ assms(2) refl] assms(1)
    by (simp add: find_map handlers_compile_def arm_of_def Let_def)
  have handler: "List.find (\<lambda>f. sig_ident (fun_sig f) = make_method_name L role (sig_ident (fun_sig h)))
      (map (rename_handler L role) hs) = Some (rename_handler L role h)"
    using find_distinct_key_eq [of "\<lambda>h. make_method_name L role (sig_ident (fun_sig h))" hs h, OF _ assms(2) refl] assms(1)
    by (simp add: find_map handlers_compile_def rename_handler_def)
  let ?n = "length (message_params (fun_sig h))"
  have parts: "da_pattern (arm_of L role h) = numbered ?n"
    "hc_variant (da_call (arm_of L role h)) = enum_variant_name L (fun_sig h)"
    "hc_fn (da_call (arm_of L role h)) = make_method_name L role (sig_ident (fun_sig h))"
    by (simp_all add: arm_of_def Let_def)
  have hc_args: "hc_args (da_call (arm_of L role h)) =
      (if has_context_input (fun_sig h) then ''context'' # numbered ?n else numbered ?n)"
    by (simp add: arm_of_def Let_def)
  have args: "those (map (arm_env (zip (numbered ?n) args)) (hc_args (da_call (arm_of L role h)))) =
      Some (handler_args h args)"
    using arm_env_args [OF assms(3)] by (simp add: hc_args handler_args_def del: those.simps list.map)
  have matched: "match_tuple (numbered ?n) (pack_tuple args) = Some (zip (numbered ?n) args)"
    by (rule match_pack_tuple) (simp add: assms(3))
  show ?thesis
    unfolding run_dispatch_def dispatch_impl.sel payload.sel arm parts Option.bind.bind_lunit matched
      handler args by simp
qed

end
