(* ===== verification/Expansion_Checks.thy ===== *)
theory Expansion_Checks
  imports Macro_Entry
begin

text \<open>
  What has to be an identifier and what has to parse while the macros generate code, for each part
  of the output in the order in which it is tried, and that nothing else can make the generation fail:
  each \<open>new\<close> function of \<open>shakespeare-macro/src/outputs\<close> gives its whole output if its checks pass, and the failure of
  the first one that does not otherwise. The templates are listed filled in, as parts of the
  output.
\<close>

section \<open>Roles\<close>

definition variant_checks :: "lib \<Rightarrow> (signature \<Rightarrow> ty) \<Rightarrow> signature \<Rightarrow> check list" where
  "variant_checks L field s =
     [Identifier (enum_variant_name L s), Template (Q_Variant (Variant (enum_variant_name L s) (field s)))]"

definition variant_names :: "lib \<Rightarrow> signature list \<Rightarrow> check list" where
  "variant_names L sigs = map (\<lambda>s. Identifier (enum_variant_name L s)) sigs"

definition enum_of :: "lib \<Rightarrow> (signature \<Rightarrow> ty) \<Rightarrow> path \<Rightarrow> signature list \<Rightarrow> enum_def" where
  "enum_of L field p sigs = EnumDef p (map (\<lambda>s. Variant (enum_variant_name L s) (field s)) sigs)"

definition accepts_of :: "lib \<Rightarrow> role_name \<Rightarrow> signature list \<Rightarrow> accepts_impl list" where
  "accepts_of L rn sigs = map (\<lambda>(types, ident, n). AcceptsImpl (tuple_type types) rn ident)
     (filter (\<lambda>(types, ident, n). types \<noteq> [] \<and> n = 1) (input_groups L sigs))"

definition emits_of :: "lib \<Rightarrow> path \<Rightarrow> role_name \<Rightarrow> signature list \<Rightarrow> emits_impl list" where
  "emits_of L p rn sigs = map (\<lambda>(typ, idents). EmitsImpl typ rn idents p) (return_groups L sigs)"

definition input_field :: "signature \<Rightarrow> ty" where
  "input_field s = tuple_type (extract_input_type_vector s)"

definition role_checks :: "lib \<Rightarrow> role_decl \<Rightarrow> check list" where
  "role_checks L role =
     (let rn = RoleName (rd_name role); sigs = rd_signatures role in
      concat (map (variant_checks L input_field) sigs) @ variant_names L sigs @
      map (Template \<circ> Q_Accepts) (accepts_of L rn sigs) @
      [Template (Q_Enum (enum_of L input_field (payload_path rn) sigs))] @
      concat (map (variant_checks L extract_return_type) sigs) @ variant_names L sigs @
      map (Template \<circ> Q_Emits) (emits_of L (return_payload_path rn) rn sigs) @
      [Template (Q_Enum (enum_of L extract_return_type (return_payload_path rn) sigs)),
       Template (Q_Trait (TraitDef (rd_attributes role) (rd_vis role) rn (map (fold_signature rn) sigs))),
       Template (Q_Role_Impl (RoleImpl rn (payload_path rn) (return_payload_path rn)))])"

definition role_of :: "lib \<Rightarrow> role_decl \<Rightarrow> role_output" where
  "role_of L role =
     (let rn = RoleName (rd_name role); sigs = rd_signatures role in
      \<lparr>ro_payload_enum = \<lparr>pe_definition = enum_of L input_field (payload_path rn) sigs, pe_impls = accepts_of L rn sigs\<rparr>,
       ro_return_payload_enum = \<lparr>rp_definition = enum_of L extract_return_type (return_payload_path rn) sigs,
         rp_impls = emits_of L (return_payload_path rn) rn sigs\<rparr>,
       ro_trait_definition = TraitDef (rd_attributes role) (rd_vis role) rn (map (fold_signature rn) sigs),
       ro_role_impl = RoleImpl rn (payload_path rn) (return_payload_path rn)\<rparr>)"

lemma variants_passing:
  "map_or_bail (create_variant L) sigs =
     passing L (concat (map (variant_checks L input_field) sigs)) (map (\<lambda>s. Variant (enum_variant_name L s) (input_field s)) sigs)"
  "map_or_bail (create_return_variant L) sigs =
     passing L (concat (map (variant_checks L extract_return_type) sigs))
       (map (\<lambda>s. Variant (enum_variant_name L s) (extract_return_type s)) sigs)"
  by (simp_all add: create_variant_def [abs_def] create_return_variant_def [abs_def] passing_simps
      variant_checks_def [abs_def] input_field_def)

lemma variant_names_passing:
  "map_or_bail (enum_variant_ident L) sigs = passing L (variant_names L sigs) (map (enum_variant_name L) sigs)"
  using map_or_bail_passing [of L "\<lambda>s. [Identifier (enum_variant_name L s)]" "enum_variant_name L" sigs]
  by (simp add: enum_variant_ident_passing [abs_def] variant_names_def concat_map_singleton)

lemma templates_passing:
  assumes "\<And>y e. template_error (q y) e = Compile_Error [(Span_Quote (q y), Quote_Error e (q y))]"
  shows "map_or_bail (\<lambda>x. fallible_quote L q (f x)) xs = passing L (map (Template \<circ> q) (map f xs)) (map f xs)"
  using map_or_bail_passing [of L "\<lambda>x. [Template (q (f x))]" f xs]
  by (simp add: fallible_quote_passing [where q = q, OF assms] comp_def concat_map_singleton)

lemma impls_passing:
  "create_from_impls L rn sigs =
     passing L (variant_names L sigs @ map (Template \<circ> Q_Accepts) (accepts_of L rn sigs)) (accepts_of L rn sigs)"
  "create_output_from_impls L p sigs rn =
     passing L (variant_names L sigs @ map (Template \<circ> Q_Emits) (emits_of L p rn sigs)) (emits_of L p rn sigs)"
  by (simp_all add: create_from_impls_def create_output_from_impls_def type_vector_to_accepts_def create_try_from_def
      case_prod_beta' templates_passing variant_names_passing bind_passing accepts_of_def emits_of_def)

lemma RoleOutput_new_checks:
  assumes "segments (rd_name role) \<noteq> []"
  shows "RoleOutput_new L role = passing L (role_checks L role) (role_of L role)"
  using assms
  by (simp add: RoleOutput_new_def PayloadEnum_new_def ReturnPayload_new_def Let_def variants_passing impls_passing
      passing_simps role_checks_def role_of_def enum_of_def)

section \<open>Performances\<close>

definition sending_checks :: "lib \<Rightarrow> role_name \<Rightarrow> function_item \<Rightarrow> check list" where
  "sending_checks L role f =
     [Identifier (enum_variant_name L (fun_sig f)), Template (Q_Sending (sending_of L role f))]"

text \<open>The call and the arm of a handler, with one name for every input after the receiver and the context.\<close>

definition call_template :: "lib \<Rightarrow> role_name \<Rightarrow> function_item \<Rightarrow> handler_call" where
  "call_template L role f =
     (let names = numbered (num_parameters (fun_sig f) - 1) in
      HandlerCall role (enum_variant_name L (fun_sig f)) (make_method_name L role (sig_ident (fun_sig f)))
        (if has_context_input (fun_sig f) then ''context'' # names else names) (sig_asyncness (fun_sig f)))"

definition arm_template :: "lib \<Rightarrow> role_name \<Rightarrow> function_item \<Rightarrow> dispatch_arm" where
  "arm_template L role f =
     DispatchArm (payload_path role) (enum_variant_name L (fun_sig f)) (numbered (num_parameters (fun_sig f) - 1))
       (call_template L role f)"

definition arm_checks :: "lib \<Rightarrow> role_name \<Rightarrow> function_item \<Rightarrow> check list" where
  "arm_checks L role f =
     [Identifier (enum_variant_name L (fun_sig f)), Identifier (make_method_name L role (sig_ident (fun_sig f))),
      Template (Q_Call (call_template L role f)), Template (Q_Arm (arm_template L role f))]"

definition shell_impl_of :: "lib \<Rightarrow> performance_decl \<Rightarrow> actor_name \<Rightarrow> perf_impl" where
  "shell_impl_of L perf actor = PerfImpl (pd_role_name perf) actor
     (map (sending_of L (pd_role_name perf)) (pd_handlers perf)) (sender_method_name L (pd_role_name perf))"

definition dispatch_impl_of :: "lib \<Rightarrow> performance_decl \<Rightarrow> data_name \<Rightarrow> dispatch_impl" where
  "dispatch_impl_of L perf data = DispatchImpl data (method_name L (pd_role_name perf)) (pd_role_name perf)
     (map (arm_template L (pd_role_name perf)) (pd_handlers perf))
     (map (rename_handler L (pd_role_name perf)) (pd_handlers perf))"

definition perf_checks :: "lib \<Rightarrow> performance_decl \<Rightarrow> actor_name \<Rightarrow> data_name \<Rightarrow> check list" where
  "perf_checks L perf actor data =
     (let role = pd_role_name perf; hs = pd_handlers perf in
      Identifier (method_name L role) #
      (if hs = [] then []
       else
         concat (map (sending_checks L role) hs) @
         [Identifier (queue_name L role), Template (Q_Perf (shell_impl_of L perf actor))] @
         concat (map (arm_checks L role) hs) @
         map (\<lambda>h. Identifier (make_method_name L role (sig_ident (fun_sig h)))) hs @
         [Template (Q_Dispatch (dispatch_impl_of L perf data))]))"

definition perf_of :: "lib \<Rightarrow> performance_decl \<Rightarrow> actor_name \<Rightarrow> data_name \<Rightarrow> perf_dispatch option" where
  "perf_of L perf actor data =
     (if pd_handlers perf = [] then None
      else Some \<lparr>pf_actor_impl = \<lparr>ap_imp = shell_impl_of L perf actor\<rparr>,
                 pf_dispatch_fn = \<lparr>df_fun = dispatch_impl_of L perf data\<rparr>\<rparr>)"

lemma sending_passing:
  "create_sending_method L (payload_path role) role f = passing L (sending_checks L role f) (sending_of L role f)"
  by (simp add: create_sending_method_def Let_def passing_simps sending_checks_def sending_of_def message_params_def
      extract_return_type_def)

lemma arm_passing:
  assumes "check_handler f = Inr ()"
  shows "dispatch_case L role (payload_path role) f = passing L (arm_checks L role f) (arm_template L role f)"
proof -
  have "num_parameters (fun_sig f) \<noteq> 0"
    using assms
    by (auto simp: check_handler_Inr num_parameters_def has_context_input_def split: list.splits fn_arg.splits)
  then show ?thesis
    by (simp add: dispatch_case_def payload_pattern_def method_call_pattern_def Let_def passing_simps arm_checks_def
        arm_template_def call_template_def numbered_def)
qed

lemma PerfDispatch_new_checks:
  assumes "\<forall>h\<in>set (pd_handlers perf). check_handler h = Inr ()"
  shows "PerfDispatch_new L perf actor data = passing L (perf_checks L perf actor data) (perf_of L perf actor data)"
proof -
  let ?role = "pd_role_name perf"
  have "map_or_bail (dispatch_case L ?role (payload_path ?role)) (pd_handlers perf) =
      map_or_bail (\<lambda>f. passing L (arm_checks L ?role f) (arm_template L ?role f)) (pd_handlers perf)"
    by (rule map_or_bail_cong) (use assms arm_passing in blast)
  moreover have "map_or_bail (create_sending_method L (payload_path ?role) ?role) (pd_handlers perf) =
      map_or_bail (\<lambda>f. passing L (sending_checks L ?role f) (sending_of L ?role f)) (pd_handlers perf)"
    by (rule map_or_bail_cong) (rule sending_passing)
  ultimately show ?thesis
    by (simp add: PerfDispatch_new_def ActorPerf_new_def DispatchFunction_new_def Let_def passing_simps
        perf_checks_def perf_of_def shell_impl_of_def dispatch_impl_of_def)
qed

section \<open>Actors\<close>

definition field_of :: "lib \<Rightarrow> performance_decl \<Rightarrow> shell_field" where
  "field_of L p = ShellField (queue_name L (pd_role_name p)) (SenderType (role_path (pd_role_name p)))"

definition push_of :: "lib \<Rightarrow> visibility \<Rightarrow> role_name \<Rightarrow> push_method" where
  "push_of L vis r = PushMethod vis (sender_method_name L r) r (queue_name L r)"

definition field_checks :: "lib \<Rightarrow> performance_decl \<Rightarrow> check list" where
  "field_checks L p =
     [Template (Q_Sender_Type (SenderType (role_path (pd_role_name p)))), Identifier (queue_name L (pd_role_name p)),
      Template (Q_Field (field_of L p))]"

definition push_checks :: "lib \<Rightarrow> visibility \<Rightarrow> role_name \<Rightarrow> check list" where
  "push_checks L vis r =
     [Identifier (queue_name L r), Identifier (queue_name L r), Template (Q_Push (push_of L vis r))]"

definition struct_of :: "lib \<Rightarrow> actor_decl \<Rightarrow> actor_struct" where
  "struct_of L a =
     \<lparr>ast_strukt = ActorStructDef (ad_attributes a) (ad_vis a) (ad_actor_name a) (map (field_of L) (ad_performances a)),
      ast_sender_methods = PushImpl (ad_actor_name a) (map (push_of L (ad_vis a) \<circ> pd_role_name) (ad_performances a)),
      ast_shell_trait = ShellTraitImpl (ad_actor_name a) (DataItem_name (ad_data_item a))
        (return_type_tokens (exit_return (ad_handlers a))) (return_type_tokens (panic_return (ad_handlers a))),
      ast_state_trait = StateTraitImpl (DataItem_name (ad_data_item a)) (ad_actor_name a)\<rparr>"

definition struct_checks :: "lib \<Rightarrow> actor_decl \<Rightarrow> check list" where
  "struct_checks L a =
     concat (map (field_checks L) (ad_performances a)) @ [Template (Q_Struct (ast_strukt (struct_of L a)))] @
     concat (map (push_checks L (ad_vis a) \<circ> pd_role_name) (ad_performances a)) @
     [Template (Q_Push_Impl (ast_sender_methods (struct_of L a))),
      Template (Q_Shell_Trait (ast_shell_trait (struct_of L a))),
      Template (Q_State_Trait (ast_state_trait (struct_of L a)))]"

lemma field_passing: "shell_field_from_performance L p = passing L (field_checks L p) (field_of L p)"
proof -
  have "(case reparse L (Q_Field f) of None \<Rightarrow> Inr f
      | Some err \<Rightarrow> Inl (Compile_Error [(Span_Quote (Q_Field f),
          Message (''Parse failure trying to create actor field: '' @ err @ '' - this is a bug, please file an issue''))]))
    = passing L [Template (Q_Field f)] f" for f
    by (simp add: passing_def split: option.splits)
  then show ?thesis
    by (simp add: shell_field_from_performance_def Let_def passing_simps field_checks_def field_of_def)
qed

lemma ActorStruct_new_checks: "ActorStruct_new L a = passing L (struct_checks L a) (struct_of L a)"
  by (simp add: ActorStruct_new_def create_inherent_impl_def create_meta_trait_impl_def Let_def field_passing [abs_def]
      passing_simps struct_checks_def struct_of_def push_checks_def [abs_def] push_of_def [abs_def] comp_def
      case_prod_beta')

definition start_of :: "lib \<Rightarrow> actor_decl \<Rightarrow> start_impl" where
  "start_of L a = StartImpl (ad_actor_name a) (DataItem_name (ad_data_item a)) (map (queue_of L) (ad_performances a))
     (ConstructorExpr (ad_actor_name a) (map (field_init_of L) (ad_performances a)))
     (map (branch_of L) (ad_performances a))
     (hook_of (panic_name (ad_handlers a))) (hook_of (exit_name (ad_handlers a)))"

definition start_checks :: "lib \<Rightarrow> actor_decl \<Rightarrow> check list" where
  "start_checks L a =
     (let ps = ad_performances a in
      map (\<lambda>p. Identifier (queue_name L (pd_role_name p))) ps @
      map (\<lambda>p. Template (Q_Queue (queue_of L p))) ps @
      concat (map (\<lambda>p. [Identifier (queue_name L (pd_role_name p)), Template (Q_Field_Init (field_init_of L p))]) ps) @
      concat (map (\<lambda>p. [Identifier (method_name L (pd_role_name p)), Template (Q_Branch (branch_of L p))]) ps) @
      [Template (Q_Constructor (ConstructorExpr (ad_actor_name a) (map (field_init_of L) ps))),
       Template (Q_Panic_Hook (hook_of (panic_name (ad_handlers a)))),
       Template (Q_Exit_Hook (hook_of (exit_name (ad_handlers a)))), Template (Q_Start (start_of L a))])"

lemma actor_field_passing:
  "actor_field L r i = passing L [Identifier (queue_name L r), Template (Q_Field_Init (FieldInit (queue_name L r) i))]
     (FieldInit (queue_name L r) i)"
proof -
  have "(case reparse L (Q_Field_Init f) of None \<Rightarrow> Inr f
      | Some err \<Rightarrow> Inl (Compile_Error [(Span_Quote (Q_Field_Init f), Message err)])) =
    passing L [Template (Q_Field_Init f)] f" for f
    by (simp add: passing_def split: option.splits)
  then show ?thesis by (simp add: actor_field_def passing_simps)
qed

lemma SpawningFunction_new_checks:
  assumes "ad_performances a \<noteq> []"
  shows "SpawningFunction_new L (ad_actor_name a) (DataItem_name (ad_data_item a)) (ad_performances a)
      (panic_name (ad_handlers a)) (exit_name (ad_handlers a)) =
    passing L (start_checks L a) \<lparr>sp_fun = start_of L a\<rparr>"
proof -
  let ?ps = "ad_performances a"
  have pairs: "zip (map f xs) (map g xs) = map (\<lambda>x. (f x, g x)) xs"
    for f :: "'a \<Rightarrow> 'b" and g :: "'a \<Rightarrow> 'c" and xs
    by (induction xs) simp_all
  have names: "map_or_bail (queue_ident L \<circ> pd_role_name) ?ps =
      passing L (map (\<lambda>p. Identifier (queue_name L (pd_role_name p))) ?ps) (map (\<lambda>p. queue_name L (pd_role_name p)) ?ps)"
    by (simp add: comp_def passing_simps concat_map_singleton)
  have mapped: "map_or_bail f (map g xs) = map_or_bail (\<lambda>x. f (g x)) xs"
    for f :: "'b \<Rightarrow> 'c res" and g :: "'a \<Rightarrow> 'b" and xs
    by (induction xs) (simp_all split: sum.splits)
  show ?thesis
    using assms
    by (simp add: SpawningFunction_new_def names Let_def pairs zip_map_self mapped actor_field_passing passing_simps
        start_checks_def start_of_def queue_of_def [abs_def] field_init_of_def [abs_def] branch_of_def [abs_def]
        hook_of_def concat_map_singleton comp_def case_prod_beta')
qed

definition actor_checks :: "lib \<Rightarrow> actor_decl \<Rightarrow> check list" where
  "actor_checks L a =
     struct_checks L a @ [Template (Q_Getter (GetterImpl (ad_actor_name a)))] @ start_checks L a @
     concat (map (role_checks L) (ad_roles a)) @
     concat (map (\<lambda>p. perf_checks L p (ad_actor_name a) (DataItem_name (ad_data_item a))) (ad_performances a))"

definition output_of :: "lib \<Rightarrow> actor_decl \<Rightarrow> actor_output" where
  "output_of L a =
     \<lparr>ao_data_item = ad_data_item a, ao_actor_struct = struct_of L a,
      ao_getter = \<lparr>sg_actor_getter = GetterImpl (ad_actor_name a)\<rparr>,
      ao_spawning_function = \<lparr>sp_fun = start_of L a\<rparr>, ao_handlers = ad_handlers a,
      ao_performances = List.map_filter (\<lambda>p. perf_of L p (ad_actor_name a) (DataItem_name (ad_data_item a))) (ad_performances a),
      ao_roles = map (role_of L) (ad_roles a), ao_misc = ad_misc a\<rparr>"

lemma ActorOutput_new_checks:
  assumes "ad_performances a \<noteq> []"
    and "\<forall>p\<in>set (ad_performances a). \<forall>h\<in>set (pd_handlers p). check_handler h = Inr ()"
    and "\<forall>r\<in>set (ad_roles a). segments (rd_name r) \<noteq> []"
  shows "ActorOutput_new L a = passing L (actor_checks L a) (output_of L a)"
proof -
  let ?data = "DataItem_name (ad_data_item a)"
  have roles: "map_or_bail (RoleOutput_new L) (ad_roles a) =
      passing L (concat (map (role_checks L) (ad_roles a))) (map (role_of L) (ad_roles a))"
    unfolding map_or_bail_passing [symmetric]
    by (rule map_or_bail_cong) (use assms(3) RoleOutput_new_checks in blast)
  have perfs: "map_or_bail (\<lambda>p. PerfDispatch_new L p (ad_actor_name a) ?data) (ad_performances a) =
      passing L (concat (map (\<lambda>p. perf_checks L p (ad_actor_name a) ?data) (ad_performances a)))
        (map (\<lambda>p. perf_of L p (ad_actor_name a) ?data) (ad_performances a))"
    unfolding map_or_bail_passing [symmetric]
    by (rule map_or_bail_cong) (use assms(2) PerfDispatch_new_checks in blast)
  have flat: "List.map_filter (\<lambda>p. p) (map f xs) = List.map_filter f xs" for f :: "'a \<Rightarrow> 'b option" and xs
    by (induction xs) (simp_all add: List.map_filter_simps split: option.splits)
  show ?thesis
    using assms(1)
    by (simp add: ActorOutput_new_def SelfGetter_new_def Let_def ActorStruct_new_checks
        SpawningFunction_new_checks [OF assms(1)] roles perfs flat passing_simps actor_checks_def output_of_def)
qed

section \<open>When every check passes\<close>

text \<open>
  A parser that takes every template leaves the identifiers: those made of the names of the roles and of
  their methods.
\<close>

definition perf_names_valid :: "lib \<Rightarrow> performance_decl \<Rightarrow> bool" where
  "perf_names_valid L p \<longleftrightarrow>
     valid_ident L (queue_name L (pd_role_name p)) \<and> valid_ident L (method_name L (pd_role_name p)) \<and>
     (\<forall>h\<in>set (pd_handlers p). valid_ident L (enum_variant_name L (fun_sig h)) \<and>
        valid_ident L (make_method_name L (pd_role_name p) (sig_ident (fun_sig h))))"

definition role_names_valid :: "lib \<Rightarrow> role_decl \<Rightarrow> bool" where
  "role_names_valid L r \<longleftrightarrow> (\<forall>s\<in>set (rd_signatures r). valid_ident L (enum_variant_name L s))"

lemma role_checks_pass:
  "(\<And>q. reparse L q = None) \<Longrightarrow> role_names_valid L r \<Longrightarrow> first_failure L (role_checks L r) = None"
  by (auto simp: role_checks_def Let_def first_failure_None_iff variant_checks_def variant_names_def role_names_valid_def)

lemma perf_checks_pass:
  "(\<And>q. reparse L q = None) \<Longrightarrow> perf_names_valid L p \<Longrightarrow> first_failure L (perf_checks L p actor data) = None"
  by (auto simp: perf_checks_def Let_def first_failure_None_iff sending_checks_def arm_checks_def perf_names_valid_def)

lemma actor_checks_pass:
  assumes "\<And>q. reparse L q = None" and "\<forall>p\<in>set (ad_performances a). perf_names_valid L p"
    and "\<forall>r\<in>set (ad_roles a). role_names_valid L r"
  shows "first_failure L (actor_checks L a) = None"
proof -
  have "\<forall>c\<in>set (struct_checks L a) \<union> set (start_checks L a). check_failure L c = None"
    using assms(1,2)
    by (auto simp: struct_checks_def start_checks_def Let_def field_checks_def push_checks_def perf_names_valid_def)
  moreover have "\<forall>r\<in>set (ad_roles a). \<forall>c\<in>set (role_checks L r). check_failure L c = None"
    using role_checks_pass [OF assms(1)] assms(3) by (auto simp: first_failure_None_iff)
  moreover have "\<forall>p\<in>set (ad_performances a). \<forall>c\<in>set (perf_checks L p actor data). check_failure L c = None" for actor data
    using perf_checks_pass [OF assms(1)] assms(2) by (auto simp: first_failure_None_iff)
  ultimately show ?thesis
    using assms(1) by (auto simp: actor_checks_def first_failure_None_iff)
qed

end
