(* ===== verification/Samples.thy ===== *)
theory Samples
  imports Codegen_Semantics Expansion_Checks
begin

text \<open>
  Concrete inputs for the witnesses: a third-party library \<open>sample_lib\<close> (simple case
  conversions, a parser that accepts every template, ASCII identifiers, hash maps read in insertion
  order) and the actors of the repository's own tests. Nothing here models code of the repository.
\<close>

section \<open>Case conversions\<close>

definition is_upper :: "char \<Rightarrow> bool" where
  "is_upper c \<longleftrightarrow> 65 \<le> (of_char c :: nat) \<and> (of_char c :: nat) \<le> 90"

definition is_lower :: "char \<Rightarrow> bool" where
  "is_lower c \<longleftrightarrow> 97 \<le> (of_char c :: nat) \<and> (of_char c :: nat) \<le> 122"

definition char_to_upper :: "char \<Rightarrow> char" where
  "char_to_upper c = (if is_lower c then char_of ((of_char c :: nat) - 32) else c)"

definition char_to_lower :: "char \<Rightarrow> char" where
  "char_to_lower c = (if is_upper c then char_of ((of_char c :: nat) + 32) else c)"

fun camel_from :: "bool \<Rightarrow> string \<Rightarrow> string" where
  "camel_from up [] = []"
| "camel_from up (c # cs) =
     (if c = CHR ''_'' then camel_from True cs
      else (if up then char_to_upper c else c) # camel_from False cs)"

fun snake_from :: "bool \<Rightarrow> string \<Rightarrow> string" where
  "snake_from start [] = []"
| "snake_from start (c # cs) =
     (if is_upper c then (if start then [] else ''_'') @ char_to_lower c # snake_from False cs
      else c # snake_from (c = CHR ''_'') cs)"

text \<open>ASCII identifiers.\<close>

definition is_letter :: "char \<Rightarrow> bool" where
  "is_letter c \<longleftrightarrow> is_upper c \<or> is_lower c \<or> c = CHR ''_''"

definition ident_text :: "string \<Rightarrow> bool" where
  "ident_text s = (case s of [] \<Rightarrow> False
     | c # cs \<Rightarrow> is_letter c \<and>
         list_all (\<lambda>c. is_letter c \<or> 48 \<le> (of_char c :: nat) \<and> (of_char c :: nat) \<le> 57) cs)"

definition sample_lib :: lib where
  "sample_lib =
     \<lparr>to_snake = snake_from True, to_upper_camel = camel_from True,
      parse_performance_attribute = (\<lambda>m. case m of Meta_List _ t \<Rightarrow> (if t = ''canonical'' then Some True else None) | _ \<Rightarrow> None),
      reparse = (\<lambda>q. None), valid_ident = ident_text, order_inputs = remdups, order_returns = remdups\<rparr>"

lemma sample_lib_fields [simp]:
  "to_snake sample_lib = snake_from True" "to_upper_camel sample_lib = camel_from True"
  "reparse sample_lib q = None" "valid_ident sample_lib = ident_text" "order_inputs sample_lib = remdups" "order_returns sample_lib = remdups"
  by (simp_all add: sample_lib_def)

lemma sample_lib_orders: "hash_orders sample_lib"
  by (simp add: hash_orders_def key_order_remdups)

section \<open>The role and the actor of tests/successes/returns.rs\<close>

definition ident_type :: "string \<Rightarrow> ty" where
  "ident_type s = Type_Path None (path_from_ident s)"

definition attr_of :: "string \<Rightarrow> tokens \<Rightarrow> attribute" where
  "attr_of s t =
     Attribute AttrStyle_Outer
       (if t = '''' then Meta_Path (Path False [PathSegment ''shakespeare'' [], PathSegment s []])
        else Meta_List (Path False [PathSegment ''shakespeare'' [], PathSegment s []]) t)"

definition param :: "string \<Rightarrow> ty \<Rightarrow> fn_arg" where
  "param x t = FnArg_Typed (PatType [] (Pat_Ident x) t)"

definition method_sig :: "bool \<Rightarrow> string \<Rightarrow> string \<Rightarrow> fn_arg list \<Rightarrow> return_type \<Rightarrow> signature" where
  "method_sig async name self params ret =
     \<lparr>sig_asyncness = async, sig_ident = name, sig_type_params = [],
      sig_inputs = FnArg_Receiver (Receiver self) # params, sig_output = ret, sig_rest = ''''\<rparr>"

definition fun_item :: "signature \<Rightarrow> tokens \<Rightarrow> function_item" where
  "fun_item s b = \<lparr>fun_attrs = [], fun_sig = s, fun_block = b\<rparr>"

definition begin_fn :: function_item where
  "begin_fn = fun_item (method_sig False ''begin'' ''&mut self'' [] ReturnType_Default) ''{ self.active = true; }''"

definition speak_fn :: function_item where
  "speak_fn = fun_item
     (method_sig False ''speak'' ''&self'' [param ''val'' (ident_type ''usize'')] (ReturnType_Type (ident_type ''usize'')))
     ''{ if self.active { 2 * val } else { 0 } }''"

text \<open>A handler with a context, two parameters and \<open>async\<close>.\<close>

definition send_fn :: function_item where
  "send_fn = fun_item
     (method_sig True ''send_msg'' ''&mut self''
       [param ''ctx'' (Type_Reference None True (ident_type ''Context'')),
        param ''sender_id'' (ident_type ''usize''), param ''msg'' (ident_type ''String'')] ReturnType_Default)
     ''{ }''"

definition basic_role :: path where
  "basic_role = path_from_ident ''BasicRole''"

definition basic_impl :: item_impl where
  "basic_impl =
     \<lparr>imp_attrs = [attr_of ''performance'' ''canonical''], imp_trait = Some basic_role,
      imp_self_ty = ident_type ''ActorState'',
      imp_items = [ImplItem_Fn begin_fn, ImplItem_Fn speak_fn, ImplItem_Fn send_fn]\<rparr>"

definition basic_perf :: performance_decl where
  "basic_perf = \<lparr>pd_role_name = RoleName basic_role, pd_handlers = [begin_fn, speak_fn, send_fn]\<rparr>"

definition basic_role_decl :: role_decl where
  "basic_role_decl = RoleDecl_new basic_role [] Visibility_Public (map fun_sig [begin_fn, speak_fn, send_fn])"

definition actor_state :: item_struct where
  "actor_state = ItemStruct ''ActorState'' ''{ active: bool }''"

definition stop_fn :: item_fn where
  "stop_fn =
     \<lparr>fn_attrs = [], fn_sig = \<lparr>sig_asyncness = False, sig_ident = ''stop'', sig_type_params = [],
        sig_inputs = [FnArg_Receiver (Receiver ''self'')], sig_output = ReturnType_Type (ident_type ''bool''), sig_rest = ''''\<rparr>,
      fn_block = ''{ self.active }''\<rparr>"

definition basic_module :: item_mod where
  "basic_module =
     ItemMod [attr_of ''actor'' ''''] (Visibility_Other '''') False ''Actor''
       (Some [Item_Other ''use std::sync::Arc;'', Item_Struct actor_state, Item_Impl basic_impl, Item_Fn stop_fn])"

definition basic_actor_name :: actor_name where
  "basic_actor_name = ActorName (TypePath None (path_from_ident ''Actor''))"

definition basic_data_name :: data_name where
  "basic_data_name = DataItem_name (Struct actor_state)"

lemmas sample_defs = basic_module_def basic_impl_def basic_perf_def basic_role_decl_def basic_role_def
  begin_fn_def speak_fn_def send_fn_def stop_fn_def actor_state_def fun_item_def method_sig_def
  param_def attr_of_def ident_type_def

text \<open>The performance compiles.\<close>

lemma basic_receivers:
  "receiver_first (fun_sig begin_fn)" "receiver_first (fun_sig speak_fn)" "receiver_first (fun_sig send_fn)"
  by (simp_all add: receiver_first_def sample_defs)

lemma basic_message_params:
  "message_params (fun_sig begin_fn) = []"
  "message_params (fun_sig speak_fn) = [PatType [] (Pat_Ident ''val'') (ident_type ''usize'')]"
  "message_params (fun_sig send_fn) = [PatType [] (Pat_Ident ''sender_id'') (ident_type ''usize''),
     PatType [] (Pat_Ident ''msg'') (ident_type ''String'')]"
  by (simp_all add: message_params_def remove_context_param_def has_context_input_def sample_defs)

lemma basic_variants:
  "enum_variant_name sample_lib (fun_sig begin_fn) = ''Begin''"
  "enum_variant_name sample_lib (fun_sig speak_fn) = ''Speak''"
  "enum_variant_name sample_lib (fun_sig send_fn) = ''SendMsg''"
  by code_simp+

lemma basic_methods:
  "make_method_name sample_lib (RoleName basic_role) ''begin'' = ''basic_role_begin''"
  "make_method_name sample_lib (RoleName basic_role) ''speak'' = ''basic_role_speak''"
  "make_method_name sample_lib (RoleName basic_role) ''send_msg'' = ''basic_role_send_msg''"
  by code_simp+

lemma basic_idents:
  "sig_ident (fun_sig begin_fn) = ''begin''" "sig_ident (fun_sig speak_fn) = ''speak''"
  "sig_ident (fun_sig send_fn) = ''send_msg''"
  by (simp_all add: sample_defs)

lemma basic_handlers_compile:
  "handlers_compile sample_lib (RoleName basic_role) [begin_fn, speak_fn, send_fn]"
  by (auto simp: handlers_compile_def basic_receivers basic_message_params basic_variants basic_methods
      basic_idents intro: exI [of _ "[]"] exI [of _ "[''val'']"] exI [of _ "[''sender_id'', ''msg'']"])

lemma basic_names_valid: "perf_names_valid sample_lib basic_perf" "role_names_valid sample_lib basic_role_decl"
  by (simp_all add: perf_names_valid_def role_names_valid_def basic_perf_def basic_role_decl_def RoleDecl_new_def
      basic_variants basic_methods basic_idents) code_simp+

lemma basic_handlers_checked: "\<forall>h\<in>set (pd_handlers basic_perf). check_handler h = Inr ()"
  by (simp add: basic_perf_def check_handler_def sample_defs)

lemma basic_perf_dispatch:
  "\<exists>out. PerfDispatch_new sample_lib basic_perf basic_actor_name basic_data_name = Inr (Some out)"
proof -
  have "PerfDispatch_new sample_lib basic_perf basic_actor_name basic_data_name =
      Inr (perf_of sample_lib basic_perf basic_actor_name basic_data_name)"
    by (simp add: PerfDispatch_new_checks [OF basic_handlers_checked] passing_total perf_checks_pass basic_names_valid)
  then show ?thesis by (simp add: perf_of_def basic_perf_def)
qed

text \<open>The role and the actor of the samples expand.\<close>

lemma sample_role_output:
  assumes "segments (rd_name role) \<noteq> []" and "role_names_valid sample_lib role"
  shows "\<exists>out. RoleOutput_new sample_lib role = Inr out"
  by (simp add: RoleOutput_new_checks [OF assms(1)] passing_total role_checks_pass assms(2))

lemma basic_role_output: "\<exists>out. RoleOutput_new sample_lib basic_role_decl = Inr out"
  by (rule sample_role_output)
    (simp_all add: basic_names_valid, simp add: basic_role_decl_def RoleDecl_new_def basic_role_def path_from_ident_def)

lemma basic_read_performance:
  "read_performance sample_lib basic_impl = Inr (Some (basic_perf, Some basic_role_decl))"
  by code_simp

end
