(* ===== verification/Macro_Properties.thy ===== *)
theory Macro_Properties
  imports Samples
begin

text \<open>
  What the macros guarantee: calls arrive where they were sent, return values come back out,
  the conversions a role offers are the ones its methods imply, the generated names fit
  together, and malformed input is reported.
\<close>

section \<open>Lemmas the properties share\<close>

lemma shell_call_payload:
  assumes "PerfDispatch_new L perf actor data = Inr (Some out)"
    and "handlers_compile L (pd_role_name perf) (pd_handlers perf)"
    and "h \<in> set (pd_handlers perf)"
    and "length args = length (message_params (fun_sig h))"
  shows "run_shell_call (ap_imp (pf_actor_impl out)) (sig_ident (fun_sig h)) args =
    Some (Payload (payload_path (pd_role_name perf)) (enum_variant_name L (fun_sig h)) (pack_tuple args))"
proof -
  let ?role = "pd_role_name perf"
  have rf: "\<forall>h\<in>set (pd_handlers perf). receiver_first (fun_sig h)"
    using assms(2) by (simp add: handlers_compile_def)
  obtain xs where xs: "map pt_pat (message_params (fun_sig h)) = map Pat_Ident xs" "distinct xs"
    using assms(2,3) by (auto simp: handlers_compile_def)
  have "length args = length xs"
    using arg_cong [OF xs(1), of length] assms(4) by simp
  moreover have "List.find (\<lambda>s. sm_ident s = sig_ident (fun_sig h))
      (map (sending_of L ?role) (pd_handlers perf)) = Some (sending_of L ?role h)"
    using find_distinct_key_eq [of "\<lambda>h. sig_ident (fun_sig h)", OF _ assms(3) refl] assms(2)
    by (simp add: find_map handlers_compile_def sending_of_def)
  ultimately show ?thesis
    using run_sending_of [OF xs] PerfDispatch_new_Inr(2) [OF assms(1) rf] by (simp add: run_shell_call_def)
qed

lemma shell_call_then_dispatch:
  assumes "PerfDispatch_new L perf actor data = Inr (Some out)"
    and "handlers_compile L (pd_role_name perf) (pd_handlers perf)"
    and "h \<in> set (pd_handlers perf)"
    and "length args = length (message_params (fun_sig h))"
  shows "Option.bind (run_shell_call (ap_imp (pf_actor_impl out)) (sig_ident (fun_sig h)) args)
      (run_dispatch invoke (df_fun (pf_dispatch_fn out))) =
    Some (enum_variant_name L (fun_sig h),
      invoke (rename_handler L (pd_role_name perf) h) (handler_args h args))"
proof -
  have "\<forall>h\<in>set (pd_handlers perf). receiver_first (fun_sig h)"
    using assms(2) by (simp add: handlers_compile_def)
  then show ?thesis
    using shell_call_payload [OF assms] run_dispatch_arm [OF assms(2,3,4)] PerfDispatch_new_Inr(3) [OF assms(1)]
    by simp
qed

lemma emits_for_method:
  assumes "RoleOutput_new L role = Inr out" and "hash_orders L" and "s \<in> set (rd_signatures role)"
  shows "\<exists>e. filter (\<lambda>e. em_ty e = extract_return_type s) (rp_impls (ro_return_payload_enum out)) = [e] \<and>
    (\<forall>v. run_from_return e (enum_variant_name L s, v) = Some v)"
proof -
  let ?rn = "RoleName (rd_name role)"
  let ?impl = "\<lambda>(typ, idents). EmitsImpl typ ?rn idents (return_payload_path ?rn)"
  let ?gs = "return_groups L (rd_signatures role)"
  let ?t = "extract_return_type s"
  let ?ids = "map (enum_variant_name L) (filter (\<lambda>u. extract_return_type u = ?t) (rd_signatures role))"
  have impls: "rp_impls (ro_return_payload_enum out) = map ?impl ?gs"
    using RoleOutput_new_Inr(5) [OF assms(1)] .
  have mem: "(?t, ?ids) \<in> set ?gs"
    using assms(3) by (auto simp: return_groups_iff [OF assms(2)])
  have "filter (\<lambda>g. fst g = ?t) ?gs = [(?t, ?ids)]"
    using distinct_return_groups [OF assms(2)] mem fst_conv
    by (rule filter_key_single)
  then have "filter (\<lambda>e. em_ty e = ?t) (map ?impl ?gs) = [?impl (?t, ?ids)]"
    by (simp add: filter_map comp_def case_prod_beta)
  then show ?thesis
    using assms(3) by (auto simp: impls run_from_return_def)
qed

lemma accepts_impls_set:
  assumes "RoleOutput_new L role = Inr out" and "hash_orders L"
  shows "set (pe_impls (ro_payload_enum out)) =
    {AcceptsImpl (tuple_type (extract_input_type_vector s)) (RoleName (rd_name role)) (enum_variant_name L s) | s.
       extract_input_type_vector s \<noteq> [] \<and>
       filter (\<lambda>u. extract_input_type_vector u = extract_input_type_vector s) (rd_signatures role) = [s]}"
    (is "_ = ?rhs")
proof -
  let ?vec = extract_input_type_vector
  let ?sigs = "rd_signatures role"
  let ?impl = "\<lambda>(types, ident, n :: nat). AcceptsImpl (tuple_type types) (RoleName (rd_name role)) ident"
  have "set (pe_impls (ro_payload_enum out)) =
      {?impl (types, i, 1) | types i. types \<noteq> [] \<and> (types, i, 1) \<in> set (input_groups L ?sigs)}"
    using RoleOutput_new_Inr(3) [OF assms(1)] by (force simp: image_iff)
  also have "\<dots> = {?impl (types, enum_variant_name L s, 1) | types s.
      types \<noteq> [] \<and> filter (\<lambda>u. ?vec u = types) ?sigs = [s]}"
    unfolding input_groups_single_iff [OF assms(2)] by blast
  also have "\<dots> = ?rhs"
    by (auto dest: filter_eq_singleD)
  finally show ?thesis .
qed

lemma accepts_implI:
  assumes "RoleOutput_new L role = Inr out" and "hash_orders L"
    and "filter (\<lambda>u. extract_input_type_vector u = extract_input_type_vector s) (rd_signatures role) = [s]"
    and "extract_input_type_vector s \<noteq> []"
  shows "AcceptsImpl (tuple_type (extract_input_type_vector s)) (RoleName (rd_name role)) (enum_variant_name L s)
    \<in> set (pe_impls (ro_payload_enum out))"
  using assms(3,4) unfolding accepts_impls_set [OF assms(1,2)] by blast

text \<open>What a canonical performance's role is made of.\<close>

lemma read_performance_canonical:
  assumes "read_performance L imp = Inr (Some (perf, Some rd))"
  shows "\<exists>p. imp_trait imp = Some p \<and> segments p \<noteq> [] \<and> pd_role_name perf = RoleName p \<and>
    rd_name rd = p \<and> rd_signatures rd = map (\<lambda>h. remove_context_param (fun_sig h)) (pd_handlers perf) \<and>
    (\<forall>h\<in>set (pd_handlers perf). check_handler h = Inr ())"
  using assms
  by (auto simp: read_performance_def RoleDecl_new_def res_simps Let_def split: option.splits if_splits)

section \<open>A call reaches its handler\<close>

text \<open>
  C2. For every method of a performance, calling the shell's method and dispatching the
  message it packs calls the renamed handler of that very method, with the context first
  when the handler declares one and then the caller's arguments in order, and the value is
  wrapped in that method's variant.
\<close>

theorem call_reaches_handler:
  assumes "PerfDispatch_new L perf actor data = Inr (Some out)"
    and "handlers_compile L (pd_role_name perf) (pd_handlers perf)"
    and "h \<in> set (pd_handlers perf)"
    and "length args = length (message_params (fun_sig h))"
  shows "Option.bind (run_shell_call (ap_imp (pf_actor_impl out)) (sig_ident (fun_sig h)) args)
      (run_dispatch invoke (df_fun (pf_dispatch_fn out))) =
    Some (enum_variant_name L (fun_sig h),
      invoke (rename_handler L (pd_role_name perf) h) (handler_args h args))"
  using assms by (rule shell_call_then_dispatch)

theorem call_reaches_handler_witness:
  "\<exists>out :: perf_dispatch. Option.bind (run_shell_call (ap_imp (pf_actor_impl out)) ''send_msg'' [Val (7::nat), Val 9])
      (run_dispatch (\<lambda>h args. (sig_ident (fun_sig h), args)) (df_fun (pf_dispatch_fn out))) =
    Some (''SendMsg'', ''basic_role_send_msg'', [Context_Arg, Value_Arg (Val 7), Value_Arg (Val 9)])"
proof -
  obtain out where out: "PerfDispatch_new sample_lib basic_perf basic_actor_name basic_data_name = Inr (Some out)"
    using basic_perf_dispatch by blast
  have "Option.bind (run_shell_call (ap_imp (pf_actor_impl out)) (sig_ident (fun_sig send_fn)) [Val (7::nat), Val 9])
      (run_dispatch (\<lambda>h args. (sig_ident (fun_sig h), args)) (df_fun (pf_dispatch_fn out))) =
    Some (enum_variant_name sample_lib (fun_sig send_fn),
      sig_ident (fun_sig (rename_handler sample_lib (RoleName basic_role) send_fn)),
      handler_args send_fn [Val 7, Val 9])"
    using call_reaches_handler [OF out, of send_fn "[Val (7::nat), Val 9]"] basic_handlers_compile
    by (simp add: basic_perf_def basic_message_params)
  moreover have "has_context_input (fun_sig send_fn)"
    by (simp add: has_context_input_def sample_defs)
  ultimately show ?thesis
    by (auto simp: basic_variants basic_idents basic_methods rename_handler_def handler_args_def)
qed

section \<open>Return values come back out\<close>

text \<open>
  For every method of a role, the one \<open>Emits\<close> implementation for the method's return type
  takes the value out of the method's variant; its \<open>unimplemented!\<close> branch is not reached.
\<close>

theorem emits_total:
  assumes "RoleOutput_new L role = Inr out" and "hash_orders L" and "s \<in> set (rd_signatures role)"
  shows "\<exists>e. filter (\<lambda>e. em_ty e = extract_return_type s) (rp_impls (ro_return_payload_enum out)) = [e] \<and>
    (\<forall>v. run_from_return e (enum_variant_name L s, v) = Some v)"
  using assms by (rule emits_for_method)

theorem emits_total_witness:
  "\<exists>out e. RoleOutput_new sample_lib basic_role_decl = Inr out \<and>
    filter (\<lambda>e. em_ty e = ident_type ''usize'') (rp_impls (ro_return_payload_enum out)) = [e] \<and>
    run_from_return e (''Speak'', 80::nat) = Some 80"
proof -
  obtain out where out: "RoleOutput_new sample_lib basic_role_decl = Inr out"
    using basic_role_output by blast
  have mem: "fun_sig speak_fn \<in> set (rd_signatures basic_role_decl)"
    by (simp add: basic_role_decl_def RoleDecl_new_def remove_context_param_def has_context_input_def
        sample_defs)
  have "extract_return_type (fun_sig speak_fn) = ident_type ''usize''"
    by (simp add: extract_return_type_def sample_defs)
  moreover obtain e where "filter (\<lambda>e. em_ty e = extract_return_type (fun_sig speak_fn))
      (rp_impls (ro_return_payload_enum out)) = [e]"
    "\<And>v :: nat. run_from_return e (enum_variant_name sample_lib (fun_sig speak_fn), v) = Some v"
    using emits_total [OF out sample_lib_orders mem] by blast
  ultimately show ?thesis using out by (auto simp: basic_variants)
qed

section \<open>Messages from plain values\<close>

text \<open>
  C25. A role accepts a value of a type as a message exactly when one method, and no other, has
  the parameter types the type stands for, at least one; the implementation is for that
  method's variant.
\<close>

theorem accepts_exactly_single_methods:
  assumes "RoleOutput_new L role = Inr out" and "hash_orders L"
  shows "set (pe_impls (ro_payload_enum out)) =
    {AcceptsImpl (tuple_type (extract_input_type_vector s)) (RoleName (rd_name role)) (enum_variant_name L s) | s.
       extract_input_type_vector s \<noteq> [] \<and>
       filter (\<lambda>u. extract_input_type_vector u = extract_input_type_vector s) (rd_signatures role) = [s]}"
  using assms by (rule accepts_impls_set)

theorem accepts_exactly_single_methods_witness:
  "\<exists>out. RoleOutput_new sample_lib basic_role_decl = Inr out \<and>
    set (pe_impls (ro_payload_enum out)) =
      {AcceptsImpl (tuple_type (extract_input_type_vector s)) (RoleName basic_role) (enum_variant_name sample_lib s) | s.
        extract_input_type_vector s \<noteq> [] \<and>
        filter (\<lambda>u. extract_input_type_vector u = extract_input_type_vector s) (rd_signatures basic_role_decl) = [s]}"
proof -
  obtain out where out: "RoleOutput_new sample_lib basic_role_decl = Inr out"
    using basic_role_output by blast
  have "rd_name basic_role_decl = basic_role"
    by (simp add: basic_role_decl_def RoleDecl_new_def)
  with out accepts_exactly_single_methods [OF out sample_lib_orders] show ?thesis by auto
qed

lemma input_vector_message_params:
  "extract_input_type_vector (remove_context_param s) = map pt_ty (message_params s)"
  by (simp add: extract_input_type_vector_def message_params_def)

lemma filter_map_eq_single:
  assumes "filter P (map f xs) = [y]"
  obtains x where "filter (\<lambda>x. P (f x)) xs = [x]" and "f x = y"
proof -
  have "map f (filter (\<lambda>x. P (f x)) xs) = [y]" using assms by (simp add: filter_map comp_def)
  with that show thesis by (auto simp: map_eq_Cons_conv)
qed

text \<open>
  C28. A value that is accepted becomes the very message one method would send: for every \<open>Accepts\<close>
  implementation the role of a canonical performance gets, exactly one of its handlers takes the parameters
  the implementation's type is the tuple of, and \<open>into_payload\<close> on the tuple of any arguments is what the shell's
  method of that handler packs.
\<close>

theorem accepts_sends_method_message:
  fixes perf :: performance_decl
  assumes "read_performance L imp = Inr (Some (perf, Some rd))"
    and "PerfDispatch_new L perf actor data = Inr (Some pd)"
    and "RoleOutput_new L rd = Inr ro" and "hash_orders L"
    and "handlers_compile L (pd_role_name perf) (pd_handlers perf)"
    and "a \<in> set (pe_impls (ro_payload_enum ro))"
  shows "\<exists>h types. types \<noteq> [] \<and> acc_ty a = tuple_type types \<and>
    filter (\<lambda>h. map pt_ty (message_params (fun_sig h)) = types) (pd_handlers perf) = [h] \<and>
    (\<forall>args :: 'v val list. length args = length types \<longrightarrow>
      run_shell_call (ap_imp (pf_actor_impl pd)) (sig_ident (fun_sig h)) args =
        Some (run_into_payload a (ri_payload (ro_role_impl ro)) (pack_tuple args)))"
proof -
  obtain p where p: "pd_role_name perf = RoleName p" "rd_name rd = p"
    and sigs: "rd_signatures rd = map (\<lambda>h. remove_context_param (fun_sig h)) (pd_handlers perf)"
    using read_performance_canonical [OF assms(1)] by blast
  obtain s where a: "a = AcceptsImpl (tuple_type (extract_input_type_vector s)) (RoleName (rd_name rd)) (enum_variant_name L s)"
    and ne: "extract_input_type_vector s \<noteq> []"
    and single: "filter (\<lambda>u. extract_input_type_vector u = extract_input_type_vector s) (rd_signatures rd) = [s]"
    using assms(6) unfolding accepts_impls_set [OF assms(3,4)] by blast
  obtain h where only: "filter (\<lambda>h. map pt_ty (message_params (fun_sig h)) = extract_input_type_vector s) (pd_handlers perf) = [h]"
    and s: "remove_context_param (fun_sig h) = s"
    by (rule filter_map_eq_single [OF single [unfolded sigs], unfolded input_vector_message_params])
  have h: "h \<in> set (pd_handlers perf)" "map pt_ty (message_params (fun_sig h)) = extract_input_type_vector s"
    using arg_cong [OF only, of set] by auto
  have variant: "acc_variant a = enum_variant_name L (fun_sig h)"
    by (simp add: a s [symmetric])
  have payload: "ri_payload (ro_role_impl ro) = payload_path (pd_role_name perf)"
    using RoleOutput_new_Inr(7) [OF assms(3)] p by simp
  have "run_shell_call (ap_imp (pf_actor_impl pd)) (sig_ident (fun_sig h)) args =
      Some (run_into_payload a (ri_payload (ro_role_impl ro)) (pack_tuple args))"
    if "length args = length (extract_input_type_vector s)" for args :: "'v val list"
  proof -
    have "length args = length (message_params (fun_sig h))"
      using that arg_cong [OF h(2), of length] by simp
    from shell_call_payload [OF assms(2,5) h(1) this] show ?thesis
      by (simp add: run_into_payload_def variant payload)
  qed
  with a ne only show ?thesis by (intro exI [of _ h] exI [of _ "extract_input_type_vector s"]) simp
qed

theorem accepts_sends_method_message_witness:
  "\<exists>pd ro. PerfDispatch_new sample_lib basic_perf basic_actor_name basic_data_name = Inr (Some pd) \<and>
    RoleOutput_new sample_lib basic_role_decl = Inr ro \<and>
    (let a = AcceptsImpl (Type_Paren (ident_type ''usize'')) (RoleName basic_role) ''Speak'' in
      a \<in> set (pe_impls (ro_payload_enum ro)) \<and>
      run_shell_call (ap_imp (pf_actor_impl pd)) ''speak'' [Val (40::nat)] =
        Some (run_into_payload a (ri_payload (ro_role_impl ro)) (Val 40)))"
proof -
  obtain pd where pd: "PerfDispatch_new sample_lib basic_perf basic_actor_name basic_data_name = Inr (Some pd)"
    using basic_perf_dispatch by blast
  obtain ro where ro: "RoleOutput_new sample_lib basic_role_decl = Inr ro"
    using basic_role_output by blast
  let ?a = "AcceptsImpl (Type_Paren (ident_type ''usize'')) (RoleName basic_role) ''Speak''"
  let ?s = "fun_sig speak_fn"
  have vec: "extract_input_type_vector ?s = [ident_type ''usize'']"
    by (simp add: extract_input_type_vector_def sample_defs)
  have single: "filter (\<lambda>u. extract_input_type_vector u = extract_input_type_vector ?s)
      (rd_signatures basic_role_decl) = [?s]"
    by (simp add: basic_role_decl_def RoleDecl_new_def remove_context_param_def has_context_input_def
        extract_input_type_vector_def sample_defs path_from_ident_def)
  have "?a = AcceptsImpl (tuple_type (extract_input_type_vector ?s)) (RoleName (rd_name basic_role_decl))
      (enum_variant_name sample_lib ?s)"
    by (simp add: vec basic_variants basic_role_decl_def RoleDecl_new_def)
  then have a: "?a \<in> set (pe_impls (ro_payload_enum ro))"
    unfolding accepts_impls_set [OF ro sample_lib_orders]
    using single vec by (intro CollectI exI [of _ ?s] conjI) auto
  have compiles: "handlers_compile sample_lib (pd_role_name basic_perf) (pd_handlers basic_perf)"
    using basic_handlers_compile by (simp add: basic_perf_def)
  obtain h types where "acc_ty ?a = tuple_type types"
    and only: "filter (\<lambda>h. map pt_ty (message_params (fun_sig h)) = types) (pd_handlers basic_perf) = [h]"
    and call: "\<forall>args :: nat val list. length args = length types \<longrightarrow>
      run_shell_call (ap_imp (pf_actor_impl pd)) (sig_ident (fun_sig h)) args =
        Some (run_into_payload ?a (ri_payload (ro_role_impl ro)) (pack_tuple args))"
    using accepts_sends_method_message [OF basic_read_performance pd ro sample_lib_orders compiles a] by blast
  then have types: "types = [ident_type ''usize'']"
    by (cases types rule: tuple_type.cases) auto
  with only have "h = speak_fn"
    by (simp add: basic_perf_def basic_message_params)
  with call [rule_format, of "[Val 40]"] have "run_shell_call (ap_imp (pf_actor_impl pd)) ''speak'' [Val (40::nat)] =
      Some (run_into_payload ?a (ri_payload (ro_role_impl ro)) (Val 40))"
    by (simp add: types basic_idents)
  with pd ro a show ?thesis by (auto simp: Let_def)
qed

text \<open>
  C37. Two methods can make a role's expansion implement \<open>Accepts\<close> twice for one type: a method with
  one parameter of a tuple type, and a method with the members of that tuple as its
  parameters, since both lists of types are quoted as that tuple. Rust rejects the two
  implementations as conflicting, although both methods are unambiguous.
\<close>

theorem accepts_overlap:
  assumes "RoleOutput_new L role = Inr out" and "hash_orders L"
    and "s \<in> set (rd_signatures role)" and "u \<in> set (rd_signatures role)"
    and "extract_input_type_vector s = [Type_Tuple (t # t' # ts)]"
    and "extract_input_type_vector u = t # t' # ts"
    and "filter (\<lambda>v. extract_input_type_vector v = extract_input_type_vector s) (rd_signatures role) = [s]"
    and "filter (\<lambda>v. extract_input_type_vector v = extract_input_type_vector u) (rd_signatures role) = [u]"
  shows "\<exists>a\<in>set (pe_impls (ro_payload_enum out)). \<exists>b\<in>set (pe_impls (ro_payload_enum out)).
    a \<noteq> b \<and> strip_paren (acc_ty a) = strip_paren (acc_ty b) \<and> acc_role a = acc_role b"
proof -
  let ?impl = "\<lambda>s. AcceptsImpl (tuple_type (extract_input_type_vector s)) (RoleName (rd_name role)) (enum_variant_name L s)"
  have "?impl s \<in> set (pe_impls (ro_payload_enum out))" "?impl u \<in> set (pe_impls (ro_payload_enum out))"
    using accepts_implI [OF assms(1,2,7)] accepts_implI [OF assms(1,2,8)] by (simp_all add: assms(5,6))
  moreover have "acc_ty (?impl s) = Type_Paren (Type_Tuple (t # t' # ts))" "acc_ty (?impl u) = Type_Tuple (t # t' # ts)"
    using assms(5,6) by simp_all
  ultimately show ?thesis
    by (intro bexI [of _ "?impl s"] bexI [of _ "?impl u"]) (auto simp: assms(5,6))
qed

definition pair_role_decl :: role_decl where
  "pair_role_decl = RoleDecl_new basic_role [] Visibility_Public
     [method_sig False ''push_pair'' ''&mut self'' [param ''p'' (Type_Tuple [ident_type ''u8'', ident_type ''u8''])] ReturnType_Default,
      method_sig False ''push_both'' ''&mut self'' [param ''a'' (ident_type ''u8''), param ''b'' (ident_type ''u8'')] ReturnType_Default]"

theorem accepts_overlap_witness:
  "\<exists>out. RoleOutput_new sample_lib pair_role_decl = Inr out \<and>
    (\<exists>a\<in>set (pe_impls (ro_payload_enum out)). \<exists>b\<in>set (pe_impls (ro_payload_enum out)).
      a \<noteq> b \<and> strip_paren (acc_ty a) = strip_paren (acc_ty b))"
proof -
  obtain out where out: "RoleOutput_new sample_lib pair_role_decl = Inr out"
  proof -
    have "role_names_valid sample_lib pair_role_decl" by code_simp
    moreover have "segments (rd_name pair_role_decl) \<noteq> []"
      by (simp add: pair_role_decl_def RoleDecl_new_def basic_role_def path_from_ident_def)
    ultimately show thesis using sample_role_output that by blast
  qed
  let ?sigs = "rd_signatures pair_role_decl"
  have "?sigs ! 0 \<in> set ?sigs" "?sigs ! 1 \<in> set ?sigs"
    by (simp_all add: pair_role_decl_def RoleDecl_new_def)
  moreover have "extract_input_type_vector (?sigs ! 0) = [Type_Tuple [ident_type ''u8'', ident_type ''u8'']]"
    "extract_input_type_vector (?sigs ! 1) = [ident_type ''u8'', ident_type ''u8'']"
    "filter (\<lambda>v. extract_input_type_vector v = extract_input_type_vector (?sigs ! 0)) ?sigs = [?sigs ! 0]"
    "filter (\<lambda>v. extract_input_type_vector v = extract_input_type_vector (?sigs ! 1)) ?sigs = [?sigs ! 1]"
    by code_simp+
  ultimately show ?thesis
    using accepts_overlap [OF out sample_lib_orders] out by blast
qed

section \<open>A whole call\<close>

text \<open>
  C8. Through a canonical performance and the role it declares: the caller's arguments go
  through the shell, the dispatch function and the handler, and the role's \<open>Emits\<close>
  implementation for the method's return type gives the caller exactly what the handler
  returned.
\<close>

theorem canonical_call_roundtrip:
  fixes invoke :: "function_item \<Rightarrow> 'v call_arg list \<Rightarrow> 'r"
  assumes "read_performance L imp = Inr (Some (perf, Some rd))"
    and "PerfDispatch_new L perf actor data = Inr (Some pd)"
    and "RoleOutput_new L rd = Inr ro" and "hash_orders L"
    and "handlers_compile L (pd_role_name perf) (pd_handlers perf)"
    and "h \<in> set (pd_handlers perf)"
    and "length args = length (message_params (fun_sig h))"
  shows "\<exists>e\<in>set (rp_impls (ro_return_payload_enum ro)). em_ty e = extract_return_type (fun_sig h) \<and>
    Option.bind (Option.bind
        (run_shell_call (ap_imp (pf_actor_impl pd)) (sig_ident (fun_sig h)) args)
        (run_dispatch invoke (df_fun (pf_dispatch_fn pd))))
      (run_from_return e) =
    Some (invoke (rename_handler L (pd_role_name perf) h) (handler_args h args))"
proof -
  have "remove_context_param (fun_sig h) \<in> set (rd_signatures rd)"
    using read_performance_canonical [OF assms(1)] assms(6) by auto
  then obtain e where e: "filter (\<lambda>e. em_ty e = extract_return_type (fun_sig h))
        (rp_impls (ro_return_payload_enum ro)) = [e]"
    "\<And>v :: 'r. run_from_return e (enum_variant_name L (fun_sig h), v) = Some v"
    using emits_for_method [OF assms(3,4), of "remove_context_param (fun_sig h)"] by auto
  show ?thesis
    using filter_eq_singleD [OF e(1)] e(2)
    unfolding shell_call_then_dispatch [OF assms(2,5,6,7)] by auto
qed

theorem canonical_call_roundtrip_witness:
  "\<exists>pd ro. PerfDispatch_new sample_lib basic_perf basic_actor_name basic_data_name = Inr (Some pd) \<and>
    RoleOutput_new sample_lib basic_role_decl = Inr ro \<and>
    (\<exists>e\<in>set (rp_impls (ro_return_payload_enum ro)). em_ty e = ident_type ''usize'' \<and>
      Option.bind (Option.bind (run_shell_call (ap_imp (pf_actor_impl pd)) ''speak'' [Val (40::nat)])
          (run_dispatch (\<lambda>h args. args) (df_fun (pf_dispatch_fn pd))))
        (run_from_return e) = Some [Value_Arg (Val 40)])"
proof -
  obtain pd where pd: "PerfDispatch_new sample_lib basic_perf basic_actor_name basic_data_name = Inr (Some pd)"
    using basic_perf_dispatch by blast
  obtain ro where ro: "RoleOutput_new sample_lib basic_role_decl = Inr ro"
    using basic_role_output by blast
  have facts: "extract_return_type (fun_sig speak_fn) = ident_type ''usize''"
    "\<not> has_context_input (fun_sig speak_fn)" "speak_fn \<in> set (pd_handlers basic_perf)"
    "handlers_compile sample_lib (pd_role_name basic_perf) (pd_handlers basic_perf)"
    using basic_handlers_compile
    by (simp_all add: extract_return_type_def has_context_input_def basic_perf_def)
      (simp_all add: sample_defs)
  have "length [Val (40::nat)] = length (message_params (fun_sig speak_fn))"
    by (simp add: basic_message_params)
  from canonical_call_roundtrip [OF basic_read_performance pd ro sample_lib_orders facts(4,3) this,
      of "\<lambda>h args. args"] pd ro
  show ?thesis by (auto simp: facts handler_args_def basic_idents)
qed

section \<open>The trait and the shell agree\<close>

definition no_second_context :: "signature \<Rightarrow> bool" where
  "no_second_context s = (\<not> has_context_input (remove_context_param s))"

definition trait_view :: "signature \<Rightarrow> ident \<times> fn_arg list \<times> return_type \<times> bool" where
  "trait_view s = (sig_ident s, sig_inputs s, sig_output s, sig_asyncness s)"

definition shell_view :: "sending_method \<Rightarrow> ident \<times> fn_arg list \<times> return_type \<times> bool" where
  "shell_view m =
     (sm_ident m, FnArg_Receiver (Receiver ''&self'') # map FnArg_Typed (sm_params m),
      ReturnType_Type (Type_Envelope (role_path (sm_role m)) (sm_return m)), False)"

lemma has_context_input_fold_receiver [simp]:
  "has_context_input (s\<lparr>sig_inputs := map fold_receiver (sig_inputs s)\<rparr>) = has_context_input s"
  "has_context_input (s\<lparr>sig_asyncness := b\<rparr>) = has_context_input s"
  by (auto simp: has_context_input_def split: list.splits fn_arg.splits elim: fold_receiver.elims)

lemma map_fold_receiver_typed [simp]: "map (fold_receiver \<circ> FnArg_Typed) ps = map FnArg_Typed ps"
  by simp

lemma remove_context_receiver_first:
  assumes "receiver_first s"
  obtains r where "sig_inputs (remove_context_param s) = FnArg_Receiver r # map FnArg_Typed (message_params s)"
proof -
  obtain r ps where s: "sig_inputs s = FnArg_Receiver r # map FnArg_Typed ps"
    using receiver_firstE [OF assms] by blast
  then have "sig_inputs (remove_context_param s) = FnArg_Receiver r # map FnArg_Typed (message_params s)"
    by (cases ps) (auto simp: remove_context_param_def message_params_def)
  then show thesis by (rule that)
qed

lemma fold_signature_view:
  assumes "receiver_first (fun_sig h)" and "no_second_context (fun_sig h)"
  shows "trait_view (fold_signature role (remove_context_param (fun_sig h))) = shell_view (sending_of L role h)"
proof -
  let ?s = "remove_context_param (fun_sig h)"
  obtain r where s: "sig_inputs ?s = FnArg_Receiver r # map FnArg_Typed (message_params (fun_sig h))"
    using remove_context_receiver_first [OF assms(1)] by blast
  have "\<not> has_context_input (?s\<lparr>sig_inputs := map fold_receiver (sig_inputs ?s), sig_asyncness := False\<rparr>)"
    using assms(2) by (simp add: no_second_context_def)
  then show ?thesis
    using s by (simp add: fold_signature_def Let_def trait_view_def shell_view_def sending_of_def
        remove_context_param_def [of "_\<lparr>sig_asyncness := _\<rparr>"] extract_return_type_def)
qed

text \<open>
  C31. The trait a canonical performance declares has, method by method, the name, the inputs
  (\<open>&self\<close> and the message's parameters), the envelope type and the lack of \<open>async\<close> that the
  shell's methods have, provided no parameter after the context looks like a second context.
\<close>

theorem canonical_trait_matches_shell:
  assumes "read_performance L imp = Inr (Some (perf, Some rd))"
    and "PerfDispatch_new L perf actor data = Inr (Some pd)"
    and "RoleOutput_new L rd = Inr ro"
    and "\<forall>h\<in>set (pd_handlers perf). receiver_first (fun_sig h) \<and> no_second_context (fun_sig h)"
  shows "map trait_view (td_methods (ro_trait_definition ro)) =
      map shell_view (pi_methods (ap_imp (pf_actor_impl pd))) \<and>
    td_role (ro_trait_definition ro) = pi_role (ap_imp (pf_actor_impl pd))"
proof -
  obtain p where p: "pd_role_name perf = RoleName p" "rd_name rd = p"
    "rd_signatures rd = map (\<lambda>h. remove_context_param (fun_sig h)) (pd_handlers perf)"
    using read_performance_canonical [OF assms(1)] by blast
  have rf: "\<forall>h\<in>set (pd_handlers perf). receiver_first (fun_sig h)"
    using assms(4) by blast
  show ?thesis
    using assms(4) RoleOutput_new_Inr(6) [OF assms(3)] PerfDispatch_new_Inr(2) [OF assms(2) rf] p
    by (simp add: fold_signature_view)
qed

theorem canonical_trait_matches_shell_witness:
  "\<exists>pd ro. PerfDispatch_new sample_lib basic_perf basic_actor_name basic_data_name = Inr (Some pd) \<and>
    RoleOutput_new sample_lib basic_role_decl = Inr ro \<and>
    map trait_view (td_methods (ro_trait_definition ro)) =
      map shell_view (pi_methods (ap_imp (pf_actor_impl pd)))"
proof -
  obtain pd where pd: "PerfDispatch_new sample_lib basic_perf basic_actor_name basic_data_name = Inr (Some pd)"
    using basic_perf_dispatch by blast
  obtain ro where ro: "RoleOutput_new sample_lib basic_role_decl = Inr ro"
    using basic_role_output by blast
  have "\<forall>h\<in>set (pd_handlers basic_perf). receiver_first (fun_sig h) \<and> no_second_context (fun_sig h)"
    by (simp add: basic_perf_def basic_receivers)
      (simp add: no_second_context_def remove_context_param_def has_context_input_def sample_defs)
  from canonical_trait_matches_shell [OF basic_read_performance pd ro this] pd ro
  show ?thesis by auto
qed

end
