(* ===== verification/Expansion_Properties.thy ===== *)
theory Expansion_Properties
  imports Samples
begin

text \<open>
  Which actor modules expand, with which error the others are rejected, where each item of a
  module ends up, and how the \<open>stop\<close> and \<open>catch\<close> hooks are wired into the generated code.
\<close>

section \<open>The outcome of an actor module\<close>

text \<open>
  The reason an actor module is rejected, if it is: no inline body, the first item that cannot
  be read, no state type, several state types (one message for each, in order), no performance.
\<close>

definition actor_error :: "lib \<Rightarrow> item_mod \<Rightarrow> failure option" where
  "actor_error L m =
     (case mod_content m of
        None \<Rightarrow> Some (error_new (Span_Module m) ''Actor declaration cannot be empty'')
      | Some items \<Rightarrow>
          (case map_or_bail (classify L) items of
             Inl e \<Rightarrow> Some e
           | Inr cs \<Rightarrow>
               (case filter_unwrap class_data cs of
                  [] \<Rightarrow> Some (error_new (Span_Module m) ''Actor declaration must contain one struct, enum or union'')
                | [d] \<Rightarrow>
                    if filter_unwrap class_performance cs = []
                    then Some (error_new (Span_Module m)
                      ''Actor must have at least one performance, even if it's externally defined'')
                    else None
                | ds \<Rightarrow> Some (Compile_Error (map (\<lambda>d. (Span_Data d, Message ''Only one data item allowed in actor declaration'')) ds)))))"

lemma reduce_extra_data_errors:
  "reduce_errors (Compile_Error es) (map extra_data_error ds) =
     Compile_Error (es @ map (\<lambda>d. (Span_Data d, Message ''Only one data item allowed in actor declaration'')) ds)"
  by (induction ds arbitrary: es) (simp_all add: extra_data_error_def error_new_def)

lemma single_data_item_simps:
  "single_data_item m [] = Inl (error_new (Span_Module m) ''Actor declaration must contain one struct, enum or union'')"
  "single_data_item m [d] = Inr d"
  "single_data_item m (d # d' # ds) =
     Inl (Compile_Error (map (\<lambda>d. (Span_Data d, Message ''Only one data item allowed in actor declaration'')) (d # d' # ds)))"
  using reduce_extra_data_errors [of "[(Span_Data d, Message ''Only one data item allowed in actor declaration'')]" "d' # ds"]
  by (simp_all add: single_data_item_def extra_data_error_def error_new_def)

text \<open>The declaration read from the classes of a module's items.\<close>

definition decl_of :: "item_mod \<Rightarrow> data_item \<Rightarrow> item_class list \<Rightarrow> actor_decl" where
  "decl_of m d cs =
     \<lparr>ad_actor_name = ActorName_new (TypePath None (path_from_ident (mod_ident m))),
      ad_attributes = filter is_not_internal_attribute (mod_attrs m),
      ad_vis = mod_vis m, ad_data_item = d,
      ad_handlers = set_data_name (DataItem_name d) (sc_handlers (assemble cs)),
      ad_performances = filter_unwrap class_performance cs,
      ad_roles = filter_unwrap class_role cs, ad_misc = filter_unwrap class_misc cs\<rparr>"

lemma ActorDecl_new_error: "actor_error L m = Some e \<Longrightarrow> ActorDecl_new L m = Inl e"
  unfolding actor_error_def ActorDecl_new_def
  by (auto simp: scan_items_assemble Let_def single_data_item_simps assemble_def
      split: option.splits sum.splits list.splits if_splits)

lemma ActorDecl_new_ok:
  "actor_error L m = None \<Longrightarrow> \<exists>items cs d. mod_content m = Some items \<and>
     map_or_bail (classify L) items = Inr cs \<and> filter_unwrap class_data cs = [d] \<and>
     filter_unwrap class_performance cs \<noteq> [] \<and> ActorDecl_new L m = Inr (decl_of m d cs)"
  by (auto simp: actor_error_def ActorDecl_new_def scan_items_assemble Let_def single_data_item_simps
      decl_of_def assemble_def split: option.splits sum.splits list.splits if_splits)

lemma read_performance_checked:
  assumes "read_performance L imp = Inr (Some (p, r))"
  shows "\<forall>h\<in>set (pd_handlers p). check_handler h = Inr ()"
    and "\<forall>rd\<in>set_option r. segments (rd_name rd) \<noteq> []"
  using assms by (auto simp: read_performance_def res_simps Let_def RoleDecl_new_def
      split: option.splits if_splits)

lemma map_or_bail_source:
  "map_or_bail f xs = Inr ys \<Longrightarrow> y \<in> set ys \<Longrightarrow> \<exists>x\<in>set xs. f x = Inr y"
  by (induction xs arbitrary: ys) (auto split: sum.splits)

lemma classified_performance:
  assumes "map_or_bail (classify L) items = Inr cs" and "Class_Performance p r \<in> set cs"
  shows "\<exists>imp. Item_Impl imp \<in> set items \<and> read_performance L imp = Inr (Some (p, r))"
proof -
  obtain i where i: "i \<in> set items" "classify L i = Inr (Class_Performance p r)"
    using map_or_bail_source [OF assms] by blast
  then show ?thesis using classify_item [OF i(2)] by auto
qed

lemma class_performanceD: "class_performance c = Some p \<Longrightarrow> \<exists>r. c = Class_Performance p r"
  by (cases c) auto

lemma class_roleD: "class_role c = Some r \<Longrightarrow> \<exists>p. c = Class_Performance p (Some r)"
  by (cases c) auto

lemma decl_of_checks:
  assumes "map_or_bail (classify L) items = Inr cs" and "filter_unwrap class_performance cs \<noteq> []"
  shows "ActorOutput_new L (decl_of m d cs) =
    passing L (actor_checks L (decl_of m d cs)) (output_of L (decl_of m d cs))"
proof (rule ActorOutput_new_checks)
  show "ad_performances (decl_of m d cs) \<noteq> []"
    using assms(2) by (simp add: decl_of_def)
  show "\<forall>p\<in>set (ad_performances (decl_of m d cs)). \<forall>h\<in>set (pd_handlers p). check_handler h = Inr ()"
  proof
    fix p assume "p \<in> set (ad_performances (decl_of m d cs))"
    then obtain r where "Class_Performance p r \<in> set cs"
      by (auto simp: decl_of_def set_filter_unwrap dest!: class_performanceD)
    then show "\<forall>h\<in>set (pd_handlers p). check_handler h = Inr ()"
      using classified_performance [OF assms(1)] read_performance_checked(1) by blast
  qed
  show "\<forall>r\<in>set (ad_roles (decl_of m d cs)). segments (rd_name r) \<noteq> []"
  proof
    fix r assume "r \<in> set (ad_roles (decl_of m d cs))"
    then obtain p where "Class_Performance p (Some r) \<in> set cs"
      by (auto simp: decl_of_def set_filter_unwrap dest!: class_roleD)
    then obtain imp where "read_performance L imp = Inr (Some (p, Some r))"
      using classified_performance [OF assms(1)] by blast
    then show "segments (rd_name r) \<noteq> []"
      using read_performance_checked(2) by fastforce
  qed
qed

lemma make_actor_checks:
  assumes "actor_error L m = None"
  obtains items cs d where "mod_content m = Some items" and "map_or_bail (classify L) items = Inr cs"
    and "filter_unwrap class_data cs = [d]"
    and "make_actor L m = passing L (actor_checks L (decl_of m d cs)) (output_of L (decl_of m d cs))"
proof -
  obtain items cs d where m: "mod_content m = Some items" "map_or_bail (classify L) items = Inr cs"
    "filter_unwrap class_data cs = [d]" "filter_unwrap class_performance cs \<noteq> []" "ActorDecl_new L m = Inr (decl_of m d cs)"
    using ActorDecl_new_ok [OF assms] by blast
  with decl_of_checks [OF m(2,4), of m d] that show thesis by (simp add: make_actor_def)
qed

lemma decl_of_tokens: "\<exists>toks. actor_to_tokens (output_of L (decl_of m d cs)) = Inr toks"
  by (simp add: actor_to_tokens_def output_of_def handlers_to_tokens_def decl_of_def set_data_name_def)

lemma basic_classes:
  "map_or_bail (classify sample_lib) (the (mod_content basic_module)) =
     Inr [Class_Misc (Item_Other ''use std::sync::Arc;''), Class_Data (Struct actor_state),
       Class_Performance basic_perf (Some basic_role_decl), Class_Stop stop_fn]"
  using basic_read_performance by (simp add: classify_def basic_module_def stop_fn_def)

lemma basic_actor_error: "actor_error sample_lib basic_module = None"
  using basic_classes by (simp add: actor_error_def basic_module_def)

lemma basic_make_actor: "\<exists>out. make_actor sample_lib basic_module = Inr out"
proof -
  obtain items cs d where m: "mod_content basic_module = Some items" "map_or_bail (classify sample_lib) items = Inr cs"
    and make: "make_actor sample_lib basic_module =
      passing sample_lib (actor_checks sample_lib (decl_of basic_module d cs)) (output_of sample_lib (decl_of basic_module d cs))"
    by (rule make_actor_checks [OF basic_actor_error])
  have "cs = [Class_Misc (Item_Other ''use std::sync::Arc;''), Class_Data (Struct actor_state),
        Class_Performance basic_perf (Some basic_role_decl), Class_Stop stop_fn]"
    using m basic_classes by simp
  then have "first_failure sample_lib (actor_checks sample_lib (decl_of basic_module d cs)) = None"
    by (intro actor_checks_pass) (simp_all add: decl_of_def basic_names_valid)
  with make show ?thesis by (simp add: passing_total)
qed

text \<open>
  A performance of a role in another module is tagged as canonical, and the parser takes no path
  for the name of an enum.
\<close>

definition path_lib :: lib where
  "path_lib = sample_lib\<lparr>reparse := (\<lambda>q. case q of
     Q_Enum e \<Rightarrow> if length (segments (enum_path e)) = 1 then None else Some ''expected curly braces''
   | _ \<Rightarrow> None)\<rparr>"

definition qualified_module :: item_mod where
  "qualified_module =
     ItemMod [] Visibility_Public False ''Actor'' (Some [Item_Struct actor_state,
       Item_Impl (basic_impl\<lparr>imp_trait := Some (Path False [PathSegment ''roles'' [], PathSegment ''BasicRole'' []])\<rparr>)])"

text \<open>
  C24. Expansion of an actor module has exactly one outcome, for every behaviour of the parser and of
  \<open>Ident::new\<close>: the error of \<open>actor_error\<close>, which is found from the module alone, when there is one;
  otherwise the failure of the first template that does not parse or text that is no identifier, in the order in
  which the output is made; and otherwise the whole output. No assertion, no missing receiver and no missing
  state type can fail any more once the module has been read.
\<close>

theorem make_actor_outcome:
  "case actor_error L m of
      Some e \<Rightarrow> make_actor L m = Inl e
    | None \<Rightarrow> \<exists>items cs d. mod_content m = Some items \<and> map_or_bail (classify L) items = Inr cs \<and>
        filter_unwrap class_data cs = [d] \<and>
        (case first_failure L (actor_checks L (decl_of m d cs)) of
           Some e \<Rightarrow> make_actor L m = Inl e
         | None \<Rightarrow> make_actor L m = Inr (output_of L (decl_of m d cs)) \<and>
             (\<exists>toks. actor_to_tokens (output_of L (decl_of m d cs)) = Inr toks))"
proof (cases "actor_error L m")
  case None
  obtain items cs d where m: "mod_content m = Some items" "map_or_bail (classify L) items = Inr cs"
    "filter_unwrap class_data cs = [d]"
    and make: "make_actor L m = passing L (actor_checks L (decl_of m d cs)) (output_of L (decl_of m d cs))"
    by (rule make_actor_checks [OF None])
  with decl_of_tokens [of L m d cs] None show ?thesis
    by (auto simp: passing_def split: option.splits)
qed (simp add: make_actor_def ActorDecl_new_error)

theorem make_actor_outcome_witness:
  "make_actor sample_lib (ItemMod [] Visibility_Public False ''Empty'' (Some [])) =
     Inl (error_new (Span_Module (ItemMod [] Visibility_Public False ''Empty'' (Some [])))
       ''Actor declaration must contain one struct, enum or union'') \<and>
   (\<exists>e. make_actor path_lib qualified_module =
     Inl (Compile_Error [(Span_Quote (Q_Enum e), Quote_Error ''expected curly braces'' (Q_Enum e))]))"
proof
  show "make_actor sample_lib (ItemMod [] Visibility_Public False ''Empty'' (Some [])) =
     Inl (error_new (Span_Module (ItemMod [] Visibility_Public False ''Empty'' (Some [])))
       ''Actor declaration must contain one struct, enum or union'')"
    using make_actor_outcome [where L = sample_lib and m = "ItemMod [] Visibility_Public False ''Empty'' (Some [])"]
    by (simp add: actor_error_def)
  have "make_actor path_lib qualified_module =
     (let e = enum_of path_lib input_field
        (payload_path (RoleName (Path False [PathSegment ''roles'' [], PathSegment ''BasicRole'' []])))
        (map (remove_context_param \<circ> fun_sig) [begin_fn, speak_fn, send_fn])
      in Inl (Compile_Error [(Span_Quote (Q_Enum e), Quote_Error ''expected curly braces'' (Q_Enum e))]))"
    by code_simp
  then show "\<exists>e. make_actor path_lib qualified_module =
     Inl (Compile_Error [(Span_Quote (Q_Enum e), Quote_Error ''expected curly braces'' (Q_Enum e))])"
    unfolding Let_def by (rule exI)
qed

section \<open>Where the items of a module go\<close>

text \<open>The functions of a module with a given name, and the items no case of the loop takes.\<close>

definition named_fn :: "ident \<Rightarrow> item \<Rightarrow> item_fn option" where
  "named_fn n i = (case i of Item_Fn f \<Rightarrow> if sig_ident (fn_sig f) = n then Some f else None | _ \<Rightarrow> None)"

lemma named_fnD: "named_fn n i = Some f \<Longrightarrow> i = Item_Fn f \<and> sig_ident (fn_sig f) = n"
  by (cases i) (auto simp: named_fn_def split: if_splits)

definition passes_through :: "item \<Rightarrow> item option" where
  "passes_through i =
     (case i of
        Item_Impl imp \<Rightarrow> if List.find is_performance_tag (imp_attrs imp) = None then Some i else None
      | Item_Fn f \<Rightarrow> if sig_ident (fn_sig f) \<in> {''stop'', ''catch''} then None else Some i
      | Item_Struct s \<Rightarrow> None | Item_Enum e \<Rightarrow> None | Item_Union u \<Rightarrow> None
      | _ \<Rightarrow> Some i)"

lemma filter_unwrap_transfer:
  "map_or_bail f xs = Inr ys \<Longrightarrow> (\<And>x y. f x = Inr y \<Longrightarrow> p y = q x) \<Longrightarrow> filter_unwrap p ys = filter_unwrap q xs"
proof (induction xs arbitrary: ys)
  case (Cons x xs)
  then obtain y zs where "f x = Inr y" "map_or_bail f xs = Inr zs" "ys = y # zs"
    by (auto simp: map_or_bail_Cons_Inr_iff simp del: map_or_bail.simps)
  with Cons.IH [of zs] Cons.prems(2) [of x y] Cons.prems(2) show ?case by (simp split: option.splits)
qed simp

lemma classify_projections:
  assumes "classify L i = Inr c"
  shows "class_stop c = named_fn ''stop'' i" and "class_catch c = named_fn ''catch'' i"
    and "class_misc c = passes_through i" and "class_data c = DataItem_try_from i"
  using assms
  by (auto simp: classify_def named_fn_def passes_through_def read_performance_def res_simps Let_def
      split: item.splits option.splits if_splits)

lemma make_actor_Inr:
  assumes "make_actor L m = Inr out"
  obtains items cs d where "mod_content m = Some items" and "map_or_bail (classify L) items = Inr cs"
    and "filter_unwrap class_data cs = [d]" and "ActorOutput_new L (decl_of m d cs) = Inr out"
proof -
  have "actor_error L m = None"
    using assms ActorDecl_new_error by (cases "actor_error L m") (auto simp: make_actor_def)
  from ActorDecl_new_ok [OF this] show thesis
    using assms that by (auto simp: make_actor_def)
qed

text \<open>The items of a token stream that come from the module unchanged.\<close>

fun out_misc :: "out_item \<Rightarrow> item option" where
  "out_misc (Out_Misc i) = Some i"
| "out_misc _ = None"

lemma out_misc_tokens:
  assumes "actor_to_tokens out = Inr toks"
  shows "filter_unwrap out_misc toks = ao_misc out"
proof -
  have perfs: "filter_unwrap out_misc (concat (map perf_to_tokens ps)) = []" for ps
    by (induction ps) (simp_all add: perf_to_tokens_def)
  have none: "filter_unwrap out_misc (map f xs) = []" if "\<And>x. out_misc (f x) = None" for f and xs :: "'b list"
    using that by (induction xs) simp_all
  have roles: "filter_unwrap out_misc (concat (map role_to_tokens rs)) = []" for rs
    by (induction rs) (simp_all add: role_to_tokens_def none)
  have misc: "filter_unwrap out_misc (map Out_Misc xs) = xs" for xs
    by (induction xs) simp_all
  show ?thesis
    using assms perfs roles misc by (auto simp: actor_to_tokens_def struct_to_tokens_def res_simps)
qed

text \<open>
  C34. The items of a module that are no performance, no hook and no state type are in the
  expansion unchanged and in their order, after everything that is generated, and no other
  item is; and the module has exactly one state type, which the expansion keeps.
\<close>

theorem other_items_preserved:
  assumes "make_actor L m = Inr out" and "mod_content m = Some items"
    and "actor_to_tokens out = Inr toks"
  shows "filter_unwrap out_misc toks = filter_unwrap passes_through items \<and>
    drop (length toks - length (filter_unwrap passes_through items)) toks =
      map Out_Misc (filter_unwrap passes_through items) \<and>
    filter_unwrap DataItem_try_from items = [ao_data_item out]"
proof -
  from assms(1,2) obtain cs d where cs: "map_or_bail (classify L) items = Inr cs"
    "filter_unwrap class_data cs = [d]" "ActorOutput_new L (decl_of m d cs) = Inr out"
    by (auto elim: make_actor_Inr)
  have "ao_misc out = filter_unwrap passes_through items"
    using ActorOutput_new_Inr(9) [OF cs(3)] filter_unwrap_transfer [OF cs(1) classify_projections(3)]
    by (simp add: decl_of_def)
  moreover have "\<exists>pre. toks = pre @ map Out_Misc (ao_misc out)"
    using assms(3) by (auto simp: actor_to_tokens_def res_simps)
  moreover have "filter_unwrap DataItem_try_from items = [ao_data_item out]"
    using ActorOutput_new_Inr(8) [OF cs(3)] cs(2) filter_unwrap_transfer [OF cs(1) classify_projections(4)]
    by (simp add: decl_of_def)
  ultimately show ?thesis
    using out_misc_tokens [OF assms(3)] by auto
qed

theorem other_items_preserved_witness:
  "\<exists>out toks. make_actor sample_lib basic_module = Inr out \<and> actor_to_tokens out = Inr toks \<and>
    filter_unwrap out_misc toks = [Item_Other ''use std::sync::Arc;'']"
proof -
  obtain out where out: "make_actor sample_lib basic_module = Inr out"
    using basic_make_actor by blast
  then have "ao_handlers out = ad_handlers (decl_of m d cs)" if "ActorOutput_new sample_lib (decl_of m d cs) = Inr out" for m d cs
    using that by (intro ActorOutput_new_Inr(7))
  with out obtain toks where toks: "actor_to_tokens out = Inr toks"
    by (auto elim!: make_actor_Inr simp: actor_to_tokens_def handlers_to_tokens_def decl_of_def set_data_name_def)
  have "mod_content basic_module = Some (the (mod_content basic_module))"
    by (simp add: basic_module_def)
  from other_items_preserved [OF out this toks]
  have "filter_unwrap out_misc toks = filter_unwrap passes_through (the (mod_content basic_module))"
    by blast
  also have "\<dots> = [Item_Other ''use std::sync::Arc;'']" by code_simp
  finally show ?thesis using out toks by blast
qed

section \<open>The hooks\<close>

text \<open>
  C29. The last function called \<open>stop\<close> of a module, and the last called \<open>catch\<close>, are the hooks:
  the start function calls them (and passes the value through when there are none), the
  shell's \<open>ExitType\<close> and \<open>PanicType\<close> are their return types (\<open>()\<close> and the panic value's box
  without hooks), and both end up in an impl block of the state type.
\<close>

theorem hooks_wired:
  assumes "make_actor L m = Inr out" and "mod_content m = Some items"
  shows "let stop = last_or None (filter_unwrap (named_fn ''stop'') items);
             catch = last_or None (filter_unwrap (named_fn ''catch'') items);
             start = sp_fun (ao_spawning_function out);
             shell = ast_shell_trait (ao_actor_struct out)
         in si_exit_hook start = (case stop of Some f \<Rightarrow> Call_Hook ''stop'' | None \<Rightarrow> No_Hook) \<and>
            si_panic_hook start = (case catch of Some f \<Rightarrow> Call_Hook ''catch'' | None \<Rightarrow> No_Hook) \<and>
            st_exit shell = (case stop of None \<Rightarrow> unit_type | Some f \<Rightarrow>
              (case sig_output (fn_sig f) of ReturnType_Type t \<Rightarrow> t | ReturnType_Default \<Rightarrow> unit_type)) \<and>
            st_panic shell = (case catch of None \<Rightarrow> box_any | Some f \<Rightarrow>
              (case sig_output (fn_sig f) of ReturnType_Type t \<Rightarrow> t | ReturnType_Default \<Rightarrow> unit_type)) \<and>
            handlers_to_tokens (ao_handlers out) =
              Inr (HooksImpl (DataItem_name (ao_data_item out)) catch stop)"
proof -
  from assms obtain cs d where cs: "map_or_bail (classify L) items = Inr cs"
    "ActorOutput_new L (decl_of m d cs) = Inr out"
    by (auto elim: make_actor_Inr)
  have fns: "filter_unwrap class_stop cs = filter_unwrap (named_fn ''stop'') items"
    "filter_unwrap class_catch cs = filter_unwrap (named_fn ''catch'') items"
    using filter_unwrap_transfer [OF cs(1) classify_projections(1)]
      filter_unwrap_transfer [OF cs(1) classify_projections(2)] by simp_all
  have ident: "sig_ident (fn_sig f) = n" if "last_or None (filter_unwrap (named_fn n) items) = Some f" for f n
  proof -
    from that have "f \<in> set (filter_unwrap (named_fn n) items)"
      by (auto simp: last_or_def split: if_splits)
    then show ?thesis by (auto simp: set_filter_unwrap dest: named_fnD)
  qed
  note out = ActorOutput_new_Inr [OF cs(2)]
  have hooks: "ad_handlers (decl_of m d cs) = \<lparr>hf_state_name = Some (DataItem_name d),
      hf_panic = last_or None (filter_unwrap (named_fn ''catch'') items),
      hf_exit = last_or None (filter_unwrap (named_fn ''stop'') items)\<rparr>"
    by (simp add: decl_of_def assemble_def set_data_name_def fns)
  show ?thesis
    unfolding Let_def out(3,7,8) ActorStruct_new_Inr(3) [OF out(2)] hooks
    by (auto simp: hook_of_def exit_name_def panic_name_def exit_return_def panic_return_def
        handlers_to_tokens_def decl_of_def ident split: option.splits)
qed

theorem hooks_wired_witness:
  "\<exists>out. make_actor sample_lib basic_module = Inr out \<and>
    si_exit_hook (sp_fun (ao_spawning_function out)) = Call_Hook ''stop'' \<and>
    si_panic_hook (sp_fun (ao_spawning_function out)) = No_Hook \<and>
    st_exit (ast_shell_trait (ao_actor_struct out)) = ident_type ''bool''"
proof -
  obtain out where out: "make_actor sample_lib basic_module = Inr out"
    using basic_make_actor by blast
  have items: "mod_content basic_module = Some (the (mod_content basic_module))"
    by (simp add: basic_module_def)
  have "last_or None (filter_unwrap (named_fn ''stop'') (the (mod_content basic_module))) = Some stop_fn"
    "last_or None (filter_unwrap (named_fn ''catch'') (the (mod_content basic_module))) = None"
    by (simp_all add: basic_module_def named_fn_def stop_fn_def last_or_def)
  with hooks_wired [OF out items] out show ?thesis
    by (auto simp: Let_def stop_fn_def)
qed

section \<open>The generated names fit together\<close>

text \<open>
  What has to hold of the names of a generated actor for the parts to be one program: the
  shell's fields are initialised, in order, with the input halves of the queues, the branches
  read the output halves of the same queues, every push method sends on the field of its
  role, of that role's sender type, and every performance's \<open>enqueue\<close> and dispatch method are
  the ones the shell and the event loop use for that role.
\<close>

definition generated_names_fit :: "actor_output \<Rightarrow> bool" where
  "generated_names_fit a =
     (let st = sp_fun (ao_spawning_function a);
          fields = as_fields (ast_strukt (ao_actor_struct a));
          pushes = pu_methods (ast_sender_methods (ao_actor_struct a));
          queues = si_queues st;
          inits = ce_fields (si_constructor st);
          branches = si_branches st
      in map sf_name fields = map fi_field inits \<and>
         map fi_value inits = map qc_input queues \<and>
         map sb_output branches = map qc_output queues \<and>
         map sf_type fields = map (\<lambda>q. SenderType (role_path (qc_role q))) queues \<and>
         map pm_field pushes = map sf_name fields \<and>
         map pm_role pushes = map qc_role queues \<and>
         list_all (\<lambda>pd.
           list_ex (\<lambda>i.
             qc_role (queues ! i) = pi_role (ap_imp (pf_actor_impl pd)) \<and>
             pm_accessor (pushes ! i) = pi_sender (ap_imp (pf_actor_impl pd)) \<and>
             sb_handler (branches ! i) = di_method (df_fun (pf_dispatch_fn pd)) \<and>
             di_role (df_fun (pf_dispatch_fn pd)) = pi_role (ap_imp (pf_actor_impl pd)) \<and>
             pi_actor (ap_imp (pf_actor_impl pd)) = si_actor st \<and>
             di_data (df_fun (pf_dispatch_fn pd)) = si_data st) [0..<length queues])
           (ao_performances a))"

text \<open>The names of one expanded performance.\<close>

lemma PerfDispatch_new_names:
  assumes "PerfDispatch_new L perf actor data = Inr (Some out)"
  shows "pi_role (ap_imp (pf_actor_impl out)) = pd_role_name perf"
    and "pi_actor (ap_imp (pf_actor_impl out)) = actor"
    and "pi_sender (ap_imp (pf_actor_impl out)) = sender_method_name L (pd_role_name perf)"
    and "di_method (df_fun (pf_dispatch_fn out)) = method_name L (pd_role_name perf)"
    and "di_role (df_fun (pf_dispatch_fn out)) = pd_role_name perf"
    and "di_data (df_fun (pf_dispatch_fn out)) = data"
  using assms
  by (auto simp: PerfDispatch_new_def ActorPerf_new_def DispatchFunction_new_def Let_def res_simps
      split: if_splits)

lemma create_sending_method_ident:
  "create_sending_method L pt role f = Inr m \<Longrightarrow> sm_ident m = sig_ident (fun_sig f)"
  by (auto simp: create_sending_method_def Let_def res_simps remove_context_param_def)

text \<open>One method and one arm for each handler.\<close>

lemma PerfDispatch_new_methods:
  assumes "PerfDispatch_new L perf actor data = Inr (Some out)"
  shows "map sm_ident (pi_methods (ap_imp (pf_actor_impl out))) = map (\<lambda>h. sig_ident (fun_sig h)) (pd_handlers perf)"
    and "length (di_arms (df_fun (pf_dispatch_fn out))) = length (pd_handlers perf)"
proof -
  from assms have methods: "list_all2 (\<lambda>h m. create_sending_method L (payload_path (pd_role_name perf)) (pd_role_name perf) h = Inr m)
      (pd_handlers perf) (pi_methods (ap_imp (pf_actor_impl out)))"
    and arms: "list_all2 (\<lambda>h a. dispatch_case L (pd_role_name perf) (payload_path (pd_role_name perf)) h = Inr a)
      (pd_handlers perf) (di_arms (df_fun (pf_dispatch_fn out)))"
    by (auto simp: PerfDispatch_new_def ActorPerf_new_def DispatchFunction_new_def Let_def res_simps
        map_or_bail_Inr_iff split: if_splits)
  from methods show "map sm_ident (pi_methods (ap_imp (pf_actor_impl out))) = map (\<lambda>h. sig_ident (fun_sig h)) (pd_handlers perf)"
    by (induction rule: list_all2_induct) (auto dest: create_sending_method_ident)
  from arms show "length (di_arms (df_fun (pf_dispatch_fn out))) = length (pd_handlers perf)"
    by (simp add: list_all2_lengthD)
qed

text \<open>
  C27. The parts an actor module expands to fit together, for every module that expands.
\<close>

theorem make_actor_names_fit:
  assumes "make_actor L m = Inr out"
  shows "generated_names_fit out"
proof -
  obtain node where node: "ActorOutput_new L node = Inr out"
    using assms by (auto simp: make_actor_def res_simps)
  note out = ActorOutput_new_Inr [OF node]
  note struct = ActorStruct_new_Inr [OF out(2)]
  let ?ps = "ad_performances node"
  let ?links = "\<lambda>pd i.
      pd_role_name (?ps ! i) = pi_role (ap_imp (pf_actor_impl pd)) \<and>
      sender_method_name L (pd_role_name (?ps ! i)) = pi_sender (ap_imp (pf_actor_impl pd)) \<and>
      method_name L (pd_role_name (?ps ! i)) = di_method (df_fun (pf_dispatch_fn pd)) \<and>
      di_role (df_fun (pf_dispatch_fn pd)) = pi_role (ap_imp (pf_actor_impl pd)) \<and>
      pi_actor (ap_imp (pf_actor_impl pd)) = ad_actor_name node \<and>
      di_data (df_fun (pf_dispatch_fn pd)) = DataItem_name (ad_data_item node)"
  have links: "\<exists>i<length ?ps. ?links pd i" if "pd \<in> set (ao_performances out)" for pd
  proof -
    obtain outs where outs: "map_or_bail (\<lambda>perf. PerfDispatch_new L perf (ad_actor_name node)
        (DataItem_name (ad_data_item node))) ?ps = Inr outs"
      and "ao_performances out = List.map_filter (\<lambda>p. p) outs"
      using out(6) by blast
    with that have "Some pd \<in> set outs" by (simp add: set_map_filter_iff)
    then obtain i where i: "i < length outs" "outs ! i = Some pd"
      by (auto simp: in_set_conv_nth)
    with outs have i': "i < length ?ps" and pd: "PerfDispatch_new L (?ps ! i) (ad_actor_name node)
        (DataItem_name (ad_data_item node)) = Inr (Some pd)"
      unfolding map_or_bail_Inr_iff by (auto simp: list_all2_conv_all_nth)
    show ?thesis
      using i' PerfDispatch_new_names [OF pd] by (intro exI [of _ i]) simp
  qed
  show ?thesis
    unfolding generated_names_fit_def Let_def struct(1,2) out(3)
    using links
    by (simp add: queue_of_def field_init_of_def branch_of_def comp_def list_all_iff list_ex_iff Bex_def)
qed

theorem make_actor_names_fit_witness:
  "\<exists>out. make_actor sample_lib basic_module = Inr out \<and> generated_names_fit out"
  using basic_make_actor make_actor_names_fit by blast

section \<open>Performances: panics, errors and expansions\<close>

text \<open>
  An impl block tagged \<open>#[performance]\<close> that implements no trait: on its own it is a
  compile error that names the block; inside an actor module, where the items before it are
  fine, the macro panics instead, since \<open>read_performance\<close> unwraps the missing trait.
\<close>

theorem performance_without_trait:
  assumes "imp_trait imp = None" and "List.find is_performance_tag (imp_attrs imp) = Some a"
    and "mod_content m = Some (pre @ Item_Impl imp # post)"
    and "map_or_bail (classify L) pre = Inr cs"
  shows "make_performance L imp =
      Inl (error_new (Span_Impl imp) ''Cannot define standalone performance with no role name'') \<and>
    make_actor L m = Inl (Panicked ''called `Option::unwrap()` on a `None` value'')"
proof -
  have "classify L (Item_Impl imp) = Inl (Panicked ''called `Option::unwrap()` on a `None` value'')"
    using assms(1,2) by (simp add: classify_def read_performance_def)
  with assms(4) have "map_or_bail (classify L) (pre @ Item_Impl imp # post) =
      Inl (Panicked ''called `Option::unwrap()` on a `None` value'')"
    by (induction pre arbitrary: cs) (auto split: sum.splits)
  with assms(1,3) show ?thesis
    by (simp add: make_performance_def make_actor_def ActorDecl_new_def scan_items_assemble)
qed

theorem performance_without_trait_witness:
  "make_actor sample_lib (ItemMod [] Visibility_Public False ''Actor''
      (Some [Item_Struct actor_state, Item_Impl (basic_impl\<lparr>imp_trait := None\<rparr>)])) =
    Inl (Panicked ''called `Option::unwrap()` on a `None` value'')"
proof -
  have "List.find is_performance_tag (imp_attrs (basic_impl\<lparr>imp_trait := None\<rparr>)) =
      Some (attr_of ''performance'' ''canonical'')"
    by code_simp
  from performance_without_trait [OF _ this, of "ItemMod [] Visibility_Public False ''Actor''
      (Some [Item_Struct actor_state, Item_Impl (basic_impl\<lparr>imp_trait := None\<rparr>)])" "[Item_Struct actor_state]" "[]"
      sample_lib "[Class_Data (Struct actor_state)]"]
  show ?thesis by (simp add: classify_def)
qed

text \<open>A block with a trait, for a type that is a path.\<close>

lemma make_performance_path:
  assumes "imp_trait imp = Some p" and "imp_self_ty imp = Type_Path q tp" and "segments p \<noteq> []" and "segments tp \<noteq> []"
  defines "hs \<equiv> filter_unwrap impl_item_fn (imp_items imp)" and "data \<equiv> DataName (TypePath q tp)"
  defines "shell \<equiv> get_shell_type_path data" and "perf \<equiv> \<lparr>pd_role_name = RoleName p, pd_handlers = hs\<rparr>"
  shows "case check_handlers hs of
      Inl e \<Rightarrow> make_performance L imp = Inl e
    | Inr u \<Rightarrow>
        (case first_failure L (perf_checks L perf shell data) of
           Some e \<Rightarrow> make_performance L imp = Inl e
         | None \<Rightarrow>
             if hs = [] then make_performance L imp = Inl (error_new (Span_Impl imp) ''Standalone performance needs methods'')
             else \<exists>pd. make_performance L imp = Inr pd \<and> pi_role (ap_imp (pf_actor_impl pd)) = RoleName p \<and>
               pi_actor (ap_imp (pf_actor_impl pd)) = shell \<and>
               map sm_ident (pi_methods (ap_imp (pf_actor_impl pd))) = map (\<lambda>h. sig_ident (fun_sig h)) hs \<and>
               length (di_arms (df_fun (pf_dispatch_fn pd))) = length hs)"
proof -
  have mk: "make_performance L imp = bind_res (bind_res (check_handlers hs) (\<lambda>_. Inr perf)) (\<lambda>decl.
      bind_res (PerfDispatch_new L decl shell data) (\<lambda>pd.
        case pd of Some pd \<Rightarrow> Inr pd | None \<Rightarrow> Inl (error_new (Span_Impl imp) ''Standalone performance needs methods'')))"
    using assms(1-4) by (simp add: make_performance_def PerformanceDecl_new_def Let_def bind_res_assoc hs_def data_def
        shell_def perf_def)
  have perf: "pd_role_name perf = RoleName p" "pd_handlers perf = hs" by (simp_all add: perf_def)
  show ?thesis
  proof (cases "check_handlers hs")
    case (Inr u)
    then have "\<forall>h\<in>set (pd_handlers perf). check_handler h = Inr ()"
      by (simp add: check_handlers_Inr perf)
    note checks = PerfDispatch_new_checks [OF this, of L shell data]
    show ?thesis
    proof (cases "first_failure L (perf_checks L perf shell data)")
      case None
      then have out: "PerfDispatch_new L perf shell data = Inr (perf_of L perf shell data)"
        by (simp only: checks passing_total)
      show ?thesis
      proof (cases "hs = []")
        case True
        with mk Inr out None show ?thesis by (simp add: perf_of_def perf)
      next
        case False
        then obtain pd where pd: "perf_of L perf shell data = Some pd" by (simp add: perf_of_def perf)
        note facts = PerfDispatch_new_names(1,2) [OF out [unfolded pd]] PerfDispatch_new_methods [OF out [unfolded pd]]
        from mk Inr out pd have "make_performance L imp = Inr pd" by simp
        with Inr None False facts show ?thesis by (simp add: perf)
      qed
    next
      case (Some e)
      then have "PerfDispatch_new L perf shell data = Inl e"
        by (simp only: checks passing_def option.case)
      with mk Inr Some show ?thesis by simp
    qed
  qed (use mk in simp)
qed

text \<open>
  C35. A standalone \<open>#[performance]\<close> block has one outcome for every block a parser can give and every
  behaviour of the parser and of \<open>Ident::new\<close> on what is generated from it: an error without a trait, an error for a
  type that is no path, the error of the first handler that has type parameters or no receiver, the failure of the
  first template that does not parse or text that is no identifier, an error without methods; and otherwise an
  expansion that implements the role for the shell of that very type, with one sending method and one
  dispatch arm for each handler.
\<close>

theorem make_performance_outcome:
  assumes "imp_trait imp = Some p \<Longrightarrow> segments p \<noteq> []" and "imp_self_ty imp = Type_Path q tp \<Longrightarrow> segments tp \<noteq> []"
  shows "let hs = filter_unwrap impl_item_fn (imp_items imp);
             perf = \<lparr>pd_role_name = RoleName p, pd_handlers = hs\<rparr>;
             data = DataName (TypePath q tp); shell = get_shell_type_path data in
    (imp_trait imp = None \<longrightarrow>
      make_performance L imp = Inl (error_new (Span_Impl imp) ''Cannot define standalone performance with no role name'')) \<and>
    (imp_trait imp = Some p \<and> (\<forall>q tp. imp_self_ty imp \<noteq> Type_Path q tp) \<longrightarrow>
      make_performance L imp = Inl (error_new (Span_Type (imp_self_ty imp)) ''Unsupported self type in performance'')) \<and>
    (imp_trait imp = Some p \<and> imp_self_ty imp = Type_Path q tp \<longrightarrow>
      (case check_handlers hs of
         Inl e \<Rightarrow> make_performance L imp = Inl e
       | Inr u \<Rightarrow>
           (case first_failure L (perf_checks L perf shell data) of
              Some e \<Rightarrow> make_performance L imp = Inl e
            | None \<Rightarrow>
                if hs = [] then make_performance L imp = Inl (error_new (Span_Impl imp) ''Standalone performance needs methods'')
                else \<exists>pd. make_performance L imp = Inr pd \<and> pi_role (ap_imp (pf_actor_impl pd)) = RoleName p \<and>
                  pi_actor (ap_imp (pf_actor_impl pd)) = shell \<and>
                  map sm_ident (pi_methods (ap_imp (pf_actor_impl pd))) = map (\<lambda>h. sig_ident (fun_sig h)) hs \<and>
                  length (di_arms (df_fun (pf_dispatch_fn pd))) = length hs)))"
proof -
  have "imp_trait imp = None \<Longrightarrow>
      make_performance L imp = Inl (error_new (Span_Impl imp) ''Cannot define standalone performance with no role name'')"
    by (simp add: make_performance_def)
  moreover have "imp_trait imp = Some p \<Longrightarrow> \<forall>q tp. imp_self_ty imp \<noteq> Type_Path q tp \<Longrightarrow>
      make_performance L imp = Inl (error_new (Span_Type (imp_self_ty imp)) ''Unsupported self type in performance'')"
    by (cases "imp_self_ty imp") (auto simp: make_performance_def)
  moreover note make_performance_path [of imp p q tp L] assms
  ultimately show ?thesis unfolding Let_def by blast
qed

text \<open>The parser takes no \<open>mut\<close> inside the tuple that a sending method makes of its parameters.\<close>

definition pattern_lib :: lib where
  "pattern_lib = sample_lib\<lparr>reparse := (\<lambda>q. case q of
     Q_Sending m \<Rightarrow> if list_all (\<lambda>p. pat_ident p \<noteq> None) (sm_patterns m) then None else Some ''expected an expression''
   | _ \<Rightarrow> None)\<rparr>"

definition mut_fn :: function_item where
  "mut_fn = fun_item (method_sig False ''speak'' ''&self''
     [FnArg_Typed (PatType [] (Pat_Other ''mut val'') (ident_type ''usize''))] ReturnType_Default) ''{ }''"

theorem make_performance_outcome_witness:
  "(\<exists>pd. make_performance sample_lib basic_impl = Inr pd \<and>
      map sm_ident (pi_methods (ap_imp (pf_actor_impl pd))) = [''begin'', ''speak'', ''send_msg'']) \<and>
   (\<exists>m. make_performance pattern_lib (basic_impl\<lparr>imp_items := [ImplItem_Fn mut_fn]\<rparr>) =
      Inl (Compile_Error [(Span_Quote (Q_Sending m), Quote_Error ''expected an expression'' (Q_Sending m))]))"
proof
  let ?data = "DataName (TypePath None (path_from_ident ''ActorState''))"
  have facts: "imp_trait basic_impl = Some basic_role" "segments basic_role \<noteq> []"
    "imp_self_ty basic_impl = Type_Path None (path_from_ident ''ActorState'')"
    "segments (path_from_ident ''ActorState'') \<noteq> []"
    "filter_unwrap impl_item_fn (imp_items basic_impl) = [begin_fn, speak_fn, send_fn]"
    "check_handlers [begin_fn, speak_fn, send_fn] = Inr ()"
    by (simp_all add: basic_impl_def basic_role_def ident_type_def path_from_ident_def)
      (simp_all add: check_handler_def sample_defs)
  have pass: "first_failure sample_lib (perf_checks sample_lib
      \<lparr>pd_role_name = RoleName basic_role, pd_handlers = [begin_fn, speak_fn, send_fn]\<rparr> (get_shell_type_path ?data) ?data) = None"
    using perf_checks_pass [OF _ basic_names_valid(1), of "get_shell_type_path ?data" ?data] by (simp add: basic_perf_def)
  from make_performance_outcome [of basic_impl basic_role None "path_from_ident ''ActorState''" sample_lib] facts pass
  show "\<exists>pd. make_performance sample_lib basic_impl = Inr pd \<and>
      map sm_ident (pi_methods (ap_imp (pf_actor_impl pd))) = [''begin'', ''speak'', ''send_msg'']"
    by (auto simp: Let_def basic_idents simp del: get_shell_type_path.simps)
  have "make_performance pattern_lib (basic_impl\<lparr>imp_items := [ImplItem_Fn mut_fn]\<rparr>) =
     (let m = sending_of pattern_lib (RoleName basic_role) mut_fn
      in Inl (Compile_Error [(Span_Quote (Q_Sending m), Quote_Error ''expected an expression'' (Q_Sending m))]))"
    by code_simp
  then show "\<exists>m. make_performance pattern_lib (basic_impl\<lparr>imp_items := [ImplItem_Fn mut_fn]\<rparr>) =
      Inl (Compile_Error [(Span_Quote (Q_Sending m), Quote_Error ''expected an expression'' (Q_Sending m))])"
    unfolding Let_def by (rule exI)
qed

end
