(* ===== verification/Channels.thy ===== *)
theory Channels
  imports Prelude
begin

text \<open>
  The channel under a role (\<open>src/src/core/role.rs\<close>, \<open>src/src/tokio.rs\<close>): the traits \<open>Sender\<close>,
  \<open>Receiver\<close> and \<open>Channel\<close> as a record of operations, the tokio channel as a parameter, and
  the implementation of the traits on it. The two halves of a channel share one state
  (\<open>'q\<close>), which every operation is given and hands back.
\<close>

section \<open>The traits: core/role.rs\<close>

text \<open>The result of polling a future.\<close>

datatype 'a poll = Ready 'a | Pending

text \<open>
  \<open>ch_send\<close> is \<open>Sender::send\<close> with its error (which returns the message), \<open>ch_recv\<close> one poll
  of \<open>Receiver::recv\<close>, \<open>ch_is_empty\<close> is \<open>Receiver::is_empty\<close>, \<open>ch_new\<close> is \<open>Channel::new\<close>, and
  \<open>ch_drop_receiver\<close> is what dropping the receiver does.
\<close>

record ('q, 'm) channel =
  ch_new :: 'q
  ch_send :: "'m \<Rightarrow> 'q \<Rightarrow> 'q \<times> ('m + unit)"
  ch_recv :: "'q \<Rightarrow> 'q \<times> 'm option poll"
  ch_is_empty :: "'q \<Rightarrow> bool"
  ch_drop_receiver :: "'q \<Rightarrow> 'q"

section \<open>The tokio channel: tokio.rs\<close>

text \<open>What the code calls of \<open>tokio::sync::mpsc\<close>.\<close>

record ('q, 'm) mpsc =
  unbounded_channel :: 'q
  unbounded_send :: "'q \<Rightarrow> 'm \<Rightarrow> 'q \<times> ('m + unit)"
  unbounded_poll_recv :: "'q \<Rightarrow> 'q \<times> 'm option poll"
  unbounded_is_empty :: "'q \<Rightarrow> bool"
  unbounded_drop_receiver :: "'q \<Rightarrow> 'q"

definition TokioUnbounded :: "('q, 'm) mpsc \<Rightarrow> ('q, 'm) channel" where
  "TokioUnbounded T =
     \<lparr>ch_new = unbounded_channel T,
      ch_send = (\<lambda>msg q. unbounded_send T q msg),
      ch_recv = (\<lambda>q. unbounded_poll_recv T q),
      ch_is_empty = (\<lambda>q. unbounded_is_empty T q),
      ch_drop_receiver = (\<lambda>q. unbounded_drop_receiver T q)\<rparr>"

section \<open>What a channel promises\<close>

text \<open>
  \<open>contents\<close> are the messages sent and not yet received, \<open>receiving\<close> says that the receiver
  is alive, \<open>connected\<close> that a sender is. Only a channel without senders and messages
  ends; a channel with messages may still be pending (tokio makes a task yield).
\<close>

locale role_channel =
  fixes C :: "('q, 'm) channel"
    and contents :: "'q \<Rightarrow> 'm list"
    and receiving :: "'q \<Rightarrow> bool"
    and connected :: "'q \<Rightarrow> bool"
  assumes new_state: "contents (ch_new C) = []" "receiving (ch_new C)" "connected (ch_new C)"
    and send_open: "receiving q \<Longrightarrow> \<exists>q'. ch_send C m q = (q', Inr ()) \<and> contents q' = contents q @ [m] \<and>
      receiving q' \<and> connected q' = connected q"
    and send_closed: "\<not> receiving q \<Longrightarrow> ch_send C m q = (q, Inl m)"
    and recv_some: "receiving q \<Longrightarrow> ch_recv C q = (q', Ready (Some m)) \<Longrightarrow>
      contents q = m # contents q' \<and> receiving q' \<and> connected q' = connected q"
    and recv_pending: "receiving q \<Longrightarrow> ch_recv C q = (q', Pending) \<Longrightarrow>
      contents q' = contents q \<and> receiving q' \<and> connected q' = connected q"
    and recv_none: "receiving q \<Longrightarrow> ch_recv C q = (q', Ready None) \<Longrightarrow> \<not> connected q \<and> contents q = []"
    and is_empty: "ch_is_empty C q \<longleftrightarrow> contents q = []"
    and drop_receiver: "\<not> receiving (ch_drop_receiver C q)" "contents (ch_drop_receiver C q) = []"
begin

lemma send_result:
  assumes "ch_send C m q = (q', r)"
  shows "if receiving q then r = Inr () \<and> contents q' = contents q @ [m] \<and> receiving q' \<and> connected q' = connected q
    else r = Inl m \<and> q' = q"
  using assms send_open [of q m] send_closed [of q m] by auto

lemma recv_result:
  assumes "receiving q" and "ch_recv C q = (q', r)" and "connected q"
  shows "receiving q' \<and> connected q' \<and>
    (case r of Ready (Some m) \<Rightarrow> contents q = m # contents q' | Ready None \<Rightarrow> False | Pending \<Rightarrow> contents q' = contents q)"
  using assms recv_some [of q q'] recv_pending [of q q'] recv_none [of q q']
  by (auto split: poll.splits option.splits)

end

text \<open>A channel that hands out a waiting message as soon as it is polled.\<close>

locale prompt_channel = role_channel +
  assumes recv_prompt: "receiving q \<Longrightarrow> contents q = m # ms \<Longrightarrow> \<exists>q'. ch_recv C q = (q', Ready (Some m))"

text \<open>The same laws as tokio documents them of its unbounded channel.\<close>

locale tokio_mpsc =
  fixes T :: "('q, 'm) mpsc"
    and contents :: "'q \<Rightarrow> 'm list"
    and receiving :: "'q \<Rightarrow> bool"
    and connected :: "'q \<Rightarrow> bool"
  assumes unbounded_channel: "contents (unbounded_channel T) = []" "receiving (unbounded_channel T)"
      "connected (unbounded_channel T)"
    and unbounded_send: "receiving q \<Longrightarrow> \<exists>q'. unbounded_send T q m = (q', Inr ()) \<and>
      contents q' = contents q @ [m] \<and> receiving q' \<and> connected q' = connected q"
    and unbounded_send_closed: "\<not> receiving q \<Longrightarrow> unbounded_send T q m = (q, Inl m)"
    and unbounded_recv_some: "receiving q \<Longrightarrow> unbounded_poll_recv T q = (q', Ready (Some m)) \<Longrightarrow>
      contents q = m # contents q' \<and> receiving q' \<and> connected q' = connected q"
    and unbounded_recv_pending: "receiving q \<Longrightarrow> unbounded_poll_recv T q = (q', Pending) \<Longrightarrow>
      contents q' = contents q \<and> receiving q' \<and> connected q' = connected q"
    and unbounded_recv_none: "receiving q \<Longrightarrow> unbounded_poll_recv T q = (q', Ready None) \<Longrightarrow>
      \<not> connected q \<and> contents q = []"
    and unbounded_is_empty: "unbounded_is_empty T q \<longleftrightarrow> contents q = []"
    and unbounded_drop_receiver: "\<not> receiving (unbounded_drop_receiver T q)"
      "contents (unbounded_drop_receiver T q) = []"

sublocale tokio_mpsc \<subseteq> tokio: role_channel "TokioUnbounded T" contents receiving connected
  by (unfold_locales; unfold TokioUnbounded_def channel.select_convs)
    (rule unbounded_channel unbounded_send unbounded_send_closed unbounded_recv_some unbounded_recv_pending
      unbounded_recv_none unbounded_is_empty unbounded_drop_receiver; assumption)+

section \<open>A queue with these laws\<close>

text \<open>The documented behaviour, as a list and two flags.\<close>

record 'm fifo =
  fifo_items :: "'m list"
  fifo_receiver :: bool
  fifo_sender :: bool

definition fifo_send :: "'m fifo \<Rightarrow> 'm \<Rightarrow> 'm fifo \<times> ('m + unit)" where
  "fifo_send q m =
     (if fifo_receiver q then (q\<lparr>fifo_items := fifo_items q @ [m]\<rparr>, Inr ()) else (q, Inl m))"

definition fifo_poll_recv :: "'m fifo \<Rightarrow> 'm fifo \<times> 'm option poll" where
  "fifo_poll_recv q =
     (case fifo_items q of
        m # ms \<Rightarrow> (q\<lparr>fifo_items := ms\<rparr>, Ready (Some m))
      | [] \<Rightarrow> (q, if fifo_sender q then Pending else Ready None))"

definition fifo_mpsc :: "('m fifo, 'm) mpsc" where
  "fifo_mpsc =
     \<lparr>unbounded_channel = \<lparr>fifo_items = [], fifo_receiver = True, fifo_sender = True\<rparr>,
      unbounded_send = fifo_send, unbounded_poll_recv = fifo_poll_recv,
      unbounded_is_empty = (\<lambda>q. fifo_items q = []),
      unbounded_drop_receiver = (\<lambda>q. q\<lparr>fifo_items := [], fifo_receiver := False\<rparr>)\<rparr>"

interpretation fifo: tokio_mpsc fifo_mpsc fifo_items fifo_receiver fifo_sender
  by unfold_locales (auto simp: fifo_mpsc_def fifo_send_def fifo_poll_recv_def split: list.splits if_splits)

abbreviation fifo_channel :: "('m fifo, 'm) channel" where
  "fifo_channel \<equiv> TokioUnbounded fifo_mpsc"

interpretation fifo_prompt: prompt_channel fifo_channel fifo_items fifo_receiver fifo_sender
  by unfold_locales (simp add: TokioUnbounded_def fifo_mpsc_def fifo_poll_recv_def)

lemma fifo_channel_laws: "role_channel fifo_channel fifo_items fifo_receiver fifo_sender"
  by (rule fifo.tokio.role_channel_axioms)

lemma fifo_channel_prompt: "prompt_channel fifo_channel fifo_items fifo_receiver fifo_sender"
  by (rule fifo_prompt.prompt_channel_axioms)

lemma fifo_channel_simps [simp]:
  "ch_new fifo_channel = \<lparr>fifo_items = [], fifo_receiver = True, fifo_sender = True\<rparr>"
  "ch_send fifo_channel m q = fifo_send q m" "ch_recv fifo_channel q = fifo_poll_recv q"
  "ch_is_empty fifo_channel q = (fifo_items q = [])"
  "ch_drop_receiver fifo_channel q = q\<lparr>fifo_items := [], fifo_receiver := False\<rparr>"
  by (simp_all add: TokioUnbounded_def fifo_mpsc_def)

end
