(* ===== verification/Runtime_Core.thy ===== *)
theory Runtime_Core
  imports Channels
begin

text \<open>
  The data the runtime crate passes around: an actor's context (\<open>src/src/core/context.rs\<close>), the
  path a return value takes and the message with its path (\<open>src/src/core/returnval.rs\<close>), the
  outcome of an actor and the handle that reports it (\<open>src/src/core/actor.rs\<close>). Payloads,
  return values and panic values are values of one type \<open>'v\<close>.
\<close>

section \<open>The context: context.rs\<close>

text \<open>A reference to an actor's shell, that is one of the clones of its \<open>Arc\<close>.\<close>

type_synonym shell_ref = nat

record actor_context =
  shell_handle :: shell_ref
  running :: bool

definition Context_new :: "shell_ref \<Rightarrow> actor_context" where
  "Context_new shell = \<lparr>shell_handle = shell, running = True\<rparr>"

text \<open>\<open>strong_count\<close> is the number of clones of the handle at the moment of the call.\<close>

definition is_running :: "nat \<Rightarrow> actor_context \<Rightarrow> bool" where
  "is_running strong_count ctx \<longleftrightarrow> strong_count > 1 \<and> running ctx"

text \<open>Cloning the handle gives one more reference to the shell.\<close>

definition get_shell :: "nat \<Rightarrow> actor_context \<Rightarrow> shell_ref \<times> nat" where
  "get_shell strong_count ctx = (shell_handle ctx, strong_count + 1)"

definition context_stop :: "actor_context \<Rightarrow> actor_context" where
  "context_stop ctx = ctx\<lparr>running := False\<rparr>"

section \<open>Return paths: returnval.rs\<close>

text \<open>A role of an actor, as the destination of a message.\<close>

record dest =
  dest_shell :: shell_ref
  dest_role :: nat

type_synonym oneshot = nat

text \<open>
  The closure of \<open>Mailbox\<close> is made by \<open>forward_to\<close> only: it converts the return value to a payload of
  the recipient (which may panic: \<open>None\<close>) and enqueues it there.
\<close>

datatype 'v return_path =
    Discard
  | Mailbox dest "'v \<Rightarrow> 'v option"
  | Immediate oneshot

record 'v return_envelope =
  payload :: 'v
  return_path :: "'v return_path"

text \<open>What sending a return value does: a message to a mailbox, a value into a oneshot channel.\<close>

datatype 'v effect =
    Deliver dest "'v return_envelope"
  | Reply oneshot 'v

definition panic_unimplemented :: string where
  "panic_unimplemented = ''not implemented''"

text \<open>\<open>ReturnPath::send\<close>; the receiver of a oneshot may be gone, and the result is ignored.\<close>

fun ReturnPath_send :: "'v return_path \<Rightarrow> 'v \<Rightarrow> string + 'v effect list" where
  "ReturnPath_send Discard val = Inr []"
| "ReturnPath_send (Mailbox recipient bridge) val =
     (case bridge val of
        None \<Rightarrow> Inl panic_unimplemented
      | Some p \<Rightarrow> Inr [Deliver recipient \<lparr>payload = p, return_path = Discard\<rparr>])"
| "ReturnPath_send (Immediate channel) val = Inr [Reply channel val]"

text \<open>Debug output names the variant only: payloads and values are never shown.\<close>

fun ReturnPath_fmt :: "'v return_path \<Rightarrow> string" where
  "ReturnPath_fmt Discard = ''<ReturnPath::Discard>''"
| "ReturnPath_fmt (Mailbox recipient bridge) = ''<ReturnPath::Mailbox>''"
| "ReturnPath_fmt (Immediate channel) = ''<ReturnPath::Immediate>''"

definition ReturnEnvelope_fmt :: "'v return_envelope \<Rightarrow> string" where
  "ReturnEnvelope_fmt e = ''<ReturnEnvelope>''"

text \<open>The oneshot channel that a path owns: dropping the path hangs it up.\<close>

fun owned_oneshots :: "'v return_path \<Rightarrow> oneshot list" where
  "owned_oneshots (Immediate channel) = [channel]"
| "owned_oneshots _ = []"

section \<open>Outcomes: actor.rs\<close>

datatype ('e, 'p) outcome = Exit 'e | Panic 'p

fun Outcome_fmt :: "('e, 'p) outcome \<Rightarrow> string" where
  "Outcome_fmt (Exit e) = ''ActorOutcome::Exit''"
| "Outcome_fmt (Panic p) = ''ActorOutcome::Panic''"

fun outcome_eq :: "('e \<Rightarrow> 'e \<Rightarrow> bool) \<Rightarrow> ('p \<Rightarrow> 'p \<Rightarrow> bool) \<Rightarrow>
  ('e, 'p) outcome \<Rightarrow> ('e, 'p) outcome \<Rightarrow> bool" where
  "outcome_eq eq_e eq_p (Exit a) (Exit b) = eq_e a b"
| "outcome_eq eq_e eq_p (Panic a) (Panic b) = eq_p a b"
| "outcome_eq eq_e eq_p _ _ = False"

text \<open>
  A task ends with the result of the actor's event loop (\<open>Inr\<close> the exit value, \<open>Inl\<close> the panic
  handler's value), or with tokio's \<open>JoinError\<close> when it panicked.
\<close>

datatype join_error = Join_Error string

type_synonym ('e, 'p) task_result = "join_error + ('p + 'e)"

text \<open>
  \<open>ExitHandle::poll\<close> on what polling the join handle gives; the outer \<open>Inl\<close> is the panic of
  \<open>unreachable!\<close>.
\<close>

fun ExitHandle_poll :: "('e, 'p) task_result poll \<Rightarrow> string + ('e, 'p) outcome poll" where
  "ExitHandle_poll Pending = Inr Pending"
| "ExitHandle_poll (Ready (Inr (Inr e))) = Inr (Ready (Exit e))"
| "ExitHandle_poll (Ready (Inr (Inl p))) = Inr (Ready (Panic p))"
| "ExitHandle_poll (Ready (Inl err)) = Inl ''Task for actor aborted with error - this is a bug''"

definition ExitHandle_fmt :: "('e, 'p) task_result poll \<Rightarrow> string" where
  "ExitHandle_fmt h = ''ExitHandle''"

record ('e, 'p) actor_handles =
  message_handle :: shell_ref
  join_handle :: "('e, 'p) task_result poll"

definition ActorHandles_new :: "shell_ref \<Rightarrow> ('e, 'p) task_result poll \<Rightarrow> ('e, 'p) actor_handles" where
  "ActorHandles_new actor handle = \<lparr>message_handle = actor, join_handle = handle\<rparr>"

lemma is_running_handles: "is_running (Suc n) ctx \<longleftrightarrow> 0 < n \<and> running ctx"
  by (auto simp: is_running_def)

lemma outcome_eq_eq: "outcome_eq (=) (=) x y \<longleftrightarrow> x = y"
  by (cases x; cases y) auto

end
