(* ===== verification/Event_Loop.thy ===== *)
theory Event_Loop
  imports Runtime_Core Actor_Output
begin

text \<open>
  The task a generated \<open>start\<close> function spawns
  (\<open>shakespeare-macro/src/outputs/actor/spawning\_function.rs\<close>, the template in lines 87-149):
  first the linking of the names of a \<open>StartImpl\<close>, then the steps of the task and of the clients around it.
  Every read of shared state is a step of its own, so that clients can act between two of
  them.
\<close>

section \<open>Linking a start function\<close>

text \<open>
  The program of an event loop: how many queues there are, for each branch of the \<open>select!\<close>
  the queue it receives from and the method it calls, and the two hooks.
\<close>

record loop_program =
  lp_queues :: nat
  lp_branches :: "(nat \<times> ident) list"
  lp_panic_hook :: hook_expr
  lp_exit_hook :: hook_expr

fun index_of :: "'a \<Rightarrow> 'a list \<Rightarrow> nat option" where
  "index_of x [] = None"
| "index_of x (y # ys) = (if x = y then Some 0 else map_option Suc (index_of x ys))"

text \<open>
  The names in the branches are the bindings of the queue constructions. Two bindings of one
  name shadow each other: the later one is meant.
\<close>

definition link_branch :: "queue_construction list \<Rightarrow> select_branch \<Rightarrow> (nat \<times> ident) option" where
  "link_branch qs b =
     map_option (\<lambda>i. (length qs - Suc i, sb_handler b)) (index_of (sb_output b) (rev (map qc_output qs)))"

definition link_start :: "start_impl \<Rightarrow> loop_program option" where
  "link_start si =
     map_option (\<lambda>bs. \<lparr>lp_queues = length (si_queues si), lp_branches = bs,
         lp_panic_hook = si_panic_hook si, lp_exit_hook = si_exit_hook si\<rparr>)
       (those (map (link_branch (si_queues si)) (si_branches si)))"

section \<open>The state of a task\<close>

text \<open>Milliseconds.\<close>

definition IDLE_TIMEOUT :: nat where
  "IDLE_TIMEOUT = 1000"

text \<open>What a hook hands back, or what stands in its place when there is none.\<close>

datatype 'v hook_value = Hook_Value 'v | Unit_Value | Panic_Value 'v

text \<open>
  Where the task is. \<open>Checking bs\<close>: the preconditions of the first branches are \<open>bs\<close>.
  \<open>Found_Empty bs\<close>: the next branch's queue was empty, \<open>is_running\<close> comes next.
  \<open>Selecting bs timer\<close>: waiting on the enabled branches and, if \<open>timer\<close>, on the timer.
  \<open>Handling\<close>: inside a message handler. \<open>Responding\<close>: sending the return value on.
  \<open>Broken\<close>: the loop is left. \<open>Unwound\<close>: a panic was caught. \<open>Finished\<close>: the task is over.
\<close>

datatype 'v phase =
    Starting
  | Checking "bool list"
  | Found_Empty "bool list"
  | Selecting "bool list" bool
  | Timer_Arm
  | Handling ident "'v return_envelope"
  | Responding "'v return_path" 'v
  | Broken
  | Unwound 'v
  | Finished "('v hook_value, 'v hook_value) task_result"

text \<open>\<open>handles\<close> are the references to the shell outside the task's own context.\<close>

record ('s, 'q, 'v) task =
  state :: 's
  queues :: "'q list"
  actor_ctx :: actor_context
  handles :: nat
  now :: nat
  deadline :: nat
  phase :: "'v phase"

definition start_task ::
  "loop_program \<Rightarrow> ('q, 'v return_envelope) channel \<Rightarrow> shell_ref \<Rightarrow> 's \<Rightarrow> nat \<Rightarrow> ('s, 'q, 'v) task" where
  "start_task P C shell s time =
     \<lparr>state = s, queues = replicate (lp_queues P) (ch_new C), actor_ctx = Context_new shell,
      handles = 1, now = time, deadline = 0, phase = Starting\<rparr>"

fun is_finished :: "'v phase \<Rightarrow> bool" where
  "is_finished (Finished r) = True"
| "is_finished _ = False"

text \<open>The context holds a reference until the task is over.\<close>

definition strong_count :: "('s, 'q, 'v) task \<Rightarrow> nat" where
  "strong_count t = handles t + (if is_finished (phase t) then 0 else 1)"

definition task_running :: "('s, 'q, 'v) task \<Rightarrow> bool" where
  "task_running t = is_running (strong_count t) (actor_ctx t)"

text \<open>The futures of the \<open>select!\<close> are polled, unless every branch is disabled: then \<open>else\<close>.\<close>

definition select_phase :: "bool list \<Rightarrow> bool \<Rightarrow> 'v phase" where
  "select_phase bs timer = (if timer \<or> True \<in> set bs then Selecting bs timer else Broken)"

section \<open>Hooks\<close>

text \<open>The values the hook expression can have, given the value it is passed.\<close>

definition hook_returns :: "hook_expr \<Rightarrow> 'v hook_value \<Rightarrow> 'v hook_value \<Rightarrow> bool" where
  "hook_returns h otherwise out =
     (case h of No_Hook \<Rightarrow> out = otherwise | Call_Hook f \<Rightarrow> (\<exists>v. out = Hook_Value v))"

text \<open>Only a function can panic.\<close>

definition hook_panics :: "hook_expr \<Rightarrow> bool" where
  "hook_panics h = (case h of No_Hook \<Rightarrow> False | Call_Hook f \<Rightarrow> True)"

section \<open>Events\<close>

text \<open>
  Events of the clients, with the message a failed send hands back; then events of the task.
  What handlers and hooks do is not known: their events carry the outcome. A handler's
  events are the calls it makes on its context, and its end.
\<close>

datatype ('s, 'v) event =
    Clone_Handle
  | Drop_Handle
  | Send nat "'v return_envelope"
  | Send_Failed nat "'v return_envelope"
  | Tick nat
  | Start
  | Read_Empty
  | Read_Running
  | Read_Timer
  | Receive nat ident "'v return_envelope"
  | Poll_Pending nat
  | Recv_Closed nat
  | Timer_Elapsed
  | Timer_Check
  | Handler_Stop
  | Handler_Get_Shell
  | Handler_Return 's 'v
  | Handler_Panic 's 'v
  | Respond "'v effect list"
  | Respond_Panic 'v
  | Exit_Hook 's "'v hook_value"
  | Panic_Hook 's "'v hook_value"
  | Hook_Panic string

definition client_event :: "('s, 'v) event \<Rightarrow> bool" where
  "client_event e =
     (case e of Clone_Handle \<Rightarrow> True | Drop_Handle \<Rightarrow> True | Send i m \<Rightarrow> True
      | Send_Failed i m \<Rightarrow> True | Tick d \<Rightarrow> True | _ \<Rightarrow> False)"

section \<open>Steps\<close>

text \<open>The task is over: its result is stored, its receivers and its context are dropped.\<close>

definition finish_task ::
  "('q, 'v return_envelope) channel \<Rightarrow> ('v hook_value, 'v hook_value) task_result \<Rightarrow>
     ('s, 'q, 'v) task \<Rightarrow> ('s, 'q, 'v) task" where
  "finish_task C r t = t\<lparr>queues := map (ch_drop_receiver C) (queues t), phase := Finished r\<rparr>"

inductive step ::
  "loop_program \<Rightarrow> ('q, 'v return_envelope) channel \<Rightarrow> ('s, 'q, 'v) task \<Rightarrow> ('s, 'v) event \<Rightarrow>
     ('s, 'q, 'v) task \<Rightarrow> bool"
  for P :: loop_program and C :: "('q, 'v return_envelope) channel"
where
  clone_handle: "0 < handles t \<Longrightarrow> step P C t Clone_Handle (t\<lparr>handles := handles t + 1\<rparr>)"
| drop_handle: "0 < handles t \<Longrightarrow> step P C t Drop_Handle (t\<lparr>handles := handles t - 1\<rparr>)"
| send: "0 < handles t \<Longrightarrow> i < length (queues t) \<Longrightarrow> ch_send C m (queues t ! i) = (q, Inr ()) \<Longrightarrow>
    step P C t (Send i m) (t\<lparr>queues := (queues t)[i := q]\<rparr>)"
| send_failed: "0 < handles t \<Longrightarrow> i < length (queues t) \<Longrightarrow> ch_send C m (queues t ! i) = (q, Inl m') \<Longrightarrow>
    step P C t (Send_Failed i m') (t\<lparr>queues := (queues t)[i := q]\<rparr>)"
| tick: "step P C t (Tick d) (t\<lparr>now := now t + d\<rparr>)"
| start: "phase t = Starting \<Longrightarrow>
    step P C t Start (t\<lparr>deadline := now t + IDLE_TIMEOUT, phase := Checking []\<rparr>)"
| read_empty: "phase t = Checking bs \<Longrightarrow> length bs < length (lp_branches P) \<Longrightarrow>
    step P C t Read_Empty
      (t\<lparr>phase := (if ch_is_empty C (queues t ! fst (lp_branches P ! length bs))
                   then Found_Empty bs else Checking (bs @ [True]))\<rparr>)"
| read_running: "phase t = Found_Empty bs \<Longrightarrow>
    step P C t Read_Running (t\<lparr>phase := Checking (bs @ [task_running t])\<rparr>)"
| read_timer: "phase t = Checking bs \<Longrightarrow> length bs = length (lp_branches P) \<Longrightarrow>
    step P C t Read_Timer (t\<lparr>phase := select_phase bs (task_running t)\<rparr>)"
| receive: "phase t = Selecting bs timer \<Longrightarrow> i < length bs \<Longrightarrow> bs ! i \<Longrightarrow> lp_branches P ! i = (k, f) \<Longrightarrow>
    ch_recv C (queues t ! k) = (q, Ready (Some m)) \<Longrightarrow>
    step P C t (Receive k f m)
      (t\<lparr>queues := (queues t)[k := q], deadline := now t + IDLE_TIMEOUT, phase := Handling f m\<rparr>)"
| poll_pending: "phase t = Selecting bs timer \<Longrightarrow> i < length bs \<Longrightarrow> bs ! i \<Longrightarrow> lp_branches P ! i = (k, f) \<Longrightarrow>
    ch_recv C (queues t ! k) = (q, Pending) \<Longrightarrow>
    step P C t (Poll_Pending k) (t\<lparr>queues := (queues t)[k := q]\<rparr>)"
| recv_closed: "phase t = Selecting bs timer \<Longrightarrow> i < length bs \<Longrightarrow> bs ! i \<Longrightarrow> lp_branches P ! i = (k, f) \<Longrightarrow>
    ch_recv C (queues t ! k) = (q, Ready None) \<Longrightarrow>
    step P C t (Recv_Closed k)
      (t\<lparr>queues := (queues t)[k := q], phase := select_phase (bs[i := False]) timer\<rparr>)"
| timer_elapsed: "phase t = Selecting bs True \<Longrightarrow> deadline t \<le> now t \<Longrightarrow>
    step P C t Timer_Elapsed (t\<lparr>phase := Timer_Arm\<rparr>)"
| timer_check: "phase t = Timer_Arm \<Longrightarrow>
    step P C t Timer_Check
      (if task_running t then t\<lparr>deadline := now t + IDLE_TIMEOUT, phase := Checking []\<rparr>
       else t\<lparr>phase := Broken\<rparr>)"
| handler_stop: "phase t = Handling f m \<Longrightarrow>
    step P C t Handler_Stop (t\<lparr>actor_ctx := context_stop (actor_ctx t)\<rparr>)"
| handler_get_shell: "phase t = Handling f m \<Longrightarrow>
    step P C t Handler_Get_Shell (t\<lparr>handles := snd (get_shell (handles t) (actor_ctx t))\<rparr>)"
| handler_return: "phase t = Handling f m \<Longrightarrow>
    step P C t (Handler_Return s v) (t\<lparr>state := s, phase := Responding (return_path m) v\<rparr>)"
| handler_panic: "phase t = Handling f m \<Longrightarrow>
    step P C t (Handler_Panic s x) (t\<lparr>state := s, phase := Unwound x\<rparr>)"
| respond: "phase t = Responding p v \<Longrightarrow> ReturnPath_send p v = Inr effects \<Longrightarrow>
    step P C t (Respond effects) (t\<lparr>phase := Checking []\<rparr>)"
| respond_panic: "phase t = Responding p v \<Longrightarrow> ReturnPath_send p v = Inl e \<Longrightarrow>
    step P C t (Respond_Panic x) (t\<lparr>phase := Unwound x\<rparr>)"
| exit_hook: "phase t = Broken \<Longrightarrow> hook_returns (lp_exit_hook P) Unit_Value out \<Longrightarrow>
    step P C t (Exit_Hook (state t) out) (finish_task C (Inr (Inr out)) t)"
| panic_hook: "phase t = Unwound x \<Longrightarrow> hook_returns (lp_panic_hook P) (Panic_Value x) out \<Longrightarrow>
    step P C t (Panic_Hook (state t) out) (finish_task C (Inr (Inl out)) t)"
| exit_hook_panic: "phase t = Broken \<Longrightarrow> hook_panics (lp_exit_hook P) \<Longrightarrow>
    step P C t (Hook_Panic e) (finish_task C (Inl (Join_Error e)) t)"
| panic_hook_panic: "phase t = Unwound x \<Longrightarrow> hook_panics (lp_panic_hook P) \<Longrightarrow>
    step P C t (Hook_Panic e) (finish_task C (Inl (Join_Error e)) t)"

text \<open>What each event takes and does.\<close>

inductive_simps step_simps:
  "step P C t Clone_Handle t'"
  "step P C t Drop_Handle t'"
  "step P C t (Send i m) t'"
  "step P C t (Send_Failed i m) t'"
  "step P C t (Tick d) t'"
  "step P C t Start t'"
  "step P C t Read_Empty t'"
  "step P C t Read_Running t'"
  "step P C t Read_Timer t'"
  "step P C t (Receive k f m) t'"
  "step P C t (Poll_Pending k) t'"
  "step P C t (Recv_Closed k) t'"
  "step P C t Timer_Elapsed t'"
  "step P C t Timer_Check t'"
  "step P C t Handler_Stop t'"
  "step P C t Handler_Get_Shell t'"
  "step P C t (Handler_Return s v) t'"
  "step P C t (Handler_Panic s x) t'"
  "step P C t (Respond effects) t'"
  "step P C t (Respond_Panic x) t'"
  "step P C t (Exit_Hook s out) t'"
  "step P C t (Panic_Hook s out) t'"
  "step P C t (Hook_Panic msg) t'"

section \<open>Runs\<close>

inductive steps ::
  "loop_program \<Rightarrow> ('q, 'v return_envelope) channel \<Rightarrow> ('s, 'q, 'v) task \<Rightarrow> ('s, 'v) event list \<Rightarrow>
     ('s, 'q, 'v) task \<Rightarrow> bool"
  for P :: loop_program and C :: "('q, 'v return_envelope) channel"
where
  steps_refl: "steps P C t [] t"
| steps_step: "steps P C t es t' \<Longrightarrow> step P C t' e t'' \<Longrightarrow> steps P C t (es @ [e]) t''"

inductive_simps steps_Nil [simp]: "steps P C t [] t'"

text \<open>The runs of a freshly started actor.\<close>

definition run ::
  "loop_program \<Rightarrow> ('q, 'v return_envelope) channel \<Rightarrow> ('s, 'v) event list \<Rightarrow> ('s, 'q, 'v) task \<Rightarrow> bool" where
  "run P C es t \<longleftrightarrow> (\<exists>shell s time. steps P C (start_task P C shell s time) es t)"

end
