(* ===== verification/Loop_Invariants.thy ===== *)
theory Loop_Invariants
  imports Event_Loop
begin

text \<open>
  Invariants of the event loop, for every channel with the laws of \<open>role_channel\<close>: the queues
  and what was sent and received, the preconditions of the \<open>select!\<close> and what they still
  say when it waits, handlers and the answers they give, the end of the task.
\<close>

section \<open>What a run sent, received and answered\<close>

fun sent_to :: "nat \<Rightarrow> ('s, 'v) event \<Rightarrow> 'v return_envelope option" where
  "sent_to k (Send i m) = (if i = k then Some m else None)"
| "sent_to k _ = None"

fun received_from :: "nat \<Rightarrow> ('s, 'v) event \<Rightarrow> 'v return_envelope option" where
  "received_from k (Receive i f m) = (if i = k then Some m else None)"
| "received_from k _ = None"

fun handled :: "('s, 'v) event \<Rightarrow> 'v return_envelope option" where
  "handled (Receive i f m) = Some m"
| "handled _ = None"

fun returned :: "('s, 'v) event \<Rightarrow> 'v option" where
  "returned (Handler_Return s v) = Some v"
| "returned _ = None"

fun responded :: "('s, 'v) event \<Rightarrow> 'v effect list option" where
  "responded (Respond effects) = Some effects"
| "responded _ = None"

fun panicked :: "('s, 'v) event \<Rightarrow> 'v option" where
  "panicked (Handler_Panic s x) = Some x"
| "panicked (Respond_Panic x) = Some x"
| "panicked _ = None"

fun hook_run :: "('s, 'v) event \<Rightarrow> ('s, 'v) event option" where
  "hook_run (Exit_Hook s out) = Some (Exit_Hook s out)"
| "hook_run (Panic_Hook s out) = Some (Panic_Hook s out)"
| "hook_run (Hook_Panic e) = Some (Hook_Panic e)"
| "hook_run _ = None"

fun stopped :: "('s, 'v) event \<Rightarrow> unit option" where
  "stopped Handler_Stop = Some ()"
| "stopped _ = None"

text \<open>The messages a run sent to a queue, and received from it, in order.\<close>

definition sent :: "nat \<Rightarrow> ('s, 'v) event list \<Rightarrow> 'v return_envelope list" where
  "sent k es = filter_unwrap (sent_to k) es"

definition received :: "nat \<Rightarrow> ('s, 'v) event list \<Rightarrow> 'v return_envelope list" where
  "received k es = filter_unwrap (received_from k) es"

lemma sent_snoc [simp]:
  "sent k [] = []" "sent k (es @ [e]) = sent k es @ (case sent_to k e of None \<Rightarrow> [] | Some m \<Rightarrow> [m])"
  by (simp_all add: sent_def split: option.splits)

lemma received_snoc [simp]:
  "received k [] = []"
  "received k (es @ [e]) = received k es @ (case received_from k e of None \<Rightarrow> [] | Some m \<Rightarrow> [m])"
  by (simp_all add: received_def split: option.splits)

section \<open>Programs\<close>

text \<open>Every branch reads a queue of the program, and every queue is read by a branch.\<close>

definition program_ok :: "loop_program \<Rightarrow> bool" where
  "program_ok P \<longleftrightarrow> fst ` set (lp_branches P) = {..<lp_queues P} \<and> 0 < lp_queues P"

lemma program_okD:
  assumes "program_ok P"
  shows "i < length (lp_branches P) \<Longrightarrow> fst (lp_branches P ! i) < lp_queues P"
    and "k < lp_queues P \<Longrightarrow> \<exists>i<length (lp_branches P). fst (lp_branches P ! i) = k"
    and "0 < length (lp_branches P)"
proof -
  have img: "fst ` set (lp_branches P) = {..<lp_queues P}"
    using assms by (simp add: program_ok_def)
  show "fst (lp_branches P ! i) < lp_queues P" if "i < length (lp_branches P)"
    using img nth_mem [OF that] by blast
  show "\<exists>i<length (lp_branches P). fst (lp_branches P ! i) = k" if "k < lp_queues P"
  proof -
    from that img have "k \<in> fst ` set (lp_branches P)" by simp
    then show ?thesis by (metis imageE in_set_conv_nth)
  qed
  show "0 < length (lp_branches P)"
    using img assms by (cases "lp_branches P") (auto simp: program_ok_def)
qed

section \<open>Runs, step by step\<close>

lemma run_induct [consumes 1, case_names start step]:
  assumes "run P C es t"
    and "\<And>shell s time. Q [] (start_task P C shell s time)"
    and "\<And>es t e t'. run P C es t \<Longrightarrow> Q es t \<Longrightarrow> step P C t e t' \<Longrightarrow> Q (es @ [e]) t'"
  shows "Q es t"
proof -
  from assms(1) obtain shell s time where "steps P C (start_task P C shell s time) es t"
    by (auto simp: run_def)
  then show ?thesis
  proof (induction "start_task P C shell s time" es t rule: steps.induct)
    case steps_refl
    show ?case by (rule assms(2))
  next
    case (steps_step es t e t')
    show ?case by (rule assms(3)) (use steps_step in \<open>auto simp: run_def\<close>)
  qed
qed

lemma run_snoc: "run P C es t \<Longrightarrow> step P C t e t' \<Longrightarrow> run P C (es @ [e]) t'"
  by (auto simp: run_def intro: steps_step)

lemma run_Nil: "run P C [] (start_task P C shell s time)"
  by (auto simp: run_def)

section \<open>Queues\<close>

text \<open>What the operations leave alone.\<close>

lemma strong_count_alive: "\<not> is_finished (phase t) \<Longrightarrow> strong_count t = Suc (handles t)"
  by (simp add: strong_count_def)

lemma task_running_alive: "\<not> is_finished (phase t) \<Longrightarrow> task_running t \<longleftrightarrow> 0 < handles t \<and> running (actor_ctx t)"
  by (simp add: task_running_def strong_count_alive is_running_handles)

lemma select_phase_not_finished [simp]: "\<not> is_finished (select_phase bs timer)"
  by (simp add: select_phase_def)

text \<open>How far the preconditions have been read.\<close>

fun phase_ok :: "nat \<Rightarrow> 'v phase \<Rightarrow> bool" where
  "phase_ok n (Checking bs) = (length bs \<le> n)"
| "phase_ok n (Found_Empty bs) = (length bs < n)"
| "phase_ok n (Selecting bs timer) = (length bs = n \<and> (timer \<or> True \<in> set bs))"
| "phase_ok n _ = True"

lemma phase_ok_select [simp]: "phase_ok n (select_phase bs timer) \<longleftrightarrow> length bs = n \<or> \<not> (timer \<or> True \<in> set bs)"
  by (simp add: select_phase_def)

lemma run_phase:
  assumes "run P C es t"
  shows "phase_ok (length (lp_branches P)) (phase t)"
  using assms
proof (induction rule: run_induct)
  case (step es t e t')
  then show ?case
    by (cases e) (auto simp: step_simps finish_task_def)
qed (simp add: start_task_def)

text \<open>The event loop of a program, over a channel with the laws.\<close>

locale event_loop = role_channel C contents receiving connected
  for C :: "('q, 'v return_envelope) channel"
    and contents :: "'q \<Rightarrow> 'v return_envelope list"
    and receiving :: "'q \<Rightarrow> bool"
    and connected :: "'q \<Rightarrow> bool" +
  fixes P :: loop_program
  assumes program_ok: "program_ok P"
begin

text \<open>
  While the task is alive its receivers are, and the senders too, since the context holds
  the shell; when it is over the queues are closed.
\<close>

definition queue_ok :: "bool \<Rightarrow> 'q \<Rightarrow> bool" where
  "queue_ok finished q \<longleftrightarrow>
     (if finished then \<not> receiving q \<and> contents q = [] else receiving q \<and> connected q)"

lemma queue_ok_new: "queue_ok False (ch_new C)"
  by (simp add: queue_ok_def new_state)

lemma queue_ok_send: "queue_ok fin q \<Longrightarrow> ch_send C m q = (q', r) \<Longrightarrow> queue_ok fin q'"
  using send_result [of m q q' r] by (auto simp: queue_ok_def split: if_splits)

lemma queue_ok_recv: "queue_ok False q \<Longrightarrow> ch_recv C q = (q', r) \<Longrightarrow> queue_ok False q'"
  using recv_result [of q q' r] by (auto simp: queue_ok_def)

lemma queue_ok_drop: "queue_ok True (ch_drop_receiver C q)"
  by (simp add: queue_ok_def drop_receiver)

lemma run_queues:
  assumes "run P C es t"
  shows "length (queues t) = lp_queues P \<and> (\<forall>i<lp_queues P. queue_ok (is_finished (phase t)) (queues t ! i))"
  using assms
proof (induction rule: run_induct)
  case (start shell s time)
  show ?case by (simp add: start_task_def queue_ok_new)
next
  case (step es t e t')
  have upd: "length ((queues t)[i := q]) = lp_queues P \<and>
      (\<forall>j<lp_queues P. queue_ok (is_finished (phase t)) ((queues t)[i := q] ! j))"
    if "queue_ok (is_finished (phase t)) q" for i q
    using step.IH that by (cases "i < lp_queues P") (auto simp: nth_list_update)
  have recv: "queue_ok False q" if "i < length bs" "\<not> is_finished (phase t)"
    "ch_recv C (queues t ! k) = (q, r)" "lp_branches P ! i = (k, f)" "length bs = length (lp_branches P)" for i bs q r k f
    using queue_ok_recv [OF _ that(3)] that(1,2,4,5) step.IH program_okD(1) [OF program_ok, of i] by auto
  note phase = run_phase [OF step.hyps(1)]
  show ?case
  proof (cases e)
    case (Send i m)
    with step.hyps(2) step.IH upd queue_ok_send show ?thesis
      by (auto simp: step_simps)
  next
    case (Send_Failed i m)
    with step.hyps(2) step.IH upd queue_ok_send show ?thesis
      by (auto simp: step_simps)
  next
    case (Receive k f m)
    with step.hyps(2) phase recv upd show ?thesis by (fastforce simp: step_simps)
  next
    case (Poll_Pending k)
    with step.hyps(2) phase recv upd show ?thesis by (fastforce simp: step_simps)
  next
    case (Recv_Closed k)
    with step.hyps(2) phase recv upd show ?thesis by (fastforce simp: step_simps)
  qed (use step.IH step.hyps(2) queue_ok_drop in \<open>auto simp: step_simps finish_task_def split: if_splits\<close>)
qed

text \<open>What a poll of a receiver does to its queue; it never finds the channel closed.\<close>

lemma polled_queue:
  assumes "run P C es t" and "phase t = Selecting bs timer" and "i < length bs"
    and "lp_branches P ! i = (k, f)" and "ch_recv C (queues t ! k) = (q, r)"
  shows "k < lp_queues P \<and> (case r of Ready (Some m) \<Rightarrow> contents (queues t ! k) = m # contents q
    | Ready None \<Rightarrow> False | Pending \<Rightarrow> contents q = contents (queues t ! k))"
proof -
  have "i < length (lp_branches P)"
    using run_phase [OF assms(1)] assms(2,3) by simp
  then have "k < lp_queues P" using program_okD(1) [OF program_ok, of i] assms(4) by simp
  moreover from this have "queue_ok False (queues t ! k)" using run_queues [OF assms(1)] assms(2) by simp
  ultimately show ?thesis using recv_result [OF _ assms(5)] by (auto simp: queue_ok_def)
qed

lemma never_closed:
  assumes "run P C es t"
  shows "\<not> step P C t (Recv_Closed k) t'"
  using polled_queue [OF assms] by (fastforce simp: step_simps)

lemma step_Receive:
  assumes "run P C es t" and "step P C t (Receive k f m) t'"
  shows "\<exists>q bs timer. phase t = Selecting bs timer \<and> k < lp_queues P \<and> (k, f) \<in> set (lp_branches P) \<and>
    phase t' = Handling f m \<and> queues t' = (queues t)[k := q] \<and> contents (queues t ! k) = m # contents q"
proof -
  from assms(2) obtain bs timer i q where i: "phase t = Selecting bs timer" "i < length bs"
    "lp_branches P ! i = (k, f)" "ch_recv C (queues t ! k) = (q, Ready (Some m))"
    and t': "phase t' = Handling f m" "queues t' = (queues t)[k := q]"
    by (auto simp: step_simps)
  have "(k, f) \<in> set (lp_branches P)"
    using i(1,2,3) run_phase [OF assms(1)] nth_mem [of i "lp_branches P"] by simp
  with polled_queue [OF assms(1) i] i(1) t' show ?thesis by auto
qed

lemma step_Poll_Pending:
  assumes "run P C es t" and "step P C t (Poll_Pending k) t'"
  shows "\<exists>q. phase t' = phase t \<and> queues t' = (queues t)[k := q] \<and> contents q = contents (queues t ! k)"
proof -
  from assms(2) obtain bs timer i q f where i: "phase t = Selecting bs timer" "i < length bs"
    "lp_branches P ! i = (k, f)" "ch_recv C (queues t ! k) = (q, Pending)"
    and t': "phase t' = phase t" "queues t' = (queues t)[k := q]"
    by (auto simp: step_simps)
  with polled_queue [OF assms(1) i] show ?thesis by auto
qed

lemma step_Send:
  assumes "run P C es t" and "step P C t (Send k m) t'"
  shows "\<exists>q. \<not> is_finished (phase t) \<and> k < lp_queues P \<and> phase t' = phase t \<and>
    queues t' = (queues t)[k := q] \<and> contents q = contents (queues t ! k) @ [m]"
proof -
  from assms(2) obtain q where q: "ch_send C m (queues t ! k) = (q, Inr ())" "k < length (queues t)"
    "t' = t\<lparr>queues := (queues t)[k := q]\<rparr>" by (auto simp: step_simps)
  with run_queues [OF assms(1)] have "queue_ok (is_finished (phase t)) (queues t ! k)" "k < lp_queues P" by auto
  with q send_result [OF q(1)] show ?thesis by (auto simp: queue_ok_def split: if_splits)
qed

lemma step_Send_Failed:
  assumes "run P C es t" and "step P C t (Send_Failed k m) t'"
  shows "is_finished (phase t) \<and> t' = t"
proof -
  from assms(2) obtain q m' where q: "ch_send C m' (queues t ! k) = (q, Inl m)" "k < length (queues t)"
    "t' = t\<lparr>queues := (queues t)[k := q]\<rparr>" by (auto simp: step_simps)
  with run_queues [OF assms(1)] have "queue_ok (is_finished (phase t)) (queues t ! k)" by auto
  with q send_result [OF q(1)] show ?thesis by (auto simp: queue_ok_def split: if_splits)
qed

text \<open>Every other event leaves the queues, or closes them all.\<close>

lemma step_other_queues:
  assumes "step P C t e t'" and "\<And>k m. e \<noteq> Send k m" and "\<And>k m. e \<noteq> Send_Failed k m"
    and "\<And>k f m. e \<noteq> Receive k f m" and "\<And>k. e \<noteq> Poll_Pending k" and "\<And>k. e \<noteq> Recv_Closed k"
  shows "if is_finished (phase t') then is_finished (phase t) \<and> queues t' = queues t \<or>
      \<not> is_finished (phase t) \<and> queues t' = map (ch_drop_receiver C) (queues t)
    else \<not> is_finished (phase t) \<and> queues t' = queues t"
  using assms by (cases e) (auto simp: step_simps finish_task_def split: if_splits)

text \<open>No message is lost, doubled or overtaken by one of its own role while the task is alive.\<close>

lemma run_fifo:
  assumes "run P C es t" and "k < lp_queues P"
  shows "if is_finished (phase t) then \<exists>lost. sent k es = received k es @ lost
    else sent k es = received k es @ contents (queues t ! k)"
  using assms(1)
proof (induction rule: run_induct)
  case (start shell s time)
  show ?case using assms(2) by (simp add: start_task_def new_state)
next
  case (step es t e t')
  note run = step.hyps(1) and IH = step.IH
  have len: "length (queues t) = lp_queues P" using run_queues [OF run] by simp
  show ?case
  proof (cases e)
    case (Send j m)
    with step_Send [OF run, of j m t'] step.hyps(2) IH len show ?thesis
      by (cases "j = k") (auto split: if_splits)
  next
    case (Send_Failed j m)
    with step_Send_Failed [OF run, of j m t'] step.hyps(2) IH show ?thesis by auto
  next
    case (Receive j f m)
    with step_Receive [OF run, of j f m t'] step.hyps(2) IH len show ?thesis
      by (cases "j = k") auto
  next
    case (Poll_Pending j)
    with step_Poll_Pending [OF run, of j t'] step.hyps(2) IH len assms(2) show ?thesis
      by (cases "j = k") (auto split: if_splits)
  next
    case (Recv_Closed j)
    with never_closed [OF run] step.hyps(2) show ?thesis by blast
  qed (use IH step_other_queues [OF step.hyps(2)] in \<open>auto split: if_splits\<close>)
qed

end

end
