(* ===== verification/Loop_Traces.thy ===== *)
theory Loop_Traces
  imports Loop_Invariants
begin

text \<open>
  Invariants of runs of the event loop's task: what the preconditions read by the
  \<open>select!\<close> still say later, how handlers, return values and answers line up, how a task
  ends, and when its timer fires.
\<close>

section \<open>Preconditions\<close>

text \<open>The preconditions read so far.\<close>

fun guards :: "'v phase \<Rightarrow> bool list" where
  "guards (Checking bs) = bs"
| "guards (Found_Empty bs) = bs"
| "guards (Selecting bs timer) = bs"
| "guards _ = []"

text \<open>
  A disabled branch means that the actor was not running, and then it never runs again before
  the next handler; the timer's precondition says the same; a loop that is left was not
  running.
\<close>

fun shut :: "'v phase \<Rightarrow> bool" where
  "shut (Checking bs) = (False \<in> set bs)"
| "shut (Found_Empty bs) = (False \<in> set bs)"
| "shut (Selecting bs timer) = (False \<in> set bs \<or> \<not> timer)"
| "shut Broken = True"
| "shut (Finished (Inr (Inr out))) = True"
| "shut _ = False"

lemma shut_select [simp]: "shut (select_phase bs timer) \<longleftrightarrow> False \<in> set bs \<or> \<not> timer"
  by (auto simp: select_phase_def)

definition stays_open :: "('s, 'q, 'v) task \<Rightarrow> bool" where
  "stays_open t \<longleftrightarrow> 0 < handles t \<and> running (actor_ctx t)"

context event_loop
begin

lemma run_shut:
  assumes "run P C es t" and "shut (phase t)"
  shows "\<not> stays_open t"
  using assms
proof (induction rule: run_induct)
  case (step es t e t')
  show ?case
  proof (cases e)
    case (Recv_Closed k)
    then show ?thesis using never_closed [OF step.hyps(1)] step.hyps(2) by blast
  qed (use step in \<open>auto simp: step_simps stays_open_def finish_task_def task_running_alive get_shell_def
        context_stop_def split: if_splits\<close>)
qed (simp add: start_task_def)

text \<open>An enabled branch of a stopped actor has a message waiting.\<close>

lemma run_enabled:
  assumes "run P C es t"
  shows "\<forall>i<length (guards (phase t)). guards (phase t) ! i \<longrightarrow>
    running (actor_ctx t) \<or> contents (queues t ! fst (lp_branches P ! i)) \<noteq> []"
  using assms
proof (induction rule: run_induct)
  case (start shell s time)
  show ?case by (simp add: start_task_def)
next
  case (step es t e t')
  note run = step.hyps(1) and IH = step.IH and len = run_queues [OF step.hyps(1)]
  show ?case
  proof (cases e)
    case (Send j m)
    with step_Send [OF run, of j m t'] step.hyps(2) IH len show ?thesis
      by (auto simp: step_simps nth_list_update split: if_splits)
  next
    case (Poll_Pending j)
    with step_Poll_Pending [OF run, of j t'] step.hyps(2) obtain q where
      q: "phase t' = phase t" "queues t' = (queues t)[j := q]" "contents q = contents (queues t ! j)" by auto
    have "actor_ctx t' = actor_ctx t" using Poll_Pending step.hyps(2) by (auto simp: step_simps)
    moreover have "contents (queues t' ! k) = contents (queues t ! k)" for k
      unfolding q(2) using q(3) by (cases "j < length (queues t)") (auto simp: nth_list_update list_update_beyond)
    ultimately show ?thesis using IH q(1) by simp
  next
    case (Send_Failed j m)
    with step_Send_Failed [OF run, of j m t'] step.hyps(2) IH show ?thesis by simp
  next
    case (Recv_Closed k)
    then show ?thesis using never_closed [OF run] step.hyps(2) by blast
  qed (use IH step.hyps(2) in \<open>auto simp: step_simps finish_task_def is_empty nth_append less_Suc_eq
      task_running_alive select_phase_def split: if_splits\<close>)
qed

end

text \<open>While the timer is armed the actor has not been stopped.\<close>

fun timer_armed :: "'v phase \<Rightarrow> bool" where
  "timer_armed (Selecting bs timer) = timer"
| "timer_armed Timer_Arm = True"
| "timer_armed _ = False"

lemma timer_armed_select [simp]: "timer_armed (select_phase bs timer) \<longleftrightarrow> timer"
  by (simp add: select_phase_def)

lemma run_timer_armed:
  assumes "run P C es t" and "timer_armed (phase t)"
  shows "running (actor_ctx t)"
  using assms
proof (induction rule: run_induct)
  case (step es t e t')
  then show ?case
    by (cases e) (auto simp: step_simps finish_task_def task_running_alive split: if_splits)
qed (simp add: start_task_def)

text \<open>The timer is never set further ahead than the idle timeout.\<close>

lemma run_deadline:
  assumes "run P C es t"
  shows "deadline t \<le> now t + IDLE_TIMEOUT"
  using assms
proof (induction rule: run_induct)
  case (step es t e t')
  then show ?case
    by (cases e) (auto simp: step_simps finish_task_def split: if_splits)
qed (simp add: start_task_def)

text \<open>Only \<open>stop\<close> clears the context's flag.\<close>

lemma run_stopped:
  assumes "run P C es t"
  shows "running (actor_ctx t) \<longleftrightarrow> Handler_Stop \<notin> set es"
  using assms
proof (induction rule: run_induct)
  case (step es t e t')
  then show ?case
    by (cases e) (auto simp: step_simps finish_task_def context_stop_def)
qed (simp add: start_task_def Context_new_def)

section \<open>Handlers and answers\<close>

text \<open>
  The messages handled, the values returned and the answers given so far, in order: one
  message at a time, and each answer before the next message.
\<close>

fun answers_ok :: "'v phase \<Rightarrow> 'v return_envelope list \<Rightarrow> 'v list \<Rightarrow> 'v effect list list \<Rightarrow> bool" where
  "answers_ok (Handling f m) ms vs effs \<longleftrightarrow>
     (\<exists>before. ms = before @ [m] \<and> length before = length vs) \<and> length effs = length vs"
| "answers_ok (Responding p v) ms vs effs \<longleftrightarrow>
     (\<exists>before m vs'. ms = before @ [m] \<and> vs = vs' @ [v] \<and> p = return_path m \<and>
        length before = length vs' \<and> length effs = length vs')"
| "answers_ok (Unwound x) ms vs effs \<longleftrightarrow> length effs \<le> length vs \<and> length vs \<le> length ms \<and> length ms = Suc (length effs)"
| "answers_ok (Finished (Inr (Inr out))) ms vs effs \<longleftrightarrow> length effs = length vs \<and> length vs = length ms"
| "answers_ok (Finished r) ms vs effs \<longleftrightarrow> length effs \<le> length vs \<and> length vs \<le> length ms \<and> length ms \<le> Suc (length effs)"
| "answers_ok ph ms vs effs \<longleftrightarrow> length effs = length vs \<and> length vs = length ms"

definition answers_match :: "'v return_envelope list \<Rightarrow> 'v list \<Rightarrow> 'v effect list list \<Rightarrow> bool" where
  "answers_match ms vs effs \<longleftrightarrow>
     (\<forall>j<length effs. ReturnPath_send (return_path (ms ! j)) (vs ! j) = Inr (effs ! j))"

lemma answers_ok_lengths:
  "answers_ok ph ms vs effs \<Longrightarrow> length effs \<le> length vs \<and> length vs \<le> length ms \<and> length ms \<le> Suc (length effs)"
  by (cases "(ph, ms, vs, effs)" rule: answers_ok.cases) auto

lemma answers_ok_select [simp]:
  "answers_ok (select_phase bs timer) ms vs effs \<longleftrightarrow> length effs = length vs \<and> length vs = length ms"
  by (auto simp: select_phase_def)

lemma answers_match_grow:
  assumes "answers_match ms vs effs" and "length effs \<le> length vs" and "length vs \<le> length ms"
  shows "answers_match (ms @ ms') (vs @ vs') effs"
  using assms by (auto simp: answers_match_def nth_append)

lemma run_answers:
  assumes "run P C es t"
  shows "answers_ok (phase t) (filter_unwrap handled es) (filter_unwrap returned es) (filter_unwrap responded es) \<and>
    answers_match (filter_unwrap handled es) (filter_unwrap returned es) (filter_unwrap responded es)"
  using assms
proof (induction rule: run_induct)
  case (start shell s time)
  show ?case by (simp add: start_task_def answers_match_def)
next
  case (step es t e t')
  let ?ms = "filter_unwrap handled es" and ?vs = "filter_unwrap returned es" and ?effs = "filter_unwrap responded es"
  have lengths: "length ?effs \<le> length ?vs" "length ?vs \<le> length ?ms"
    using answers_ok_lengths step.IH by blast+
  note grow = answers_match_grow [OF _ lengths]
  show ?case
  proof (cases e)
    case (Receive k f m)
    with step.IH step.hyps(2) grow [of "[m]" "[]"] show ?thesis by (auto simp: step_simps)
  next
    case (Handler_Return s v)
    with step.IH step.hyps(2) grow [of "[]" "[v]"] show ?thesis by (auto simp: step_simps)
  next
    case (Respond effects)
    with step.IH step.hyps(2) show ?thesis
      by (auto simp: step_simps answers_match_def nth_append less_Suc_eq)
  qed (use step.IH step.hyps(2) in \<open>auto simp: step_simps finish_task_def split: if_splits\<close>)
qed

section \<open>The end of a task\<close>

text \<open>How the panics and the hooks of a run fit its phase.\<close>

fun ending_ok :: "loop_program \<Rightarrow> 's \<Rightarrow> 'v phase \<Rightarrow> 'v list \<Rightarrow> ('s, 'v) event list \<Rightarrow> bool" where
  "ending_ok P s (Unwound x) panics hooks \<longleftrightarrow> panics = [x] \<and> hooks = []"
| "ending_ok P s (Finished (Inr (Inr out))) panics hooks \<longleftrightarrow>
     panics = [] \<and> hooks = [Exit_Hook s out] \<and> hook_returns (lp_exit_hook P) Unit_Value out"
| "ending_ok P s (Finished (Inr (Inl out))) panics hooks \<longleftrightarrow>
     (\<exists>x. panics = [x] \<and> hooks = [Panic_Hook s out] \<and> hook_returns (lp_panic_hook P) (Panic_Value x) out)"
| "ending_ok P s (Finished (Inl (Join_Error msg))) panics hooks \<longleftrightarrow>
     hooks = [Hook_Panic msg] \<and>
     (panics = [] \<and> hook_panics (lp_exit_hook P) \<or> (\<exists>x. panics = [x]) \<and> hook_panics (lp_panic_hook P))"
| "ending_ok P s ph panics hooks \<longleftrightarrow> panics = [] \<and> hooks = []"

lemma ending_ok_select [simp]: "ending_ok P s (select_phase bs timer) panics hooks \<longleftrightarrow> panics = [] \<and> hooks = []"
  by (simp add: select_phase_def)

lemma run_ending:
  assumes "run P C es t"
  shows "ending_ok P (state t) (phase t) (filter_unwrap panicked es) (filter_unwrap hook_run es)"
  using assms
proof (induction rule: run_induct)
  case (step es t e t')
  then show ?case
    by (cases e) (auto simp: step_simps finish_task_def split: if_splits)
qed (simp add: start_task_def)

text \<open>Once the loop is left no message is received any more.\<close>

fun loop_left :: "'v phase \<Rightarrow> bool" where
  "loop_left Broken = True"
| "loop_left (Unwound x) = True"
| "loop_left (Finished r) = True"
| "loop_left _ = False"

lemma step_loop_left:
  "step P C t e t' \<Longrightarrow> loop_left (phase t) \<Longrightarrow> loop_left (phase t') \<and> handled e = None"
  by (cases e) (auto simp: step_simps finish_task_def split: if_splits)

lemma steps_loop_left:
  assumes "steps P C t es t'" and "loop_left (phase t)"
  shows "loop_left (phase t') \<and> filter_unwrap handled es = []"
  using assms
proof (induction rule: steps.induct)
  case (steps_step t es t' e t'')
  then show ?case using step_loop_left [of P C t' e t''] by auto
qed simp

lemma steps_append_iff: "steps P C t (xs @ ys) t'' \<longleftrightarrow> (\<exists>t'. steps P C t xs t' \<and> steps P C t' ys t'')"
proof (induction ys arbitrary: t'' rule: rev_induct)
  case (snoc y ys)
  have snoc_iff: "steps P C u (es @ [e]) v \<longleftrightarrow> (\<exists>w. steps P C u es w \<and> step P C w e v)" for u es e v
    by (auto elim: steps.cases intro: steps_step)
  show ?case unfolding append_assoc [symmetric] snoc_iff snoc.IH by blast
qed simp

end
