(* ===== verification/Linking.thy ===== *)
theory Linking
  imports Expansion_Properties Loop_Traces
begin

text \<open>
  How the generated parts of an actor meet at run time: the way a message takes from the
  shell's \<open>enqueue\<close> to a queue, and the branch of the event loop that receives it.
\<close>

section \<open>From the shell to a queue\<close>

text \<open>
  \<open>enqueue\<close> of a role calls the method \<open>pi_sender\<close> of the shell, which sends on a field, which
  was initialised with the sender of a queue.
\<close>

definition shell_route :: "actor_output \<Rightarrow> role_name \<Rightarrow> nat option" where
  "shell_route a r =
     (let st = sp_fun (ao_spawning_function a)
      in Option.bind (List.find (\<lambda>pd. pi_role (ap_imp (pf_actor_impl pd)) = r) (ao_performances a)) (\<lambda>pd.
         Option.bind (List.find (\<lambda>m. pm_accessor m = pi_sender (ap_imp (pf_actor_impl pd)))
           (pu_methods (ast_sender_methods (ao_actor_struct a)))) (\<lambda>push.
         Option.bind (List.find (\<lambda>i. fi_field i = pm_field push) (ce_fields (si_constructor st))) (\<lambda>init.
           map_option (\<lambda>i. length (si_queues st) - Suc i)
             (index_of (fi_value init) (rev (map qc_input (si_queues st))))))))"

text \<open>What \<open>rustc\<close> demands of the names: the fields of the shell are distinct.\<close>

definition fields_distinct :: "actor_output \<Rightarrow> bool" where
  "fields_distinct a = distinct (map sf_name (as_fields (ast_strukt (ao_actor_struct a))))"

section \<open>Linking the start function\<close>

lemma index_of_nth: "distinct xs \<Longrightarrow> i < length xs \<Longrightarrow> index_of (xs ! i) xs = Some i"
  by (induction xs arbitrary: i) (auto simp: nth_Cons split: nat.splits)

lemma index_of_rev:
  assumes "distinct xs" and "i < length xs"
  shows "map_option (\<lambda>j. length xs - Suc j) (index_of (xs ! i) (rev xs)) = Some i"
proof -
  have "index_of (rev xs ! (length xs - Suc i)) (rev xs) = Some (length xs - Suc i)"
    using assms by (intro index_of_nth) auto
  then show ?thesis using assms(2) by (simp add: rev_nth)
qed

lemma link_branches:
  assumes "distinct (map (queue_name L \<circ> pd_role_name) ps)"
  shows "map (link_branch (map (queue_of L) ps)) (map (branch_of L) ps) =
    map Some (zip [0..<length ps] (map (method_name L \<circ> pd_role_name) ps))"
proof (rule nth_equalityI)
  fix i assume "i < length (map (link_branch (map (queue_of L) ps)) (map (branch_of L) ps))"
  then have i: "i < length ps" by simp
  let ?outs = "map qc_output (map (queue_of L) ps)"
  have "distinct ?outs"
    using assms by (simp add: queue_of_def comp_def output_field_name_def distinct_map inj_on_def)
  moreover have "?outs ! i = sb_output (branch_of L (ps ! i))"
    using i by (simp add: queue_of_def branch_of_def)
  ultimately have "map_option (\<lambda>j. length ps - Suc j) (index_of (sb_output (branch_of L (ps ! i))) (rev ?outs)) = Some i"
    using index_of_rev [of ?outs i] i by simp
  then have "link_branch (map (queue_of L) ps) (branch_of L (ps ! i)) = Some (i, method_name L (pd_role_name (ps ! i)))"
    by (auto simp: link_branch_def branch_of_def rev_map)
  then show "map (link_branch (map (queue_of L) ps)) (map (branch_of L) ps) ! i =
      map Some (zip [0..<length ps] (map (method_name L \<circ> pd_role_name) ps)) ! i"
    using i by simp
qed simp

lemma link_start_generated:
  assumes "distinct (map (queue_name L \<circ> pd_role_name) ps)"
  shows "link_start (StartImpl actor data (map (queue_of L) ps) cons (map (branch_of L) ps) pan ext) =
    Some \<lparr>lp_queues = length ps, lp_branches = zip [0..<length ps] (map (method_name L \<circ> pd_role_name) ps),
      lp_panic_hook = pan, lp_exit_hook = ext\<rparr>"
  using link_branches [OF assms] by (simp add: link_start_def del: map_map)

lemma program_ok_zip:
  "ps \<noteq> [] \<Longrightarrow> program_ok \<lparr>lp_queues = length ps, lp_branches = zip [0..<length ps] (map f ps), lp_panic_hook = pan, lp_exit_hook = ext\<rparr>"
  by (simp add: program_ok_def) (metis atLeast_upt length_map length_upt list.set_map map_fst_zip minus_nat.diff_0)

text \<open>The declaration behind an expansion, with its names.\<close>

lemma make_actor_names:
  assumes "make_actor L m = Inr out" and "fields_distinct out"
  obtains node where "ActorOutput_new L node = Inr out"
    and "distinct (map (queue_name L \<circ> pd_role_name) (ad_performances node))"
proof -
  obtain node where node: "ActorOutput_new L node = Inr out"
    using assms(1) by (auto simp: make_actor_def res_simps)
  with assms(2) have "distinct (map (queue_name L \<circ> pd_role_name) (ad_performances node))"
    using ActorStruct_new_Inr(1) [OF ActorOutput_new_Inr(2) [OF node]]
    by (simp add: fields_distinct_def comp_def)
  with node that show thesis by blast
qed

text \<open>
  The start function of every actor that expands to distinct fields links to an event loop
  in which branch number \<open>i\<close> receives from queue number \<open>i\<close>, and every queue has a branch.
\<close>

theorem generated_loop:
  assumes "make_actor L m = Inr out" and "fields_distinct out"
  shows "\<exists>P. link_start (sp_fun (ao_spawning_function out)) = Some P \<and> program_ok P \<and>
    map fst (lp_branches P) = [0..<lp_queues P] \<and>
    map snd (lp_branches P) = map sb_handler (si_branches (sp_fun (ao_spawning_function out))) \<and>
    lp_exit_hook P = si_exit_hook (sp_fun (ao_spawning_function out)) \<and>
    lp_panic_hook P = si_panic_hook (sp_fun (ao_spawning_function out))"
proof -
  obtain node where node: "ActorOutput_new L node = Inr out"
    and distinct: "distinct (map (queue_name L \<circ> pd_role_name) (ad_performances node))"
    using make_actor_names [OF assms] .
  show ?thesis
    unfolding ActorOutput_new_Inr(3) [OF node] link_start_generated [OF distinct]
    using ActorOutput_new_Inr(1) [OF node] program_ok_zip
    by (simp add: branch_of_def comp_def)
qed

lemma performance_names:
  assumes "ActorOutput_new L node = Inr out" and "pd \<in> set (ao_performances out)"
  obtains i where "i < length (ad_performances node)"
    and "pi_role (ap_imp (pf_actor_impl pd)) = pd_role_name (ad_performances node ! i)"
    and "pi_sender (ap_imp (pf_actor_impl pd)) = sender_method_name L (pi_role (ap_imp (pf_actor_impl pd)))"
    and "di_method (df_fun (pf_dispatch_fn pd)) = method_name L (pi_role (ap_imp (pf_actor_impl pd)))"
proof -
  obtain outs where outs: "map_or_bail (\<lambda>perf. PerfDispatch_new L perf (ad_actor_name node)
      (DataItem_name (ad_data_item node))) (ad_performances node) = Inr outs"
    and "ao_performances out = List.map_filter (\<lambda>p. p) outs"
    using ActorOutput_new_Inr(6) [OF assms(1)] by blast
  with assms(2) have "Some pd \<in> set outs" by (simp add: set_map_filter_iff)
  then obtain perf where "perf \<in> set (ad_performances node)"
    and pd: "PerfDispatch_new L perf (ad_actor_name node) (DataItem_name (ad_data_item node)) = Inr (Some pd)"
    using map_or_bail_source [OF outs] by blast
  then obtain i where "i < length (ad_performances node)" "perf = ad_performances node ! i"
    by (auto simp: in_set_conv_nth)
  with PerfDispatch_new_names [OF pd] that show thesis by simp
qed

lemma shell_route_nth:
  assumes "ActorOutput_new L node = Inr out"
    and "distinct (map (queue_name L \<circ> pd_role_name) (ad_performances node))"
    and "pd \<in> set (ao_performances out)" and "pi_role (ap_imp (pf_actor_impl pd)) = r"
    and "i < length (ad_performances node)" and "pd_role_name (ad_performances node ! i) = r"
  shows "shell_route out r = Some i"
proof -
  let ?ps = "ad_performances node"
  note out = ActorOutput_new_Inr [OF assms(1)]
  have p: "?ps ! i \<in> set ?ps" using assms(5) by simp
  obtain pd' where pd': "List.find (\<lambda>pd. pi_role (ap_imp (pf_actor_impl pd)) = r) (ao_performances out) = Some pd'"
    using assms(3,4) by (cases "List.find (\<lambda>pd. pi_role (ap_imp (pf_actor_impl pd)) = r) (ao_performances out)")
      (auto simp: find_None_iff)
  then have mem: "pd' \<in> set (ao_performances out)" and role: "pi_role (ap_imp (pf_actor_impl pd')) = r"
    by (auto simp: find_Some_iff)
  have sender: "pi_sender (ap_imp (pf_actor_impl pd')) = sender_method_name L r"
    using performance_names [OF assms(1) mem] role by metis
  have "distinct (map (\<lambda>p. sender_method_name L (pd_role_name p)) ?ps)"
    using assms(2) by (simp add: sender_method_name_def distinct_map inj_on_def)
  from find_distinct_key_eq [OF this p, of "sender_method_name L r"]
  have push: "List.find (\<lambda>p. sender_method_name L (pd_role_name p) = sender_method_name L r) ?ps = Some (?ps ! i)"
    by (simp add: assms(6))
  have init: "List.find (\<lambda>p. queue_name L (pd_role_name p) = queue_name L r) ?ps = Some (?ps ! i)"
    using find_distinct_key_eq [of "\<lambda>p. queue_name L (pd_role_name p)" ?ps "?ps ! i", OF _ p] assms(2,6)
    by (simp add: comp_def)
  let ?ins = "map qc_input (map (queue_of L) ?ps)"
  have "distinct ?ins"
    using assms(2) by (simp add: queue_of_def comp_def input_field_name_def distinct_map inj_on_def)
  moreover have "?ins ! i = input_field_name (queue_name L r)"
    using assms(5,6) by (simp add: queue_of_def)
  ultimately have "map_option (\<lambda>j. length ?ps - Suc j) (index_of (input_field_name (queue_name L r)) (rev ?ins)) = Some i"
    using index_of_rev [of ?ins i] assms(5) by simp
  then show ?thesis
    unfolding shell_route_def Let_def pd' ActorStruct_new_Inr(2) [OF out(2)] out(3)
    by (simp add: sender find_map push init assms(6) field_init_of_def)
qed

lemma numbered_branch: "k < length xs \<Longrightarrow> {f. (k, f) \<in> set (zip [0..<length xs] (map g xs))} = {g (xs ! k)}"
  by (auto simp: set_zip intro: exI [of _ k])

text \<open>
  C3. A message that is enqueued for a role of an actor, through the shell, its sender method,
  its field and the queue the field was initialised with, is received by a branch of the
  event loop, and every branch that receives it calls the dispatch function of that role.
\<close>

theorem enqueue_reaches_dispatch:
  assumes "make_actor L m = Inr out" and "fields_distinct out" and "pd \<in> set (ao_performances out)"
  shows "\<exists>P k. link_start (sp_fun (ao_spawning_function out)) = Some P \<and>
    shell_route out (pi_role (ap_imp (pf_actor_impl pd))) = Some k \<and> k < lp_queues P \<and>
    {f. (k, f) \<in> set (lp_branches P)} = {di_method (df_fun (pf_dispatch_fn pd))}"
proof -
  obtain node where node: "ActorOutput_new L node = Inr out"
    and distinct: "distinct (map (queue_name L \<circ> pd_role_name) (ad_performances node))"
    using make_actor_names [OF assms(1,2)] .
  obtain i where i: "i < length (ad_performances node)"
    and names: "pi_role (ap_imp (pf_actor_impl pd)) = pd_role_name (ad_performances node ! i)"
      "di_method (df_fun (pf_dispatch_fn pd)) = method_name L (pi_role (ap_imp (pf_actor_impl pd)))"
    using performance_names [OF node assms(3)] .
  have "shell_route out (pi_role (ap_imp (pf_actor_impl pd))) = Some i"
    using shell_route_nth [OF node distinct assms(3) refl i] names(1) by simp
  then show ?thesis
    unfolding ActorOutput_new_Inr(3) [OF node] link_start_generated [OF distinct]
    using i names by (simp add: numbered_branch)
qed

section \<open>The sample actor\<close>

definition basic_program :: loop_program where
  "basic_program = \<lparr>lp_queues = 1, lp_branches = [(0, ''perform_basic_role'')],
     lp_panic_hook = No_Hook, lp_exit_hook = Call_Hook ''stop''\<rparr>"

lemma basic_actor_decl:
  "ActorDecl_new sample_lib basic_module =
     Inr (decl_of basic_module (Struct actor_state)
       [Class_Misc (Item_Other ''use std::sync::Arc;''), Class_Data (Struct actor_state),
        Class_Performance basic_perf (Some basic_role_decl), Class_Stop stop_fn])"
  using basic_classes ActorDecl_new_ok [OF basic_actor_error] by auto

lemma basic_actor_parts:
  assumes "make_actor sample_lib basic_module = Inr out"
  shows "fields_distinct out" and "link_start (sp_fun (ao_spawning_function out)) = Some basic_program"
proof -
  let ?node = "decl_of basic_module (Struct actor_state)
       [Class_Misc (Item_Other ''use std::sync::Arc;''), Class_Data (Struct actor_state),
        Class_Performance basic_perf (Some basic_role_decl), Class_Stop stop_fn]"
  have node: "ActorOutput_new sample_lib ?node = Inr out"
    using assms by (simp add: make_actor_def basic_actor_decl)
  have perfs: "ad_performances ?node = [basic_perf]" by (simp add: decl_of_def)
  show "fields_distinct out"
    using ActorStruct_new_Inr(1) [OF ActorOutput_new_Inr(2) [OF node]] perfs by (simp add: fields_distinct_def)
  have "distinct (map (queue_name sample_lib \<circ> pd_role_name) (ad_performances ?node))"
    by (simp add: perfs)
  from link_start_generated [OF this] show "link_start (sp_fun (ao_spawning_function out)) = Some basic_program"
    unfolding ActorOutput_new_Inr(3) [OF node] perfs basic_program_def
    by (simp add: decl_of_def assemble_def set_data_name_def hook_of_def panic_name_def exit_name_def last_or_def
        stop_fn_def) code_simp
qed

lemma basic_actor_performance:
  assumes "make_actor sample_lib basic_module = Inr out"
  shows "\<exists>pd\<in>set (ao_performances out). pi_role (ap_imp (pf_actor_impl pd)) = RoleName basic_role \<and>
    di_method (df_fun (pf_dispatch_fn pd)) = ''perform_basic_role''"
proof -
  let ?node = "decl_of basic_module (Struct actor_state)
       [Class_Misc (Item_Other ''use std::sync::Arc;''), Class_Data (Struct actor_state),
        Class_Performance basic_perf (Some basic_role_decl), Class_Stop stop_fn]"
  have node: "ActorOutput_new sample_lib ?node = Inr out"
    using assms by (simp add: make_actor_def basic_actor_decl)
  have perfs: "ad_performances ?node = [basic_perf]" by (simp add: decl_of_def)
  have names: "ad_actor_name ?node = basic_actor_name" "DataItem_name (ad_data_item ?node) = basic_data_name"
    by (simp_all add: decl_of_def ActorName_new_def basic_actor_name_def basic_module_def basic_data_name_def)
  obtain pd where pd: "PerfDispatch_new sample_lib basic_perf basic_actor_name basic_data_name = Inr (Some pd)"
    using basic_perf_dispatch by blast
  then have "pd \<in> set (ao_performances out)"
    using ActorOutput_new_Inr(6) [OF node] by (auto simp: perfs names set_map_filter_iff)
  moreover have "method_name sample_lib (RoleName basic_role) = ''perform_basic_role''"
    by code_simp
  ultimately show ?thesis
    using PerfDispatch_new_names(1,4) [OF pd] by (auto simp: basic_perf_def)
qed

theorem enqueue_reaches_dispatch_witness:
  "\<exists>out P k. make_actor sample_lib basic_module = Inr out \<and>
    link_start (sp_fun (ao_spawning_function out)) = Some P \<and>
    shell_route out (RoleName basic_role) = Some k \<and>
    {f. (k, f) \<in> set (lp_branches P)} = {''perform_basic_role''}"
proof -
  obtain out where out: "make_actor sample_lib basic_module = Inr out"
    using basic_make_actor by blast
  obtain pd where "pd \<in> set (ao_performances out)" "pi_role (ap_imp (pf_actor_impl pd)) = RoleName basic_role"
    "di_method (df_fun (pf_dispatch_fn pd)) = ''perform_basic_role''"
    using basic_actor_performance [OF out] by blast
  with enqueue_reaches_dispatch [OF out basic_actor_parts(1) [OF out], of pd] out show ?thesis by fastforce
qed

lemma basic_program_ok: "program_ok basic_program"
  by (simp add: program_ok_def basic_program_def lessThan_Suc)

theorem generated_loop_witness:
  "\<exists>out. make_actor sample_lib basic_module = Inr out \<and>
    (\<exists>P. link_start (sp_fun (ao_spawning_function out)) = Some P \<and> program_ok P \<and>
      map fst (lp_branches P) = [0..<lp_queues P])"
proof -
  obtain out where out: "make_actor sample_lib basic_module = Inr out"
    using basic_make_actor by blast
  from generated_loop [OF out basic_actor_parts(1) [OF out]] out show ?thesis by blast
qed

text \<open>The one queue of the sample actor, over the list queue.\<close>

interpretation basic_loop: event_loop fifo_channel fifo_items fifo_receiver fifo_sender basic_program
  by (intro event_loop.intro event_loop_axioms.intro fifo_channel_laws basic_program_ok)

end
