(* ===== verification/Loop_Properties.thy ===== *)
theory Loop_Properties
  imports Linking
begin

text \<open>
  What the event loop of a generated actor guarantees, over any channel with the laws of
  \<open>role_channel\<close> and for any program whose branches read all its queues; and the
  interleavings in which it breaks its documented contract. The witnesses run the loop of
  the sample actor over a list queue.
\<close>

section \<open>Concrete runs\<close>

lemma steps_snoc_iff: "steps P C t (es @ [e]) t'' \<longleftrightarrow> (\<exists>t'. steps P C t es t' \<and> step P C t' e t'')"
  by (auto elim: steps.cases intro: steps_step)

lemma steps_Cons_iff: "steps P C t (e # es) t'' \<longleftrightarrow> (\<exists>t'. step P C t e t' \<and> steps P C t' es t'')"
proof -
  have "steps P C t [e] t' \<longleftrightarrow> step P C t e t'" for t'
    using steps_snoc_iff [of P C t "[]" e t'] by simp
  then show ?thesis using steps_append_iff [of P C t "[e]" es t''] by simp
qed

lemma runI: "steps P C (start_task P C shell s time) es t \<Longrightarrow> run P C es t"
  by (auto simp: run_def)

lemma some_bool [simp]: "\<exists>b::bool. b" "\<exists>b::bool. \<not> b"
  by auto

text \<open>The sample actor, started at time 0 with the number 0 as its state.\<close>

definition basic_task :: "(nat, nat return_envelope fifo, nat) task" where
  "basic_task = start_task basic_program fifo_channel 0 0 0"

definition sample_message :: "nat \<Rightarrow> nat return_envelope" where
  "sample_message n = \<lparr>payload = n, return_path = Immediate n\<rparr>"

lemma basic_program_simps [simp]:
  "lp_queues basic_program = 1" "lp_branches basic_program = [(0, ''perform_basic_role'')]"
  "lp_panic_hook basic_program = No_Hook" "lp_exit_hook basic_program = Call_Hook ''stop''"
  by (simp_all add: basic_program_def)

lemmas loop_eval = steps_Cons_iff step_simps basic_task_def start_task_def sample_message_def Context_new_def
  task_running_def strong_count_def is_running_def get_shell_def context_stop_def select_phase_def
  fifo_send_def fifo_poll_recv_def IDLE_TIMEOUT_def finish_task_def hook_returns_def hook_panics_def

text \<open>From the start to the first wait on one branch and the timer.\<close>

abbreviation to_select :: "(nat, nat) event list" where
  "to_select \<equiv> [Start, Read_Empty, Read_Running, Read_Timer]"

abbreviation basic_run :: "(nat, nat) event list \<Rightarrow> (nat, nat return_envelope fifo, nat) task \<Rightarrow> bool" where
  "basic_run \<equiv> steps basic_program fifo_channel basic_task"

lemma basic_run_run: "basic_run es t \<Longrightarrow> run basic_program fifo_channel es t"
  by (rule runI) (simp add: basic_task_def)

lemma handled_one_run:
  "\<exists>t. basic_run (to_select @ [Send 0 (sample_message 7), Receive 0 ''perform_basic_role'' (sample_message 7),
      Handler_Return 1 70, Respond [Reply 7 70], Send 0 (sample_message 8)]) t \<and> phase t = Checking [] \<and>
    handles t = 1 \<and> fifo_items (queues t ! 0) = [sample_message 8]"
  by (simp add: loop_eval)

section \<open>Messages\<close>

text \<open>
  C1. Messages of one role are received in the order they were sent, each at most once, and
  while the task is alive none is lost: what was sent is what was received followed by what
  waits in the queue. When the task is over, a last part of what was sent may not have been
  received.
\<close>

theorem messages_in_order:
  assumes "role_channel C contents receiving connected" and "program_ok P"
    and "run P C es t" and "k < lp_queues P"
  shows "if is_finished (phase t) then \<exists>lost. sent k es = received k es @ lost
    else sent k es = received k es @ contents (queues t ! k)"
  using assms by (intro event_loop.run_fifo event_loop.intro event_loop_axioms.intro)

theorem messages_in_order_witness:
  "\<exists>(es :: (nat, nat) event list) t. run basic_program fifo_channel es t \<and> sent 0 es = [sample_message 7, sample_message 8] \<and>
    received 0 es = [sample_message 7] \<and> fifo_items (queues t ! 0) = [sample_message 8]"
proof -
  obtain t where t: "basic_run (to_select @ [Send 0 (sample_message 7), Receive 0 ''perform_basic_role'' (sample_message 7),
      Handler_Return 1 70, Respond [Reply 7 70], Send 0 (sample_message 8)]) t" "phase t = Checking []"
    using handled_one_run by blast
  let ?es = "to_select @ [Send 0 (sample_message 7), Receive 0 ''perform_basic_role'' (sample_message 7),
      Handler_Return 1 70, Respond [Reply 7 70], Send 0 (sample_message 8)]"
  have sr: "sent 0 ?es = [sample_message 7, sample_message 8]" "received 0 ?es = [sample_message 7]"
    by (simp_all add: sent_def received_def)
  from messages_in_order [OF fifo_channel_laws basic_program_ok basic_run_run [OF t(1)], of 0] sr t
  have "fifo_items (queues t ! 0) = [sample_message 8]" by simp
  with basic_run_run [OF t(1)] sr show ?thesis by blast
qed

text \<open>
  C26. A client that holds a handle can always send: the message is accepted, and queued last,
  exactly as long as the task is not over; afterwards the send fails, hands the very message
  back and changes nothing.
\<close>

theorem send_outcome:
  assumes "role_channel C contents receiving connected" and "program_ok P"
    and "run P C es t" and "k < lp_queues P" and "0 < handles t"
  shows "if is_finished (phase t)
    then step P C t (Send_Failed k m) t \<and> (\<forall>m' t'. \<not> step P C t (Send k m') t')
    else (\<exists>t'. step P C t (Send k m) t' \<and> contents (queues t' ! k) = contents (queues t ! k) @ [m]) \<and>
      (\<forall>m' t'. \<not> step P C t (Send_Failed k m') t')"
proof -
  have ev: "event_loop C contents receiving connected P"
    using assms(1,2) by (intro event_loop.intro event_loop_axioms.intro)
  have len: "k < length (queues t)"
    using event_loop.run_queues [OF ev assms(3)] assms(4) by simp
  obtain q r where q: "ch_send C m (queues t ! k) = (q, r)" by (cases "ch_send C m (queues t ! k)")
  have ok: "if is_finished (phase t) then \<not> receiving (queues t ! k) else receiving (queues t ! k)"
    using event_loop.run_queues [OF ev assms(3)] assms(4) event_loop.queue_ok_def [OF ev] by auto
  note result = role_channel.send_result [OF assms(1) q]
  show ?thesis
  proof (cases "is_finished (phase t)")
    case True
    with ok result q assms(5) len have "step P C t (Send_Failed k m) t"
      by (auto simp: step_simps intro!: exI [of _ q] exI [of _ m])
    with True event_loop.step_Send [OF ev assms(3)] show ?thesis by auto
  next
    case False
    with ok result q assms(5) len have "\<exists>t'. step P C t (Send k m) t' \<and> contents (queues t' ! k) = contents (queues t ! k) @ [m]"
      by (auto simp: step_simps)
    with False event_loop.step_Send_Failed [OF ev assms(3)] show ?thesis by auto
  qed
qed

theorem send_outcome_witness:
  "\<exists>t. run basic_program fifo_channel (to_select @ [Tick 1]) t \<and>
    (\<exists>t'. step basic_program fifo_channel t (Send 0 (sample_message 7)) t' \<and> fifo_items (queues t' ! 0) = [sample_message 7])"
proof -
  obtain t where t: "basic_run (to_select @ [Tick 1]) t" "handles t = 1" "phase t = Selecting [True] True"
    "fifo_items (queues t ! 0) = []"
    by (simp add: loop_eval)
  from send_outcome [OF fifo_channel_laws basic_program_ok basic_run_run [OF t(1)], of 0 "sample_message 7"] t
  show ?thesis using basic_run_run [OF t(1)] by auto
qed

section \<open>Handlers\<close>

text \<open>
  C13. Handlers run one at a time and every answer is the answer to its own message: the values
  returned and the answers given line up with the messages received, at most one message is
  unanswered, and answer number \<open>j\<close> is value number \<open>j\<close> sent along the return path of message
  number \<open>j\<close>. When the actor exits normally every message it received has been answered.
\<close>

theorem answers_in_order:
  assumes "run P C es t"
  shows "let ms = filter_unwrap handled es; vs = filter_unwrap returned es; effs = filter_unwrap responded es
    in length effs \<le> length vs \<and> length vs \<le> length ms \<and> length ms \<le> Suc (length effs) \<and>
      (\<forall>j<length effs. ReturnPath_send (return_path (ms ! j)) (vs ! j) = Inr (effs ! j)) \<and>
      ((\<exists>out. phase t = Finished (Inr (Inr out))) \<longrightarrow> length effs = length ms)"
proof -
  note answers = run_answers [OF assms]
  from answers_ok_lengths answers have "length (filter_unwrap responded es) \<le> length (filter_unwrap returned es) \<and>
    length (filter_unwrap returned es) \<le> length (filter_unwrap handled es) \<and>
    length (filter_unwrap handled es) \<le> Suc (length (filter_unwrap responded es))" by blast
  with answers show ?thesis by (auto simp: Let_def answers_match_def)
qed

theorem answers_in_order_witness:
  "ReturnPath_send (return_path (sample_message 7)) 70 = Inr [Reply 7 (70::nat)] \<and>
   (\<exists>t. basic_run (to_select @ [Send 0 (sample_message 7), Receive 0 ''perform_basic_role'' (sample_message 7),
      Handler_Return 1 70, Respond [Reply 7 70], Send 0 (sample_message 8)]) t)"
proof -
  obtain t where t: "basic_run (to_select @ [Send 0 (sample_message 7), Receive 0 ''perform_basic_role'' (sample_message 7),
      Handler_Return 1 70, Respond [Reply 7 70], Send 0 (sample_message 8)]) t"
    using handled_one_run by blast
  from answers_in_order [OF basic_run_run [OF t]] t show ?thesis by (auto simp: Let_def)
qed

text \<open>
  After a panic no message is handled any more: from the moment a handler or the
  forwarding of its value has panicked, and from the moment the loop is left, a run receives nothing.
\<close>

theorem nothing_handled_after_panic:
  assumes "run P C (es @ es') t" and "filter_unwrap panicked es \<noteq> []"
  shows "filter_unwrap handled es' = []"
proof -
  from assms(1) obtain u where u: "run P C es u" "steps P C u es' t"
    by (auto simp: run_def steps_append_iff)
  have "loop_left (phase u)"
    using run_ending [OF u(1)] assms(2)
    by (cases "(P, state u, phase u, filter_unwrap panicked es, filter_unwrap hook_run es)" rule: ending_ok.cases) auto
  with steps_loop_left [OF u(2)] show ?thesis by simp
qed

theorem nothing_handled_after_panic_witness:
  "\<exists>t. run basic_program fifo_channel ((to_select @ [Send 0 (sample_message 7), Send 0 (sample_message 8),
      Receive 0 ''perform_basic_role'' (sample_message 7), Handler_Panic 1 99]) @ [Panic_Hook 1 (Panic_Value 99)]) t \<and>
    filter_unwrap handled [Panic_Hook 1 (Panic_Value 99) :: (nat, nat) event] = [] \<and>
    phase t = Finished (Inr (Inl (Panic_Value 99)))"
proof -
  obtain t where t: "basic_run ((to_select @ [Send 0 (sample_message 7), Send 0 (sample_message 8),
      Receive 0 ''perform_basic_role'' (sample_message 7), Handler_Panic 1 99]) @ [Panic_Hook 1 (Panic_Value 99)]) t"
    "phase t = Finished (Inr (Inl (Panic_Value 99)))"
    by (simp add: loop_eval)
  from nothing_handled_after_panic [OF basic_run_run [OF t(1)]] basic_run_run [OF t(1)] t(2) show ?thesis by auto
qed

section \<open>The guard around the loop\<close>

text \<open>
  \<open>catch_future\<close> (\<open>src/src/lib.rs\<close>) on one poll of the future it wraps, \<open>Inl\<close> its panic; and what polling the
  loop does in a step of the task: it panics, is left, or goes on.
\<close>

fun catch_future :: "'x + 'a poll \<Rightarrow> ('x + 'a) poll" where
  "catch_future (Inl panic) = Ready (Inl panic)"
| "catch_future (Inr Pending) = Pending"
| "catch_future (Inr (Ready v)) = Ready (Inr v)"

definition loop_poll :: "('s, 'v) event \<Rightarrow> 'v phase \<Rightarrow> 'v + unit poll" where
  "loop_poll e after =
     (case panicked e of Some x \<Rightarrow> Inl x | None \<Rightarrow> Inr (if after = Broken then Ready () else Pending))"

text \<open>The arm of \<open>match result\<close> that the task is at after the loop.\<close>

fun guard_result :: "'v phase \<Rightarrow> ('v + unit) poll" where
  "guard_result Broken = Ready (Inr ())"
| "guard_result (Unwound x) = Ready (Inl x)"
| "guard_result _ = Pending"

lemma guard_catches:
  assumes "step P C t e t'" and "guard_result (phase t) = Pending" and "\<not> is_finished (phase t)"
  shows "guard_result (phase t') = catch_future (loop_poll e (phase t'))"
  using assms by cases (auto simp: loop_poll_def select_phase_def)

section \<open>How an actor ends\<close>

text \<open>What the exit handle of a task reports when its join handle is polled.\<close>

definition exit_handle_of ::
  "('s, 'q, 'v) task \<Rightarrow> string + ('v hook_value, 'v hook_value) outcome poll" where
  "exit_handle_of t = ExitHandle_poll (case phase t of Finished r \<Rightarrow> Ready r | _ \<Rightarrow> Pending)"

text \<open>
  C9. The exit handle is pending until the task is over. Then it reports \<open>Exit\<close> when nothing panicked,
  with what the stop hook made of the final state, and \<open>Panic\<close> when a handler panicked, with
  what the catch hook made of the state and, without a catch hook, the panic value itself;
  in both cases that one hook ran, once, and returned. If the hook itself panicked, the handle reports
  nothing: polling it panics, in the \<open>unreachable!\<close> of \<open>core/actor.rs\<close>, and there is no other way to get there.
\<close>

theorem exit_handle_outcome:
  assumes "run P C es t"
  shows "case exit_handle_of t of
      Inr Pending \<Rightarrow> \<not> is_finished (phase t) \<and> filter_unwrap hook_run es = []
    | Inr (Ready (Exit out)) \<Rightarrow> filter_unwrap panicked es = [] \<and>
        filter_unwrap hook_run es = [Exit_Hook (state t) out] \<and> hook_returns (lp_exit_hook P) Unit_Value out
    | Inr (Ready (Panic out)) \<Rightarrow> (\<exists>x. filter_unwrap panicked es = [x] \<and>
        hook_returns (lp_panic_hook P) (Panic_Value x) out) \<and>
        filter_unwrap hook_run es = [Panic_Hook (state t) out]
    | Inl unreachable \<Rightarrow> \<exists>msg. filter_unwrap hook_run es = [Hook_Panic msg]"
  using run_ending [OF assms]
  by (cases "(P, state t, phase t, filter_unwrap panicked es, filter_unwrap hook_run es)" rule: ending_ok.cases)
    (auto simp: exit_handle_of_def)

text \<open>
  C36. A hook that panics makes the exit handle panic: whenever the loop of an actor with a stop
  hook is left, the hook may panic, and then polling the exit handle hits \<open>unreachable!\<close>, although no
  message handler misbehaved.
\<close>

theorem hook_panic_reaches_unreachable:
  assumes "lp_exit_hook P = Call_Hook f" and "run P C es t" and "phase t = Broken"
  shows "\<exists>t'. run P C (es @ [Hook_Panic msg]) t' \<and> filter_unwrap panicked (es @ [Hook_Panic msg]) = [] \<and>
    exit_handle_of t' = Inl ''Task for actor aborted with error - this is a bug''"
proof -
  let ?t' = "finish_task C (Inl (Join_Error msg)) t"
  have "step P C t (Hook_Panic msg) ?t'"
    using assms(1,3) by (auto simp: step_simps hook_panics_def)
  then have "run P C (es @ [Hook_Panic msg]) ?t'"
    using assms(2) run_snoc by blast
  moreover have "filter_unwrap panicked es = []"
    using run_ending [OF assms(2)] assms(3) by simp
  ultimately show ?thesis
    by (auto simp: exit_handle_of_def finish_task_def)
qed

text \<open>The handle is dropped and the watchdog ends the actor.\<close>

lemma released_run:
  "\<exists>t. basic_run (to_select @ [Drop_Handle, Tick 1000, Timer_Elapsed, Timer_Check]) t \<and> phase t = Broken"
  by (simp add: loop_eval)

theorem hook_panic_reaches_unreachable_witness:
  "\<exists>(es :: (nat, nat) event list) t. run basic_program fifo_channel es t \<and>
    exit_handle_of t = Inl ''Task for actor aborted with error - this is a bug''"
proof -
  obtain t where t: "basic_run (to_select @ [Drop_Handle, Tick 1000, Timer_Elapsed, Timer_Check]) t" "phase t = Broken"
    using released_run by blast
  from hook_panic_reaches_unreachable [OF _ basic_run_run [OF t(1)] t(2), of "''stop''" "''boom''"]
  show ?thesis by auto
qed

theorem exit_handle_outcome_witness:
  "\<exists>t. run basic_program fifo_channel (to_select @ [Drop_Handle, Tick 1000, Timer_Elapsed, Timer_Check,
      Exit_Hook 0 (Hook_Value 5)]) t \<and> exit_handle_of t = Inr (Ready (Exit (Hook_Value 5)))"
proof -
  obtain t where t: "basic_run (to_select @ [Drop_Handle, Tick 1000, Timer_Elapsed, Timer_Check,
      Exit_Hook 0 (Hook_Value 5)]) t" "exit_handle_of t = Inr (Ready (Exit (Hook_Value 5)))"
    by (simp add: loop_eval exit_handle_of_def)
  from exit_handle_outcome [OF basic_run_run [OF t(1)]] t basic_run_run [OF t(1)] show ?thesis by auto
qed

text \<open>
  C15. An actor exits normally only when it has been told to stop or nobody holds a handle any
  more: as long as a client holds a handle and no handler called \<open>stop\<close>, the loop is not left
  except by a panic.
\<close>

theorem exits_only_when_released:
  assumes "role_channel C contents receiving connected" and "program_ok P" and "run P C es t"
    and "phase t = Broken \<or> phase t = Finished (Inr (Inr out))"
  shows "handles t = 0 \<or> Handler_Stop \<in> set es"
proof -
  have ev: "event_loop C contents receiving connected P"
    using assms(1,2) by (intro event_loop.intro event_loop_axioms.intro)
  have "shut (phase t)" using assms(4) by auto
  then have "handles t = 0 \<or> \<not> running (actor_ctx t)"
    using event_loop.run_shut [OF ev assms(3)] by (auto simp: stays_open_def)
  then show ?thesis using run_stopped [OF assms(3)] by blast
qed

theorem exits_only_when_released_witness:
  "\<exists>t. run basic_program fifo_channel (to_select @ [Drop_Handle, Tick 1000, Timer_Elapsed, Timer_Check]) t \<and>
    phase t = Broken \<and> handles t = 0"
proof -
  obtain t where t: "basic_run (to_select @ [Drop_Handle, Tick 1000, Timer_Elapsed, Timer_Check]) t" "phase t = Broken"
    using released_run by blast
  from exits_only_when_released [OF fifo_channel_laws basic_program_ok basic_run_run [OF t(1)]] t(2)
  have "handles t = 0" by auto
  with basic_run_run [OF t(1)] t(2) show ?thesis by blast
qed

section \<open>Progress\<close>

text \<open>
  The events that move the task on by itself. Polling a receiver without result does not, and
  the calls of a handler on its context do not either.
\<close>

definition moves_on :: "('s, 'v) event \<Rightarrow> bool" where
  "moves_on e \<longleftrightarrow> \<not> client_event e \<and>
     (case e of Poll_Pending k \<Rightarrow> False | Handler_Stop \<Rightarrow> False | Handler_Get_Shell \<Rightarrow> False | _ \<Rightarrow> True)"

text \<open>The task waits: it selects, and every enabled branch has an empty queue.\<close>

definition waits :: "loop_program \<Rightarrow> ('q \<Rightarrow> 'v return_envelope list) \<Rightarrow> ('s, 'q, 'v) task \<Rightarrow> bool \<Rightarrow> bool" where
  "waits P contents t timer \<longleftrightarrow>
     (\<exists>bs. phase t = Selecting bs timer \<and>
       (\<forall>i<length bs. bs ! i \<longrightarrow> contents (queues t ! fst (lp_branches P ! i)) = []))"


lemma moves_on_simps [simp]:
  "moves_on Start" "moves_on Read_Empty" "moves_on Read_Running" "moves_on Read_Timer" "moves_on (Receive k f m)"
  "moves_on Timer_Elapsed" "moves_on Timer_Check" "moves_on (Handler_Return s v)" "moves_on (Handler_Panic s v)"
  "moves_on (Respond effects)" "moves_on (Respond_Panic v)" "moves_on (Exit_Hook s out)" "moves_on (Panic_Hook s out)"
  "moves_on (Hook_Panic msg)" "moves_on (Recv_Closed k)" "\<not> moves_on (Poll_Pending k)" "\<not> moves_on Handler_Stop"
  "\<not> moves_on Handler_Get_Shell" "\<not> moves_on Clone_Handle" "\<not> moves_on Drop_Handle" "\<not> moves_on (Send k m)"
  "\<not> moves_on (Send_Failed k m)" "\<not> moves_on (Tick d)"
  by (simp_all add: moves_on_def client_event_def)








section \<open>Races\<close>

text \<open>A task that waits without a timer and without a client.\<close>

definition hung :: "loop_program \<Rightarrow> ('q \<Rightarrow> 'v return_envelope list) \<Rightarrow> ('s, 'q, 'v) task \<Rightarrow> bool" where
  "hung P contents t \<longleftrightarrow> handles t = 0 \<and> waits P contents t False"

lemma hung_step:
  assumes "event_loop C contents receiving connected P" and "run P C es t" and "hung P contents t"
    and "step P C t e t'"
  shows "hung P contents t'"
proof (cases e)
  case (Poll_Pending k)
  then obtain q where q: "phase t' = phase t" "queues t' = (queues t)[k := q]" "contents q = contents (queues t ! k)"
    using event_loop.step_Poll_Pending [OF assms(1,2)] assms(4) by blast
  have "contents (queues t' ! j) = contents (queues t ! j)" for j
    unfolding q(2) using q(3) by (cases "k < length (queues t)") (auto simp: nth_list_update list_update_beyond)
  moreover have "handles t' = handles t"
    using assms(4) Poll_Pending by (auto simp: step_simps)
  ultimately show ?thesis using assms(3) q(1) by (simp add: hung_def waits_def)
next
  case (Receive k f m)
  then obtain bs timer i q where i: "phase t = Selecting bs timer" "i < length bs" "bs ! i"
    "lp_branches P ! i = (k, f)" "ch_recv C (queues t ! k) = (q, Ready (Some m))"
    using assms(4) by (auto simp: step_simps)
  from event_loop.polled_queue [OF assms(1,2) i(1,2,4,5)] i assms(3) show ?thesis
    by (auto simp: hung_def waits_def)
next
  case (Recv_Closed k)
  then show ?thesis using event_loop.never_closed [OF assms(1,2)] assms(4) by blast
qed (use assms(3,4) in \<open>auto simp: step_simps hung_def waits_def\<close>)

lemma hung_steps:
  assumes "event_loop C contents receiving connected P" and "run P C es t" and "hung P contents t"
    and "steps P C t es' t'"
  shows "hung P contents t'"
  using assms(4,2,3)
proof (induction rule: steps.induct)
  case (steps_step t es' t' e t'')
  then have "run P C (es @ es') t'"
    by (auto simp: run_def steps_append_iff)
  with steps_step hung_step [OF assms(1)] show ?case by blast
qed

text \<open>All the preconditions are read while the client still holds its handle.\<close>

definition checked_task ::
  "loop_program \<Rightarrow> ('q, 'v return_envelope) channel \<Rightarrow> shell_ref \<Rightarrow> 's \<Rightarrow> nat \<Rightarrow> nat \<Rightarrow> 'v phase \<Rightarrow> ('s, 'q, 'v) task" where
  "checked_task P C shell s time h ph =
     (start_task P C shell s time)\<lparr>deadline := time + IDLE_TIMEOUT, handles := h, phase := ph\<rparr>"

lemma concat_replicate_Suc: "concat (replicate (Suc j) xs) = concat (replicate j xs) @ xs"
  by (induction j) simp_all

lemma check_branches:
  assumes "role_channel C contents receiving connected" and "program_ok P" and "j \<le> length (lp_branches P)"
  shows "steps P C (start_task P C shell s time) (Start # concat (replicate j [Read_Empty, Read_Running]))
    (checked_task P C shell s time 1 (Checking (replicate j True)))"
  using assms(3)
proof (induction j)
  case 0
  show ?case by (simp add: steps_Cons_iff step_simps checked_task_def start_task_def)
next
  case (Suc j)
  let ?t = "checked_task P C shell s time 1 (Checking (replicate j True))"
  let ?es = "concat (replicate j [Read_Empty, Read_Running])"
  have "fst (lp_branches P ! j) < lp_queues P"
    using Suc.prems program_okD(1) [OF assms(2)] by simp
  then have "steps P C ?t [Read_Empty, Read_Running] (checked_task P C shell s time 1 (Checking (replicate (Suc j) True)))"
    using Suc.prems role_channel.is_empty [OF assms(1)] role_channel.new_state(1) [OF assms(1)]
    by (simp add: steps_Cons_iff step_simps checked_task_def start_task_def task_running_alive Context_new_def
        replicate_append_same)
  with Suc.IH Suc.prems
  have "steps P C (start_task P C shell s time) ((Start # ?es) @ [Read_Empty, Read_Running])
      (checked_task P C shell s time 1 (Checking (replicate (Suc j) True)))"
    unfolding steps_append_iff by auto
  then show ?case unfolding concat_replicate_Suc by simp
qed

text \<open>
  C10. An actor can hang for ever when its last handle is dropped at the wrong moment: if that
  happens after the branches' preconditions have been read and before the timer's, the task waits
  for a message nobody can send, with its timer disabled. Every actor has such a run, without
  \<open>stop\<close> and without a panic, and no continuation of it ever ends the task.
\<close>

theorem last_handle_race_hangs:
  fixes s :: 's
  assumes "role_channel C contents receiving connected" and "program_ok P"
  shows "\<exists>es t. steps P C (start_task P C shell s time) es t \<and> {e \<in> set es. client_event e} = {Drop_Handle} \<and>
    Handler_Stop \<notin> set es \<and> filter_unwrap panicked es = [] \<and>
    (\<forall>es' t'. steps P C t es' t' \<longrightarrow> \<not> is_finished (phase t'))"
proof -
  have ev: "event_loop C contents receiving connected P"
    using assms by (intro event_loop.intro event_loop_axioms.intro)
  let ?n = "length (lp_branches P)"
  let ?checks = "Start # concat (replicate ?n [Read_Empty, Read_Running])"
  let ?es = "?checks @ [Drop_Handle, Read_Timer]"
  let ?t = "checked_task P C shell s time 0 (Selecting (replicate ?n True) False)"
  have n: "0 < ?n" using program_okD(3) [OF assms(2)] .
  have "steps P C (checked_task P C shell s time 1 (Checking (replicate ?n True))) [Drop_Handle, Read_Timer] ?t"
    using n by (simp add: steps_Cons_iff step_simps checked_task_def start_task_def task_running_alive select_phase_def)
  with check_branches [OF assms, of ?n shell s time]
  have steps: "steps P C (start_task P C shell s time) ?es ?t"
    unfolding steps_append_iff by blast
  have "hung P contents ?t"
    using program_okD(1) [OF assms(2)] role_channel.new_state(1) [OF assms(1)]
    by (auto simp: hung_def waits_def checked_task_def start_task_def)
  then have "\<forall>es' t'. steps P C ?t es' t' \<longrightarrow> \<not> is_finished (phase t')"
    using hung_steps [OF ev runI [OF steps]] by (fastforce simp: hung_def waits_def)
  moreover have "set ?checks = {Start, Read_Empty, Read_Running}"
    using n by auto
  moreover have "filter_unwrap panicked (concat (replicate n [Read_Empty, Read_Running])) = []" for n
    by (induction n) auto
  ultimately show ?thesis
    using steps by (intro exI [of _ ?es] exI [of _ ?t]) (auto simp: client_event_def)
qed

theorem last_handle_race_hangs_witness:
  "\<exists>es t. basic_run es t \<and>
    {e \<in> set es. client_event e} = {Drop_Handle} \<and>
    (\<forall>es' t'. steps basic_program fifo_channel t es' t' \<longrightarrow> \<not> is_finished (phase t'))"
  unfolding basic_task_def
  using last_handle_race_hangs [OF fifo_channel_laws basic_program_ok, where s = "0 :: nat" and shell = 0 and time = 0]
  by blast

text \<open>
  C11. A message can be lost although it was sent while the sender held a handle, nobody called
  \<open>stop\<close> and nothing panicked: when the timer has run out, a client may send and drop the last handle;
  if the timer is polled first, its arm leaves the loop without looking at the queues.
  The documentation promises that messages waiting are processed before the actor stops. Every
  actor has such a run for each of its queues and every message.
\<close>

theorem timer_race_loses_message:
  fixes s :: 's
  assumes "role_channel C contents receiving connected" and "program_ok P" and "k < lp_queues P"
    and "hook_returns (lp_exit_hook P) Unit_Value out"
  shows "\<exists>es t. steps P C (start_task P C shell s time) es t \<and> phase t = Finished (Inr (Inr out)) \<and>
    Handler_Stop \<notin> set es \<and> filter_unwrap panicked es = [] \<and>
    sent k es = [m] \<and> received k es = []"
proof -
  let ?n = "length (lp_branches P)"
  let ?bs = "replicate ?n True"
  let ?checks = "Start # concat (replicate ?n [Read_Empty, Read_Running])"
  let ?t = "checked_task P C shell s time 1 (Checking ?bs)"
  obtain q where q: "ch_send C m (ch_new C) = (q, Inr ())"
    using role_channel.send_open [OF assms(1) role_channel.new_state(2) [OF assms(1)]] by blast
  have n: "0 < ?n" using program_okD(3) [OF assms(2)] .
  let ?last = "[Read_Timer, Tick IDLE_TIMEOUT, Send k m, Drop_Handle, Timer_Elapsed, Timer_Check, Exit_Hook s out]"
  have "\<exists>t. steps P C ?t ?last t \<and> phase t = Finished (Inr (Inr out))"
    using n q assms(3,4)
    by (simp add: steps_Cons_iff step_simps checked_task_def start_task_def task_running_def strong_count_def
        is_running_def Context_new_def select_phase_def finish_task_def)
  then obtain t where t: "steps P C ?t ?last t" "phase t = Finished (Inr (Inr out))" by blast
  have steps: "steps P C (start_task P C shell s time) (?checks @ ?last) t"
    using check_branches [OF assms(1,2), of ?n shell s time] t(1) unfolding steps_append_iff by blast
  have checks: "filter_unwrap p (concat (replicate n [Read_Empty, Read_Running])) = []"
    if "p Read_Empty = None" "p Read_Running = None" for p :: "('s, 'b) event \<Rightarrow> 'c option" and n
    using that by (induction n) auto
  show ?thesis
    using steps t(2) by (intro exI [of _ "?checks @ ?last"] exI [of _ t]) (auto simp: checks sent_def received_def)
qed

theorem timer_race_loses_message_witness:
  "\<exists>es t. basic_run es t \<and> phase t = Finished (Inr (Inr (Hook_Value 5))) \<and>
    sent 0 es = [sample_message 7] \<and> received 0 es = []"
proof -
  have "hook_returns (lp_exit_hook basic_program) Unit_Value (Hook_Value (5 :: nat))"
    by (simp add: hook_returns_def)
  from timer_race_loses_message [OF fifo_channel_laws basic_program_ok _ this, where s = "0 :: nat" and shell = 0
      and time = 0 and k = 0 and m = "sample_message 7"]
  show ?thesis unfolding basic_task_def by auto
qed

section \<open>Stopping\<close>

text \<open>
  C14. Calling \<open>stop\<close> closes nothing: every actor with one role has a run in which the handler
  of a first message calls \<open>stop\<close>, a second message is accepted after that, and the second message is
  received by a handler. The documentation says that no further messages are processed and
  that calls return \<open>Err\<close>.
\<close>

theorem stop_still_handles:
  fixes s s' :: 's
  assumes "prompt_channel C contents receiving connected"
    and "lp_queues P = 1" and "lp_branches P = [(0, f)]" and "return_path m = Discard"
  shows "\<exists>t. steps P C (start_task P C shell s time)
    [Start, Read_Empty, Read_Running, Read_Timer, Send 0 m, Receive 0 f m, Handler_Stop, Send 0 m',
     Handler_Return s' v, Respond [], Read_Empty, Read_Timer, Receive 0 f m'] t \<and> phase t = Handling f m'"
proof -
  have ch: "role_channel C contents receiving connected"
    using assms(1) by (simp add: prompt_channel_def)
  note send = role_channel.send_open [OF ch] and recv = role_channel.recv_some [OF ch]
  obtain q1 where q1: "ch_send C m (ch_new C) = (q1, Inr ())" "contents q1 = [m]" "receiving q1"
    using send [OF role_channel.new_state(2) [OF ch], of m] role_channel.new_state(1) [OF ch] by auto
  obtain q2 where q2: "ch_recv C q1 = (q2, Ready (Some m))"
    using prompt_channel.recv_prompt [OF assms(1) q1(3,2)] by blast
  obtain q3 where q3: "ch_send C m' q2 = (q3, Inr ())" "contents q3 = [m']" "receiving q3"
    using send [of q2 m'] recv [OF q1(3) q2] q1(2) by auto
  obtain q4 where q4: "ch_recv C q3 = (q4, Ready (Some m'))"
    using prompt_channel.recv_prompt [OF assms(1) q3(3,2)] by blast
  show ?thesis
    using assms(2,3,4) q1 q2 q3 q4 role_channel.is_empty [OF ch] role_channel.new_state(1) [OF ch]
    by (simp add: steps_Cons_iff step_simps start_task_def task_running_def strong_count_def is_running_def
        Context_new_def context_stop_def select_phase_def)
qed

theorem stop_still_handles_witness:
  "\<exists>t. basic_run [Start, Read_Empty, Read_Running, Read_Timer, Send 0 \<lparr>payload = 6, return_path = Discard\<rparr>,
     Receive 0 ''perform_basic_role'' \<lparr>payload = 6, return_path = Discard\<rparr>, Handler_Stop, Send 0 (sample_message 7),
     Handler_Return 1 60, Respond [], Read_Empty, Read_Timer, Receive 0 ''perform_basic_role'' (sample_message 7)] t"
  unfolding basic_task_def
  using stop_still_handles [OF fifo_channel_prompt, of basic_program "''perform_basic_role''"
      "\<lparr>payload = 6, return_path = Discard\<rparr>" 0 0 0 "sample_message 7" 1 60] by (auto simp del: One_nat_def)

text \<open>
  A stopped actor never waits: whenever it selects, its timer is disabled and an enabled branch
  has a message in its queue. So it works its queues off and then leaves the loop at once.
\<close>

theorem stopped_never_waits:
  assumes "role_channel C contents receiving connected" and "program_ok P" and "run P C es t"
    and "Handler_Stop \<in> set es" and "phase t = Selecting bs timer"
  shows "\<not> timer \<and> (\<exists>i<length bs. bs ! i \<and> contents (queues t ! fst (lp_branches P ! i)) \<noteq> [])"
proof -
  have ev: "event_loop C contents receiving connected P"
    using assms(1,2) by (intro event_loop.intro event_loop_axioms.intro)
  have stopped: "\<not> running (actor_ctx t)"
    using run_stopped [OF assms(3)] assms(4) by simp
  have timer: "\<not> timer"
    using run_timer_armed [OF assms(3)] assms(5) stopped by auto
  with run_phase [OF assms(3)] assms(5) obtain i where "i < length bs" "bs ! i"
    by (auto simp: in_set_conv_nth)
  with event_loop.run_enabled [OF ev assms(3)] assms(5) stopped timer show ?thesis by fastforce
qed

theorem stopped_never_waits_witness:
  "\<exists>t. basic_run [Start, Read_Empty, Read_Running, Read_Timer, Send 0 \<lparr>payload = 6, return_path = Discard\<rparr>,
     Receive 0 ''perform_basic_role'' \<lparr>payload = 6, return_path = Discard\<rparr>, Handler_Stop, Send 0 (sample_message 7),
     Handler_Return 1 60, Respond [], Read_Empty, Read_Timer] t \<and> phase t = Selecting [True] False \<and>
    fifo_items (queues t ! 0) \<noteq> []"
proof -
  obtain t where t: "basic_run [Start, Read_Empty, Read_Running, Read_Timer, Send 0 \<lparr>payload = 6, return_path = Discard\<rparr>,
     Receive 0 ''perform_basic_role'' \<lparr>payload = 6, return_path = Discard\<rparr>, Handler_Stop, Send 0 (sample_message 7),
     Handler_Return 1 60, Respond [], Read_Empty, Read_Timer] t" "phase t = Selecting [True] False"
    by (simp add: loop_eval)
  from stopped_never_waits [OF fifo_channel_laws basic_program_ok basic_run_run [OF t(1)] _ t(2)] t
  show ?thesis by auto
qed

section \<open>The watchdog\<close>

text \<open>
  C30. While a task waits with its timer armed, the timer runs out within the idle timeout; and
  when it does, an actor that is still running arms it again, and one whose handles are all
  gone leaves the loop in two steps of its own.
\<close>

theorem watchdog:
  assumes "run P C es t" and "phase t = Selecting bs True" and "IDLE_TIMEOUT \<le> d"
  shows "if 0 < handles t then
      \<exists>t'. steps P C t [Tick d, Timer_Elapsed, Timer_Check] t' \<and> phase t' = Checking [] \<and>
        deadline t' = now t' + IDLE_TIMEOUT
    else \<exists>t'. steps P C t [Tick d, Timer_Elapsed, Timer_Check] t' \<and> phase t' = Broken"
proof -
  have "deadline t \<le> now t + d"
    using run_deadline [OF assms(1)] assms(3) by simp
  moreover have "running (actor_ctx t)"
    using run_timer_armed [OF assms(1)] assms(2) by simp
  ultimately show ?thesis
    using assms(2) by (simp add: steps_Cons_iff step_simps task_running_alive)
qed

theorem watchdog_witness:
  "\<exists>t t'. basic_run (to_select @ [Drop_Handle]) t \<and>
    steps basic_program fifo_channel t [Tick 1000, Timer_Elapsed, Timer_Check] t' \<and> phase t' = Broken"
proof -
  obtain t where t: "basic_run (to_select @ [Drop_Handle]) t" "phase t = Selecting [True] True" "handles t = 0"
    by (simp add: loop_eval)
  have "IDLE_TIMEOUT \<le> 1000" by (simp add: IDLE_TIMEOUT_def)
  from watchdog [OF basic_run_run [OF t(1)] t(2) this] t(1,3) show ?thesis by auto
qed

section \<open>Shutting down ends\<close>

text \<open>
  The work that is left for a task without clients that could send to it: a fixed amount for
  each message that waits, and what is left of the current round.
\<close>

fun rank :: "nat \<Rightarrow> 'v phase \<Rightarrow> nat" where
  "rank n Starting = 2 * n + 10"
| "rank n (Checking bs) = 2 * (n - length bs) + 9"
| "rank n (Found_Empty bs) = 2 * (n - length bs) + 8"
| "rank n (Selecting bs timer) = 8"
| "rank n Timer_Arm = 7"
| "rank n (Handling f m) = 2 * n + 12"
| "rank n (Responding p v) = 2 * n + 11"
| "rank n Broken = 4"
| "rank n (Unwound x) = 4"
| "rank n (Finished r) = 0"

definition work :: "loop_program \<Rightarrow> ('q \<Rightarrow> 'v return_envelope list) \<Rightarrow> ('s, 'q, 'v) task \<Rightarrow> nat" where
  "work P contents t =
     (2 * length (lp_branches P) + 20) * sum_list (map (length \<circ> contents) (queues t)) +
     rank (length (lp_branches P)) (phase t)"

lemma rank_select: "rank n (select_phase bs timer) \<le> 8"
  by (simp add: select_phase_def)

lemma sum_queues_update:
  assumes "k < length qs"
  shows "sum_list (map (length \<circ> contents) (qs[k := q])) + length (contents (qs ! k)) =
    sum_list (map (length \<circ> contents) qs) + length (contents q)"
proof -
  have "length (contents (qs ! k)) \<le> sum_list (map (length \<circ> contents) qs)"
    using assms by (intro member_le_sum_list) auto
  then show ?thesis
    using assms by (simp add: map_update sum_list_update)
qed

lemma finish_work:
  assumes "event_loop C contents receiving connected P" and "phase t = Broken \<or> phase t = Unwound x"
  shows "Suc (work P contents (finish_task C r t)) \<le> work P contents t"
proof -
  have "role_channel C contents receiving connected" using assms(1) by (simp add: event_loop_def)
  then have sum: "sum_list (map (length \<circ> contents) (queues (finish_task C r t))) = 0"
    by (simp add: finish_task_def role_channel.drop_receiver)
  have none: "work P contents (finish_task C r t) = 0"
    unfolding work_def sum by (simp add: finish_task_def)
  have "0 < work P contents t" using assms(2) by (auto simp: work_def)
  then show ?thesis unfolding none by simp
qed

lemma work_step:
  assumes "event_loop C contents receiving connected P" and "run P C es t" and "\<not> stays_open t"
    and "step P C t e t'" and "\<And>k m. e \<noteq> Send k m" and "e \<noteq> Handler_Get_Shell"
  shows "\<not> stays_open t' \<and> work P contents t' + (if moves_on e then 1 else 0) \<le> work P contents t"
proof (cases e)
  case (Receive k f m)
  note recv = event_loop.step_Receive [OF assms(1,2) assms(4) [unfolded Receive]]
  then obtain q bs timer where q: "phase t = Selecting bs timer" "k < lp_queues P" "phase t' = Handling f m"
    "queues t' = (queues t)[k := q]" "contents (queues t ! k) = m # contents q" by blast
  have "k < length (queues t)" using event_loop.run_queues [OF assms(1,2)] q(2) by simp
  from sum_queues_update [OF this, of contents q]
  have sum: "sum_list (map (length \<circ> contents) (queues t)) = Suc (sum_list (map (length \<circ> contents) (queues t')))"
    by (simp add: q(4,5))
  have "stays_open t' = stays_open t"
    using assms(4) Receive by (auto simp: step_simps stays_open_def)
  then show ?thesis
    using assms(3) Receive by (simp add: work_def q(1,3) sum)
next
  case (Poll_Pending k)
  then obtain q where q: "phase t' = phase t" "queues t' = (queues t)[k := q]" "contents q = contents (queues t ! k)"
    using event_loop.step_Poll_Pending [OF assms(1,2)] assms(4) by blast
  have "map (length \<circ> contents) (queues t') = map (length \<circ> contents) (queues t)"
    using q(2,3) by (cases "k < length (queues t)") (auto simp: list_eq_iff_nth_eq nth_list_update list_update_beyond)
  moreover have "stays_open t' = stays_open t"
    using assms(4) Poll_Pending by (auto simp: step_simps stays_open_def)
  ultimately show ?thesis using assms(3) Poll_Pending q(1) by (simp add: work_def)
next
  case (Recv_Closed k)
  then show ?thesis using event_loop.never_closed [OF assms(1,2)] assms(4) by blast
next
  case (Send_Failed k m)
  then show ?thesis using event_loop.step_Send_Failed [OF assms(1,2)] assms(3,4) by auto
next
  case (Send k m)
  then show ?thesis using assms(5) by blast
next
  case Handler_Get_Shell
  then show ?thesis using assms(6) by blast
next
  case Read_Timer
  then show ?thesis
    using assms(3,4) rank_select [of "length (lp_branches P)"]
    by (auto simp: step_simps work_def stays_open_def le_diff_conv intro: le_SucI)
next
  case (Exit_Hook s out)
  then show ?thesis using assms(3,4) finish_work [OF assms(1)]
    by (auto simp: step_simps stays_open_def finish_task_def)
next
  case (Panic_Hook s out)
  then show ?thesis using assms(3,4) finish_work [OF assms(1)]
    by (auto simp: step_simps stays_open_def finish_task_def)
next
  case (Hook_Panic msg)
  then show ?thesis using assms(3,4) finish_work [OF assms(1)]
    by (auto simp: step_simps stays_open_def finish_task_def)
next
  case Read_Running
  then show ?thesis
    using assms(3,4) run_phase [OF assms(2)] by (auto simp: step_simps work_def stays_open_def)
qed (use assms(3,4) in \<open>auto simp: step_simps work_def stays_open_def context_stop_def task_running_alive
      split: if_splits\<close>)

lemma work_steps:
  assumes "event_loop C contents receiving connected P" and "run P C es0 t" and "\<not> stays_open t"
    and "steps P C t es t'" and "\<forall>k m. Send k m \<notin> set es" and "Handler_Get_Shell \<notin> set es"
  shows "\<not> stays_open t' \<and> work P contents t' + length (filter moves_on es) \<le> work P contents t"
  using assms(4,2,3,5,6)
proof (induction rule: steps.induct)
  case (steps_step t es t' e t'')
  have run: "run P C (es0 @ es) t'"
    using steps_step.hyps(1) steps_step.prems(1) by (auto simp: run_def steps_append_iff)
  have IH: "\<not> stays_open t'" "work P contents t' + length (filter moves_on es) \<le> work P contents t"
    using steps_step by auto
  have e: "\<And>k m. e \<noteq> Send k m" "e \<noteq> Handler_Get_Shell" using steps_step.prems(3,4) by auto
  from work_step [OF assms(1) run IH(1) steps_step.hyps(2) e]
  have "\<not> stays_open t''" "work P contents t'' + (if moves_on e then 1 else 0) \<le> work P contents t'" by auto
  with IH(2) show ?case by auto
qed simp

text \<open>
  C22. Shutting down ends: once an actor has been stopped or its last handle is gone, and no
  message is sent to it and no handler hands out its shell again, it takes at most \<open>work\<close> further steps of its own,
  a number fixed by the messages that wait, the number of its roles and where it is.
\<close>

theorem shutdown_bounded:
  assumes "role_channel C contents receiving connected" and "program_ok P"
    and "run P C es t" and "handles t = 0 \<or> Handler_Stop \<in> set es"
    and "steps P C t es' t'" and "\<forall>k m. Send k m \<notin> set es'" and "Handler_Get_Shell \<notin> set es'"
  shows "length (filter moves_on es') \<le> work P contents t"
proof -
  have ev: "event_loop C contents receiving connected P"
    using assms(1,2) by (intro event_loop.intro event_loop_axioms.intro)
  have "\<not> stays_open t"
    using assms(4) run_stopped [OF assms(3)] by (auto simp: stays_open_def)
  from work_steps [OF ev assms(3) this assms(5-7)] show ?thesis by linarith
qed

theorem shutdown_bounded_witness:
  "\<exists>t t'. basic_run (to_select @ [Drop_Handle]) t \<and> work basic_program fifo_items t = 8 \<and>
    steps basic_program fifo_channel t [Tick 1000, Timer_Elapsed, Timer_Check, Exit_Hook 0 (Hook_Value 5)] t' \<and>
    length (filter moves_on [Tick 1000, Timer_Elapsed, Timer_Check, Exit_Hook (0::nat) (Hook_Value (5::nat))]) \<le> 8"
proof -
  obtain t t' where t: "basic_run (to_select @ [Drop_Handle]) t" "handles t = 0" "work basic_program fifo_items t = 8"
    "steps basic_program fifo_channel t [Tick 1000, Timer_Elapsed, Timer_Check, Exit_Hook 0 (Hook_Value 5)] t'"
    by (simp add: loop_eval work_def)
  from shutdown_bounded [OF fifo_channel_laws basic_program_ok basic_run_run [OF t(1)] _ t(4)] t show ?thesis by auto
qed

end
