(* ===== verification/Call_Fates.thy ===== *)
theory Call_Fates
  imports Loop_Properties
begin

text \<open>
  What becomes of the calls that are awaited: a call's oneshot channel travels with its
  message, from the queue through the handler to the answer. Each channel is accounted for at every
  moment of every run.
\<close>

section \<open>Where the oneshot channels are\<close>

definition oneshots :: "'v return_envelope list \<Rightarrow> oneshot multiset" where
  "oneshots ms = mset (concat (map (owned_oneshots \<circ> return_path) ms))"

lemma oneshots_simps [simp]:
  "oneshots [] = {#}" "oneshots (m # ms) = mset (owned_oneshots (return_path m)) + oneshots ms"
  "oneshots (ms @ ms') = oneshots ms + oneshots ms'"
  by (simp_all add: oneshots_def)

text \<open>In the task's own hands: with the message being handled, or with the answer.\<close>

fun in_hand :: "'v phase \<Rightarrow> oneshot multiset" where
  "in_hand (Handling f m) = mset (owned_oneshots (return_path m))"
| "in_hand (Responding p v) = mset (owned_oneshots p)"
| "in_hand ph = {#}"

lemma in_hand_select [simp]: "in_hand (select_phase bs timer) = {#}"
  by (simp add: select_phase_def)

definition open_calls :: "('q \<Rightarrow> 'v return_envelope list) \<Rightarrow> ('s, 'q, 'v) task \<Rightarrow> oneshot multiset" where
  "open_calls contents t = (\<Sum>q\<leftarrow>queues t. oneshots (contents q)) + in_hand (phase t)"

fun sent_any :: "('s, 'v) event \<Rightarrow> 'v return_envelope option" where
  "sent_any (Send i m) = Some m"
| "sent_any _ = None"

definition accepted_calls :: "('s, 'v) event list \<Rightarrow> oneshot multiset" where
  "accepted_calls es = oneshots (filter_unwrap sent_any es)"

fun replied :: "'v effect \<Rightarrow> oneshot option" where
  "replied (Reply channel v) = Some channel"
| "replied (Deliver d m) = None"

definition answered_calls :: "('s, 'v) event list \<Rightarrow> oneshot multiset" where
  "answered_calls es = mset (concat (map (filter_unwrap replied) (filter_unwrap responded es)))"

lemma calls_snoc [simp]:
  "accepted_calls [] = {#}" "answered_calls [] = {#}"
  "accepted_calls (es @ [e]) = accepted_calls es + (case sent_any e of None \<Rightarrow> {#} | Some m \<Rightarrow> mset (owned_oneshots (return_path m)))"
  "answered_calls (es @ [e]) = answered_calls es + (case responded e of None \<Rightarrow> {#} | Some effs \<Rightarrow> mset (filter_unwrap replied effs))"
  by (simp_all add: accepted_calls_def answered_calls_def split: option.splits)

lemma ReturnPath_send_replied: "ReturnPath_send p v = Inr effs \<Longrightarrow> mset (filter_unwrap replied effs) = mset (owned_oneshots p)"
  by (cases "(p, v)" rule: ReturnPath_send.cases) (auto split: option.splits)

lemma ReturnPath_send_panic: "ReturnPath_send p v = Inl e \<Longrightarrow> owned_oneshots p = []"
  by (cases "(p, v)" rule: ReturnPath_send.cases) (auto split: option.splits)

lemma sum_list_update_multiset:
  fixes f :: "'q \<Rightarrow> 'b multiset"
  shows "i < length qs \<Longrightarrow> (\<Sum>q\<leftarrow>qs[i := q']. f q) + f (qs ! i) = (\<Sum>q\<leftarrow>qs. f q) + f q'"
  by (induction qs arbitrary: i) (auto split: nat.splits)

lemma sum_list_empty:
  fixes f :: "'q \<Rightarrow> 'b multiset"
  shows "\<forall>q\<in>set qs. f q = {#} \<Longrightarrow> (\<Sum>q\<leftarrow>qs. f q) = {#}"
  by (induction qs) auto

lemma sum_list_replicate_empty [simp]: "sum_list (replicate n ({#} :: 'b multiset)) = {#}"
  by (induction n) auto

section \<open>Each channel is somewhere\<close>

context event_loop
begin

abbreviation calls_open :: "('s, 'q, 'v) task \<Rightarrow> oneshot multiset" where
  "calls_open \<equiv> open_calls contents"

lemma closed_queues:
  "sum_list (map ((\<lambda>q. oneshots (contents q)) \<circ> ch_drop_receiver C) qs) = {#}"
  by (induction qs) (simp_all add: drop_receiver)

lemma same_contents_sum:
  "i < length qs \<Longrightarrow> contents q' = contents (qs ! i) \<Longrightarrow>
     (\<Sum>q\<leftarrow>qs[i := q']. oneshots (contents q)) = (\<Sum>q\<leftarrow>qs. oneshots (contents q))"
  using sum_list_update_multiset [of i qs "\<lambda>q. oneshots (contents q)" q'] by simp

text \<open>One step: what was open is open, answered, or dropped by a panic or at the end.\<close>

lemma step_calls:
  assumes "run P C es t" and "step P C t e t'"
  shows "\<exists>hung. accepted_calls [e] + calls_open t = answered_calls [e] + calls_open t' + hung \<and>
    (panicked e = None \<and> hook_run e = None \<longrightarrow> hung = {#})"
proof -
  note run = assms(1) and step = assms(2)
  have len: "length (queues t) = lp_queues P" using run_queues [OF run] by simp
  have upd: "k < lp_queues P \<Longrightarrow>
      (\<Sum>q\<leftarrow>(queues t)[k := q']. oneshots (contents q)) + oneshots (contents (queues t ! k)) =
      (\<Sum>q\<leftarrow>queues t. oneshots (contents q)) + oneshots (contents q')" for k q'
    using sum_list_update_multiset [of k "queues t" "\<lambda>q. oneshots (contents q)" q'] len by simp
  show ?thesis
  proof (cases e)
    case (Send k m)
    then obtain q where "k < lp_queues P" "phase t' = phase t" "queues t' = (queues t)[k := q]"
      "contents q = contents (queues t ! k) @ [m]" using step_Send [OF run, of k m t'] step by auto
    with upd [of k q] Send show ?thesis
      by (intro exI [of _ "{#}"]) (simp add: open_calls_def accepted_calls_def answered_calls_def)
  next
    case (Send_Failed k m)
    with step_Send_Failed [OF run, of k m t'] step show ?thesis
      by (simp add: accepted_calls_def answered_calls_def)
  next
    case (Receive k f m)
    then obtain q bs timer where "k < lp_queues P" "phase t = Selecting bs timer" "phase t' = Handling f m"
      "queues t' = (queues t)[k := q]" "contents (queues t ! k) = m # contents q"
      using step_Receive [OF run, of k f m t'] step by auto
    with upd [of k q] Receive show ?thesis
      by (intro exI [of _ "{#}"]) (simp add: open_calls_def accepted_calls_def answered_calls_def)
  next
    case (Poll_Pending k)
    then obtain q where q: "phase t' = phase t" "queues t' = (queues t)[k := q]" "contents q = contents (queues t ! k)"
      using step_Poll_Pending [OF run, of k t'] step by auto
    then have "(\<Sum>q\<leftarrow>queues t'. oneshots (contents q)) = (\<Sum>q\<leftarrow>queues t. oneshots (contents q))"
      using same_contents_sum [of k "queues t" q] by (cases "k < length (queues t)") (simp_all add: list_update_beyond)
    with q(1) Poll_Pending show ?thesis
      by (simp add: open_calls_def accepted_calls_def answered_calls_def)
  next
    case (Recv_Closed k)
    then show ?thesis using never_closed [OF run] step by blast
  next
    case (Respond effs)
    then obtain p v where "phase t = Responding p v" "ReturnPath_send p v = Inr effs" "phase t' = Checking []"
      "queues t' = queues t" using step by (auto simp: step_simps)
    with ReturnPath_send_replied [of p v effs] Respond show ?thesis
      by (simp add: open_calls_def accepted_calls_def answered_calls_def)
  next
    case (Handler_Panic s x)
    then obtain f m where "phase t = Handling f m" "phase t' = Unwound x" "queues t' = queues t"
      using step by (auto simp: step_simps)
    with Handler_Panic show ?thesis
      by (intro exI [of _ "in_hand (phase t)"]) (simp add: open_calls_def accepted_calls_def answered_calls_def)
  next
    case (Respond_Panic x)
    then obtain p v err where "phase t = Responding p v" "ReturnPath_send p v = Inl err" "phase t' = Unwound x"
      "queues t' = queues t" using step by (auto simp: step_simps)
    with ReturnPath_send_panic [of p v err] Respond_Panic show ?thesis
      by (simp add: open_calls_def accepted_calls_def answered_calls_def)
  next
    case (Exit_Hook s out)
    with step show ?thesis
      by (auto simp: step_simps finish_task_def open_calls_def closed_queues accepted_calls_def answered_calls_def)
  next
    case (Panic_Hook s out)
    with step show ?thesis
      by (auto simp: step_simps finish_task_def open_calls_def closed_queues accepted_calls_def answered_calls_def)
  next
    case (Hook_Panic msg)
    with step show ?thesis
      by (auto simp: step_simps finish_task_def open_calls_def closed_queues accepted_calls_def answered_calls_def)
  qed (use step in \<open>auto simp: step_simps open_calls_def accepted_calls_def answered_calls_def split: if_splits\<close>)
qed

lemma finished_calls:
  assumes "run P C es t" and "is_finished (phase t)"
  shows "calls_open t = {#}"
proof -
  have "contents (queues t ! i) = []" if "i < length (queues t)" for i
    using run_queues [OF assms(1)] that assms(2) by (simp add: queue_ok_def)
  then have "\<forall>q\<in>set (queues t). oneshots (contents q) = {#}" by (auto simp: in_set_conv_nth)
  then have "(\<Sum>q\<leftarrow>queues t. oneshots (contents q)) = {#}" by (simp add: sum_list_empty)
  moreover have "in_hand (phase t) = {#}" using assms(2) by (cases "phase t") auto
  ultimately show ?thesis by (simp add: open_calls_def)
qed

lemma run_calls:
  assumes "run P C es t"
  shows "\<exists>hung. accepted_calls es = answered_calls es + calls_open t + hung \<and>
    (filter_unwrap panicked es = [] \<and> filter_unwrap hook_run es = [] \<longrightarrow> hung = {#})"
  using assms
proof (induction rule: run_induct)
  case (start shell s time)
  show ?case
    by (simp add: open_calls_def start_task_def new_state)
next
  case (step es t e t')
  obtain hung where hung: "accepted_calls es = answered_calls es + calls_open t + hung"
    "filter_unwrap panicked es = [] \<and> filter_unwrap hook_run es = [] \<longrightarrow> hung = {#}"
    using step.IH by blast
  obtain more where more: "accepted_calls [e] + calls_open t = answered_calls [e] + calls_open t' + more"
    "panicked e = None \<and> hook_run e = None \<longrightarrow> more = {#}"
    using step_calls [OF step.hyps] by blast
  have "accepted_calls (es @ [e]) = accepted_calls es + accepted_calls [e]"
    "answered_calls (es @ [e]) = answered_calls es + answered_calls [e]"
    by (simp_all add: accepted_calls_def answered_calls_def)
  with hung(1) more(1) have "accepted_calls (es @ [e]) = answered_calls (es @ [e]) + calls_open t' + (hung + more)"
    by (simp add: ac_simps)
  moreover have "filter_unwrap panicked (es @ [e]) = [] \<and> filter_unwrap hook_run (es @ [e]) = [] \<longrightarrow> hung + more = {#}"
    using hung(2) more(2) by (auto split: option.splits)
  ultimately show ?case by blast
qed

end

text \<open>
  C5. The fate of awaited calls: in every run, the oneshot channels of all accepted messages are, each
  once, answered, or still with the task (in a queue, with the handler, or with the answer
  about to be sent), or hung up. None is hung up before a panic or the end of the task,
  and none is left open after it; in particular no call is ever answered twice.
\<close>

theorem call_fates:
  assumes "role_channel C contents receiving connected" and "program_ok P" and "run P C es t"
  shows "\<exists>hung_up. accepted_calls es = answered_calls es + open_calls contents t + hung_up \<and>
    (filter_unwrap panicked es = [] \<and> filter_unwrap hook_run es = [] \<longrightarrow> hung_up = {#}) \<and>
    (is_finished (phase t) \<longrightarrow> open_calls contents t = {#})"
proof -
  have ev: "event_loop C contents receiving connected P"
    using assms(1,2) by (intro event_loop.intro event_loop_axioms.intro)
  from event_loop.run_calls [OF ev assms(3)] event_loop.finished_calls [OF ev assms(3)] show ?thesis by blast
qed

theorem call_fates_witness:
  "\<exists>(es :: (nat, nat) event list) t hung_up. run basic_program fifo_channel es t \<and>
    accepted_calls es = {#7, 8#} \<and> answered_calls es = {#7#} \<and> open_calls fifo_items t + hung_up = {#8#}"
proof -
  let ?es = "to_select @ [Send 0 (sample_message 7), Receive 0 ''perform_basic_role'' (sample_message 7),
      Handler_Return 1 70, Respond [Reply 7 70], Send 0 (sample_message 8)]"
  obtain t where t: "basic_run ?es t" using handled_one_run by blast
  have es: "accepted_calls ?es = {#7, 8#}" "answered_calls ?es = {#7#}"
    by (simp_all add: accepted_calls_def answered_calls_def sample_message_def)
  from call_fates [OF fifo_channel_laws basic_program_ok basic_run_run [OF t]] obtain hung_up where
    "accepted_calls ?es = answered_calls ?es + open_calls fifo_items t + hung_up" by blast
  with es have "open_calls fifo_items t + hung_up = {#8#}" by (simp add: add_eq_conv_ex)
  with es basic_run_run [OF t] show ?thesis by blast
qed

end
