(* ===== verification/Envelopes.thy ===== *)
theory Envelopes
  imports Runtime_Core
begin

text \<open>
  Calls and what becomes of them (\<open>src/src/core/returnval.rs\<close>, \<open>src/src/sendable.rs\<close>): the envelope a
  shell method returns, the four ways to use it, the future that awaits its return value, and
  the tasks that send a future's value or a stream's items to an actor. What other tasks do
  is not known, so every poll is given the answers it gets: of the destination's \<open>enqueue\<close>
  (\<open>Inr\<close> accepted, \<open>Inl\<close> the message handed back) and of the oneshot channel (\<open>Inl\<close> hung up).
\<close>

section \<open>Envelopes: returnval.rs\<close>

record 'v envelope =
  env_val :: "'v option"
  env_dest :: "dest option"

text \<open>The blanket \<open>Accepts<R::Payload>\<close> of \<open>role.rs\<close> takes a payload as it is.\<close>

definition into_payload_reflexive :: "'v \<Rightarrow> 'v" where
  "into_payload_reflexive t = t"

definition Envelope_new :: "'v \<Rightarrow> dest \<Rightarrow> 'v envelope" where
  "Envelope_new val dest = \<lparr>env_val = Some (into_payload_reflexive val), env_dest = Some dest\<rparr>"

definition unwrap_panic :: string where
  "unwrap_panic = ''called `Option::unwrap()` on a `None` value''"

text \<open>\<open>unpack\<close> takes both fields and forgets the envelope, so that it is not dropped.\<close>

definition unpack :: "'v envelope \<Rightarrow> string + 'v \<times> dest" where
  "unpack e =
     (case (env_val e, env_dest e) of
        (Some p, Some dest) \<Rightarrow> Inr (p, dest)
      | _ \<Rightarrow> Inl unwrap_panic)"

text \<open>A call of \<open>enqueue\<close>: the destination and the message.\<close>

type_synonym 'v enqueue_call = "dest \<times> 'v return_envelope"

definition ignore_return :: "'v envelope \<Rightarrow> string + 'v enqueue_call" where
  "ignore_return e =
     map_sum id (\<lambda>(p, dest). (dest, \<lparr>payload = p, return_path = Discard\<rparr>)) (unpack e)"

text \<open>
  \<open>forward_to\<close>: \<open>from_return\<close> is the origin's \<open>from_return_payload\<close> (\<open>None\<close> its panic), \<open>into\<close> the
  recipient's \<open>into_payload\<close>.
\<close>

definition forward_to ::
  "('v \<Rightarrow> 'v option) \<Rightarrow> ('v \<Rightarrow> 'v) \<Rightarrow> dest \<Rightarrow> 'v envelope \<Rightarrow> string + 'v enqueue_call" where
  "forward_to from_return into recipient e =
     map_sum id (\<lambda>(p, original).
       (original, \<lparr>payload = p,
          return_path = Mailbox recipient (\<lambda>sender_payload. map_option into (from_return sender_payload))\<rparr>))
       (unpack e)"

section \<open>Awaiting a return value\<close>

text \<open>\<open>create_immediate\<close>, given the oneshot channel that tokio made.\<close>

definition create_immediate :: "oneshot \<Rightarrow> 'v return_path \<times> oneshot" where
  "create_immediate channel = (Immediate channel, channel)"

record 'v return_caster =
  sender :: "'v enqueue_call option"
  recv_future :: oneshot

definition into_future :: "oneshot \<Rightarrow> 'v envelope \<Rightarrow> string + 'v return_caster" where
  "into_future channel e =
     map_sum id (\<lambda>(p, dest).
       let (path, receiver) = create_immediate channel
       in \<lparr>sender = Some (dest, \<lparr>payload = p, return_path = path\<rparr>), recv_future = receiver\<rparr>)
       (unpack e)"

datatype 'v envelope_err = SendingError "'v return_envelope" | Hangup

fun envelope_err_eq :: "('v return_envelope \<Rightarrow> 'v return_envelope \<Rightarrow> bool) \<Rightarrow>
  'v envelope_err \<Rightarrow> 'v envelope_err \<Rightarrow> bool" where
  "envelope_err_eq eq (SendingError e) (SendingError f) = eq e f"
| "envelope_err_eq eq Hangup Hangup = True"
| "envelope_err_eq eq _ _ = False"

text \<open>\<open>debug_tuple\<close> with one field, which is a string literal and so is shown in quotes.\<close>

definition EnvelopeErr_fmt :: "string \<Rightarrow> 'v envelope_err \<Rightarrow> string" where
  "EnvelopeErr_fmt type_name_R e =
     (let field = (case e of SendingError f \<Rightarrow> ''SendingError'' | Hangup \<Rightarrow> ''Hangup'')
      in ''EnvelopeErr<'' @ type_name_R @ ''>('' @ [CHR 34] @ field @ [CHR 34] @ '')'')"

definition ReturnCaster_fmt :: "string \<Rightarrow> string \<Rightarrow> 'v return_caster \<Rightarrow> string" where
  "ReturnCaster_fmt type_name_R type_name_V c = ''ReturnCaster<'' @ type_name_R @ '', '' @ type_name_V @ ''>''"

text \<open>The answers one poll gets: from the sender, and from the oneshot channel.\<close>

type_synonym 'v answers = "('v return_envelope + unit) poll \<times> (unit + 'v) poll"

text \<open>The second half of \<open>poll\<close>; the outer \<open>Inl\<close> is a panic of \<open>from_return_payload\<close>.\<close>

fun poll_receiver :: "('v \<Rightarrow> 'a option) \<Rightarrow> (unit + 'v) poll \<Rightarrow> string + ('v envelope_err + 'a) poll" where
  "poll_receiver from_return Pending = Inr Pending"
| "poll_receiver from_return (Ready (Inr val)) =
     (case from_return val of None \<Rightarrow> Inl panic_unimplemented | Some v \<Rightarrow> Inr (Ready (Inr v)))"
| "poll_receiver from_return (Ready (Inl err)) = Inr (Ready (Inl Hangup))"

text \<open>
  \<open>ReturnCaster::poll\<close>: the caster afterwards, the messages the destination accepted, and the result.
\<close>

definition ReturnCaster_poll ::
  "('v \<Rightarrow> 'a option) \<Rightarrow> 'v answers \<Rightarrow> 'v return_caster \<Rightarrow>
     'v return_caster \<times> 'v enqueue_call list \<times> (string + ('v envelope_err + 'a) poll)" where
  "ReturnCaster_poll from_return ans c =
     (case sender c of
        Some call \<Rightarrow>
          (case fst ans of
             Pending \<Rightarrow> (c, [], Inr Pending)
           | Ready (Inr ok) \<Rightarrow> (c\<lparr>sender := None\<rparr>, [call], poll_receiver from_return (snd ans))
           | Ready (Inl e) \<Rightarrow> (c, [], Inr (Ready (Inl (SendingError e)))))
      | None \<Rightarrow> (c, [], poll_receiver from_return (snd ans)))"

text \<open>An executor polls as long as the future is pending.\<close>

fun poll_until_ready ::
  "('v \<Rightarrow> 'a option) \<Rightarrow> 'v answers list \<Rightarrow> 'v return_caster \<Rightarrow>
     'v return_caster \<times> 'v enqueue_call list \<times> (string + ('v envelope_err + 'a) poll)" where
  "poll_until_ready from_return [] c = (c, [], Inr Pending)"
| "poll_until_ready from_return (ans # rest) c =
     (case ReturnCaster_poll from_return ans c of
        (c', calls, r) \<Rightarrow>
          if r = Inr Pending
          then (case poll_until_ready from_return rest c' of (c'', calls', r') \<Rightarrow> (c'', calls @ calls', r'))
          else (c', calls, r))"

section \<open>Sending later: sendable.rs\<close>

text \<open>The task of \<open>send_when_ready\<close>: it awaits the future, then \<open>enqueue\<close>, whose error is ignored.\<close>

datatype 'v send_task = Await_Value dest | Await_Enqueue "'v enqueue_call" | Send_Done

fun send_when_ready_step ::
  "('a \<Rightarrow> 'v) \<Rightarrow> 'a poll \<times> ('v return_envelope + unit) poll \<Rightarrow> 'v send_task \<Rightarrow> 'v send_task \<times> 'v enqueue_call list" where
  "send_when_ready_step into (fut, enq) (Await_Value actor) =
     (case fut of
        Pending \<Rightarrow> (Await_Value actor, [])
      | Ready x \<Rightarrow> (Await_Enqueue (actor, \<lparr>payload = into x, return_path = Discard\<rparr>), []))"
| "send_when_ready_step into (fut, enq) (Await_Enqueue call) =
     (case enq of
        Pending \<Rightarrow> (Await_Enqueue call, [])
      | Ready (Inr ok) \<Rightarrow> (Send_Done, [call])
      | Ready (Inl e) \<Rightarrow> (Send_Done, []))"
| "send_when_ready_step into ans Send_Done = (Send_Done, [])"

text \<open>
  The task of \<open>feed_to\<close>, at its two \<open>await\<close>s: \<open>stream.next()\<close> and \<open>enqueue\<close>, where an error breaks
  the loop. The steps also say which item was taken from the stream.
\<close>

datatype 'v feed_task = Feed_Next dest | Feed_Enqueue "'v enqueue_call" | Feed_Done

fun feed_to_step ::
  "('a \<Rightarrow> 'v) \<Rightarrow> 'a option poll \<times> ('v return_envelope + unit) poll \<Rightarrow> 'v feed_task \<Rightarrow>
     'v feed_task \<times> 'a list \<times> 'v enqueue_call list" where
  "feed_to_step into (nxt, enq) (Feed_Next actor) =
     (case nxt of
        Pending \<Rightarrow> (Feed_Next actor, [], [])
      | Ready None \<Rightarrow> (Feed_Done, [], [])
      | Ready (Some msg) \<Rightarrow> (Feed_Enqueue (actor, \<lparr>payload = into msg, return_path = Discard\<rparr>), [msg], []))"
| "feed_to_step into (nxt, enq) (Feed_Enqueue call) =
     (case enq of
        Pending \<Rightarrow> (Feed_Enqueue call, [], [])
      | Ready (Inr ok) \<Rightarrow> (Feed_Next (fst call), [], [call])
      | Ready (Inl e) \<Rightarrow> (Feed_Done, [], []))"
| "feed_to_step into ans Feed_Done = (Feed_Done, [], [])"

fun feed_to_run ::
  "('a \<Rightarrow> 'v) \<Rightarrow> ('a option poll \<times> ('v return_envelope + unit) poll) list \<Rightarrow> 'v feed_task \<Rightarrow>
     'v feed_task \<times> 'a list \<times> 'v enqueue_call list" where
  "feed_to_run into [] s = (s, [], [])"
| "feed_to_run into (ans # rest) s =
     (case feed_to_step into ans s of (s', items, calls) \<Rightarrow>
       (case feed_to_run into rest s' of (s'', items', calls') \<Rightarrow> (s'', items @ items', calls @ calls')))"

fun send_when_ready_run ::
  "('a \<Rightarrow> 'v) \<Rightarrow> ('a poll \<times> ('v return_envelope + unit) poll) list \<Rightarrow> 'v send_task \<Rightarrow> 'v send_task \<times> 'v enqueue_call list" where
  "send_when_ready_run into [] s = (s, [])"
| "send_when_ready_run into (ans # rest) s =
     (case send_when_ready_step into ans s of (s', calls) \<Rightarrow>
       (case send_when_ready_run into rest s' of (s'', calls') \<Rightarrow> (s'', calls @ calls')))"

text \<open>Dropping an envelope spawns \<open>send_when_ready\<close> with a future that is ready.\<close>

definition Envelope_drop :: "'v envelope \<Rightarrow> string + ('v poll \<times> 'v send_task)" where
  "Envelope_drop e =
     (case (env_val e, env_dest e) of
        (Some val, Some dest) \<Rightarrow> Inr (Ready val, Await_Value dest)
      | _ \<Rightarrow> Inl unwrap_panic)"

text \<open>The task that the drop spawns, polled with answers of \<open>enqueue\<close>.\<close>

definition drop_run ::
  "('v return_envelope + unit) poll list \<Rightarrow> 'v envelope \<Rightarrow> string + 'v send_task \<times> 'v enqueue_call list" where
  "drop_run enqs e =
     map_sum id (\<lambda>(fut, task). send_when_ready_run into_payload_reflexive (map (Pair fut) enqs) task) (Envelope_drop e)"

section \<open>Using an envelope\<close>

lemma unpack_new: "unpack (Envelope_new val dest) = Inr (val, dest)"
  by (simp add: unpack_def Envelope_new_def into_payload_reflexive_def)

lemma Envelope_drop_new: "Envelope_drop (Envelope_new p d) = Inr (Ready p, Await_Value d)"
  by (simp add: Envelope_drop_def Envelope_new_def into_payload_reflexive_def)

text \<open>What a single poll does.\<close>

lemma ReturnCaster_poll_cases:
  assumes "ReturnCaster_poll from_return ans c = (c', calls, r)"
  shows "recv_future c' = recv_future c \<and>
    (case sender c of
       None \<Rightarrow> c' = c \<and> calls = [] \<and> r = poll_receiver from_return (snd ans)
     | Some call \<Rightarrow>
         c' = c \<and> calls = [] \<and> (fst ans = Pending \<and> r = Inr Pending \<or>
           (\<exists>e. fst ans = Ready (Inl e) \<and> r = Inr (Ready (Inl (SendingError e))))) \<or>
         sender c' = None \<and> calls = [call] \<and> r = poll_receiver from_return (snd ans))"
  using assms by (auto simp: ReturnCaster_poll_def split: option.splits poll.splits sum.splits)

lemma poll_receiver_sent: "poll_receiver from_return a \<noteq> Inr (Ready (Inl (SendingError e)))"
  by (cases "(from_return, a)" rule: poll_receiver.cases) (auto split: option.splits)

lemma poll_until_ready_sent:
  assumes "poll_until_ready from_return answers c = (c', calls, r)" and "sender c = None"
  shows "sender c' = None \<and> calls = [] \<and> (\<forall>e. r \<noteq> Inr (Ready (Inl (SendingError e))))"
  using assms
proof (induction answers arbitrary: c calls)
  case (Cons ans rest)
  obtain d calls1 r1 where poll: "ReturnCaster_poll from_return ans c = (d, calls1, r1)"
    by (cases "ReturnCaster_poll from_return ans c") auto
  with Cons.prems(2) have "d = c" "calls1 = []" "r1 = poll_receiver from_return (snd ans)"
    using ReturnCaster_poll_cases [OF poll] by auto
  with Cons poll poll_receiver_sent [of from_return "snd ans"] show ?case
    by (auto split: prod.splits if_splits)
qed auto

text \<open>
  C7. Awaiting an envelope sends its message exactly once, however often the future is polled
  and whatever it is answered: the message is accepted at most once; it has been accepted
  when a value arrives or the actor hangs up; it has not been when sending failed; and
  while the future is pending it has been accepted exactly if the sender is gone.
\<close>

theorem await_sends_once:
  assumes "into_future ch (Envelope_new p d) = Inr c"
    and "poll_until_ready from_return answers c = (c', calls, r)"
  shows "(let call = (d, \<lparr>payload = p, return_path = Immediate ch\<rparr>) in
    (calls = [] \<or> calls = [call]) \<and>
    (case r of
       Inl panic \<Rightarrow> calls = [call]
     | Inr Pending \<Rightarrow> calls = (if sender c' = None then [call] else [])
     | Inr (Ready (Inr v)) \<Rightarrow> calls = [call]
     | Inr (Ready (Inl Hangup)) \<Rightarrow> calls = [call]
     | Inr (Ready (Inl (SendingError e))) \<Rightarrow> calls = []))"
proof -
  let ?call = "(d, \<lparr>payload = p, return_path = Immediate ch\<rparr>)"
  have "sender c = Some ?call"
    using assms(1) by (auto simp: into_future_def unpack_new create_immediate_def)
  with assms(2) have "calls = [?call] \<and> sender c' = None \<and> (\<forall>e. r \<noteq> Inr (Ready (Inl (SendingError e)))) \<or>
      calls = [] \<and> sender c' \<noteq> None \<and> (r = Inr Pending \<or> (\<exists>e. r = Inr (Ready (Inl (SendingError e)))))"
  proof (induction answers arbitrary: c calls)
    case (Cons ans rest)
    obtain e calls1 r1 where poll: "ReturnCaster_poll from_return ans c = (e, calls1, r1)"
      by (cases "ReturnCaster_poll from_return ans c") auto
    note one = ReturnCaster_poll_cases [OF poll, unfolded Cons.prems(2)]
    show ?case
    proof (cases "calls1 = []")
      case True
      with one have "e = c" and "r1 = Inr Pending \<or> (\<exists>err. r1 = Inr (Ready (Inl (SendingError err))))"
        by auto
      then show ?thesis
      proof (elim disjE exE)
        assume "r1 = Inr Pending"
        with Cons.prems(1) poll True \<open>e = c\<close> have "poll_until_ready from_return rest c = (c', calls, r)"
          by (simp split: prod.splits)
        from Cons.IH [OF this Cons.prems(2)] show ?thesis .
      next
        fix err assume "r1 = Inr (Ready (Inl (SendingError err)))"
        with Cons.prems poll True \<open>e = c\<close> show ?thesis by auto
      qed
    next
      case False
      with one have sent: "sender e = None" "calls1 = [?call]" "r1 = poll_receiver from_return (snd ans)" by auto
      obtain c2 calls2 r2 where rest: "poll_until_ready from_return rest e = (c2, calls2, r2)"
        by (cases "poll_until_ready from_return rest e") auto
      show ?thesis
        using Cons.prems(1) poll sent poll_until_ready_sent [OF rest sent(1)] rest
          poll_receiver_sent [of from_return "snd ans"] by (cases "r1 = Inr Pending") auto
    qed
  qed auto
  then show ?thesis
    by (auto simp: Let_def split: sum.splits poll.splits envelope_err.splits)
qed

theorem await_sends_once_witness:
  "\<exists>c c'. into_future 3 (Envelope_new (7::nat) \<lparr>dest_shell = 0, dest_role = 0\<rparr>) = Inr c \<and>
    poll_until_ready Some [(Pending, Pending), (Ready (Inr ()), Pending), (Pending, Ready (Inr 70))] c =
      (c', [(\<lparr>dest_shell = 0, dest_role = 0\<rparr>, \<lparr>payload = 7, return_path = Immediate 3\<rparr>)], Inr (Ready (Inr 70)))"
proof -
  obtain c where c: "into_future 3 (Envelope_new (7::nat) \<lparr>dest_shell = 0, dest_role = 0\<rparr>) = Inr c"
    by (simp add: into_future_def unpack_new create_immediate_def)
  then have "\<exists>c' calls. poll_until_ready Some [(Pending, Pending), (Ready (Inr ()), Pending), (Pending, Ready (Inr 70))] c =
      (c', calls, Inr (Ready (Inr 70)))"
    by (auto simp: into_future_def unpack_new create_immediate_def ReturnCaster_poll_def)
  then obtain c' calls where polls:
    "poll_until_ready Some [(Pending, Pending), (Ready (Inr ()), Pending), (Pending, Ready (Inr 70))] c =
      (c', calls, Inr (Ready (Inr 70)))" by blast
  from await_sends_once [OF c polls] c polls show ?thesis by (auto simp: Let_def)
qed

section \<open>Feeding a stream\<close>

lemma feed_to_run_append:
  "feed_to_run into (xs @ ys) s =
     (case feed_to_run into xs s of (s', items, calls) \<Rightarrow>
       (case feed_to_run into ys s' of (s'', items', calls') \<Rightarrow> (s'', items @ items', calls @ calls')))"
  by (induction xs arbitrary: s) (auto split: prod.splits)

lemma feed_to_run_done: "feed_to_run into answers Feed_Done = (Feed_Done, [], [])"
  by (induction answers) auto

text \<open>How the items taken and the messages accepted fit the state of the task.\<close>

fun feed_ok :: "('a \<Rightarrow> 'v enqueue_call) \<Rightarrow> dest \<Rightarrow> 'v feed_task \<Rightarrow> 'a list \<Rightarrow> 'v enqueue_call list \<Rightarrow> bool" where
  "feed_ok msg d (Feed_Next d') items calls \<longleftrightarrow> d' = d \<and> calls = map msg items"
| "feed_ok msg d (Feed_Enqueue call) items calls \<longleftrightarrow>
     (\<exists>x before. items = before @ [x] \<and> call = msg x \<and> calls = map msg before)"
| "feed_ok msg d Feed_Done items calls \<longleftrightarrow>
     calls = map msg items \<or> (items \<noteq> [] \<and> calls = map msg (butlast items))"

lemma feed_to_step_ok:
  assumes "feed_to_step into ans s = (s', items', calls')"
    and "feed_ok (\<lambda>x. (d, \<lparr>payload = into x, return_path = Discard\<rparr>)) d s items calls"
  shows "feed_ok (\<lambda>x. (d, \<lparr>payload = into x, return_path = Discard\<rparr>)) d s' (items @ items') (calls @ calls')"
  using assms
  by (cases "(into, ans, s)" rule: feed_to_step.cases)
    (auto split: poll.splits option.splits sum.splits simp: butlast_append)

lemma feed_to_run_ok:
  "feed_to_run into answers (Feed_Next d) = (s, items, calls) \<Longrightarrow>
     feed_ok (\<lambda>x. (d, \<lparr>payload = into x, return_path = Discard\<rparr>)) d s items calls"
proof (induction answers arbitrary: s items calls rule: rev_induct)
  case (snoc ans answers)
  obtain s1 items1 calls1 where run: "feed_to_run into answers (Feed_Next d) = (s1, items1, calls1)"
    by (cases "feed_to_run into answers (Feed_Next d)") auto
  obtain s2 items2 calls2 where step: "feed_to_step into ans s1 = (s2, items2, calls2)"
    by (cases "feed_to_step into ans s1") auto
  from feed_to_step_ok [OF step snoc.IH [OF run]] snoc.prems run step show ?case
    by (simp add: feed_to_run_append)
qed simp

text \<open>
  C33. A stream that is fed to an actor arrives in order and without gaps: the messages the
  actor has accepted are the items taken from the stream so far, except for the last one
  while it is being enqueued or when enqueuing it failed; no return values come back; and after a failure or
  the end of the stream nothing more is taken.
\<close>

theorem feed_in_order:
  assumes "feed_to_run into answers (Feed_Next d) = (s, items, calls)"
  shows "let message = \<lambda>x. (d, \<lparr>payload = into x, return_path = Discard\<rparr>) in
    (case s of
       Feed_Next d' \<Rightarrow> d' = d \<and> calls = map message items
     | Feed_Enqueue call \<Rightarrow> (\<exists>x before. items = before @ [x] \<and> call = message x \<and> calls = map message before)
     | Feed_Done \<Rightarrow> calls = map message items \<or> (items \<noteq> [] \<and> calls = map message (butlast items))) \<and>
    (s = Feed_Done \<longrightarrow> (\<forall>more. feed_to_run into (answers @ more) (Feed_Next d) = (s, items, calls)))"
proof -
  have "feed_ok (\<lambda>x. (d, \<lparr>payload = into x, return_path = Discard\<rparr>)) d s items calls"
    using feed_to_run_ok [OF assms] .
  moreover have "feed_to_run into (answers @ more) (Feed_Next d) = (s, items, calls)" if "s = Feed_Done" for more
    using assms that by (simp add: feed_to_run_append feed_to_run_done)
  ultimately show ?thesis by (auto simp: Let_def split: feed_task.splits)
qed

theorem feed_in_order_witness:
  "\<exists>s items calls. feed_to_run id [(Ready (Some (7::nat)), Pending), (Pending, Ready (Inr ())), (Ready (Some 8), Pending)]
      (Feed_Next \<lparr>dest_shell = 0, dest_role = 0\<rparr>) = (s, items, calls) \<and> items = [7, 8] \<and>
    calls = [(\<lparr>dest_shell = 0, dest_role = 0\<rparr>, \<lparr>payload = 7, return_path = Discard\<rparr>)]"
proof -
  obtain s items calls where run: "feed_to_run id [(Ready (Some (7::nat)), Pending), (Pending, Ready (Inr ())), (Ready (Some 8), Pending)]
      (Feed_Next \<lparr>dest_shell = 0, dest_role = 0\<rparr>) = (s, items, calls)" "items = [7, 8]"
    "s = Feed_Enqueue (\<lparr>dest_shell = 0, dest_role = 0\<rparr>, \<lparr>payload = 8, return_path = Discard\<rparr>)"
    by simp
  from feed_in_order [OF run(1)] run show ?thesis by (auto simp: Let_def)
qed

section \<open>Sending without waiting\<close>

text \<open>The first answer that is not \<open>Pending\<close>, and the answers after it.\<close>

fun first_ready :: "'a poll list \<Rightarrow> 'a option" where
  "first_ready [] = None"
| "first_ready (Pending # as) = first_ready as"
| "first_ready (Ready x # as) = Some x"

fun after_ready :: "('a poll \<times> 'b) list \<Rightarrow> 'b list" where
  "after_ready [] = []"
| "after_ready ((Pending, b) # as) = after_ready as"
| "after_ready ((Ready x, b) # as) = map snd as"

text \<open>What is left of an \<open>enqueue\<close> and what it sent, from the answers it got.\<close>

definition enqueued :: "'v enqueue_call \<Rightarrow> ('v return_envelope + unit) poll list \<Rightarrow> 'v send_task \<times> 'v enqueue_call list" where
  "enqueued call enqs =
     (case first_ready enqs of
        None \<Rightarrow> (Await_Enqueue call, [])
      | Some r \<Rightarrow> (Send_Done, if isl r then [] else [call]))"

lemma send_done: "send_when_ready_run into answers Send_Done = (Send_Done, [])"
  by (induction answers) simp_all

lemma send_enqueue: "send_when_ready_run into answers (Await_Enqueue call) = enqueued call (map snd answers)"
proof (induction answers)
  case (Cons ans answers)
  obtain fut enq where "ans = (fut, enq)" by (cases ans)
  with Cons.IH show ?case by (auto simp: enqueued_def send_done split: poll.splits sum.splits)
qed (simp add: enqueued_def)

lemma send_value:
  "send_when_ready_run into answers (Await_Value d) =
     (case first_ready (map fst answers) of
        None \<Rightarrow> (Await_Value d, [])
      | Some x \<Rightarrow> enqueued (d, \<lparr>payload = into x, return_path = Discard\<rparr>) (after_ready answers))"
proof (induction answers)
  case (Cons ans answers)
  obtain fut enq where "ans = (fut, enq)" by (cases ans)
  with Cons.IH show ?case by (cases fut) (simp_all add: send_enqueue split: option.splits)
qed simp

text \<open>
  C32. A message that nobody waits for is sent once at the most, whatever the future and the destination answer
  and however often the spawned task is polled: not before the future has given its value; then the
  value, with its return value discarded, by the first \<open>enqueue\<close> that is answered, once if that accepts it
  and never if it fails; and nothing afterwards. A dropped envelope is such a message, its future being ready at
  once, and its drop does not panic.
\<close>

theorem dropped_sends_once:
  "send_when_ready_run into answers (Await_Value d) =
     (case first_ready (map fst answers) of
        None \<Rightarrow> (Await_Value d, [])
      | Some x \<Rightarrow> enqueued (d, \<lparr>payload = into x, return_path = Discard\<rparr>) (after_ready answers)) \<and>
   drop_run enqs (Envelope_new p d) =
     Inr (if enqs = [] then (Await_Value d, []) else enqueued (d, \<lparr>payload = p, return_path = Discard\<rparr>) (tl enqs))"
proof
  show "drop_run enqs (Envelope_new p d) =
     Inr (if enqs = [] then (Await_Value d, []) else enqueued (d, \<lparr>payload = p, return_path = Discard\<rparr>) (tl enqs))"
    by (cases enqs) (simp_all add: drop_run_def Envelope_drop_new send_enqueue into_payload_reflexive_def comp_def)
qed (rule send_value)

theorem dropped_sends_once_witness:
  "drop_run [Pending, Pending, Ready (Inr ()), Ready (Inr ())] (Envelope_new (7::nat) \<lparr>dest_shell = 0, dest_role = 0\<rparr>) =
     Inr (Send_Done, [(\<lparr>dest_shell = 0, dest_role = 0\<rparr>, \<lparr>payload = 7, return_path = Discard\<rparr>)])"
  using dropped_sends_once [of id "[]" "\<lparr>dest_shell = 0, dest_role = 0\<rparr>" "[Pending, Pending, Ready (Inr ()), Ready (Inr ())]" "7::nat"]
  by (simp add: enqueued_def)

end
