(* ===== verification/Actor_System.thy ===== *)
theory Actor_System
  imports Loop_Properties Envelopes "HOL-Library.Sublist"
begin

text \<open>
  Several actors at once: the tasks of a program's actors, the clients between them, and the one way in
  which the framework itself makes an actor call another, the closure that \<open>forward_to\<close> puts
  into a return path (\<open>src/src/core/returnval.rs\<close>). A shell is named by its actor's position, a
  role by its queue's.
\<close>

section \<open>Steps of a system\<close>

text \<open>
  \<open>Local i e\<close>: an event of actor \<open>i\<close> and its clients. \<open>Forward i d m ok\<close>: actor \<open>i\<close> sends its
  answer on as the message \<open>m\<close> to \<open>d\<close>, which accepts it if \<open>ok\<close>; the closure calls \<open>enqueue\<close>,
  which does not wait, so this is one step.
\<close>

datatype ('s, 'v) sys_event =
    Local nat "('s, 'v) event"
  | Forward nat dest "'v return_envelope" bool

fun delivers :: "('s, 'v) event \<Rightarrow> bool" where
  "delivers (Respond effects) = (\<exists>d m. Deliver d m \<in> set effects)"
| "delivers e = False"

definition enqueue_event :: "dest \<Rightarrow> 'v return_envelope \<Rightarrow> bool \<Rightarrow> ('s, 'v) event" where
  "enqueue_event d m ok = (if ok then Send (dest_role d) m else Send_Failed (dest_role d) m)"

inductive sys_step ::
  "loop_program list \<Rightarrow> ('q, 'v return_envelope) channel \<Rightarrow> ('s, 'q, 'v) task list \<Rightarrow> ('s, 'v) sys_event \<Rightarrow>
     ('s, 'q, 'v) task list \<Rightarrow> bool"
  for Ps :: "loop_program list" and C :: "('q, 'v return_envelope) channel"
where
  local: "i < length ts \<Longrightarrow> step (Ps ! i) C (ts ! i) e t \<Longrightarrow> \<not> delivers e \<Longrightarrow>
    sys_step Ps C ts (Local i e) (ts[i := t])"
| forward: "i < length ts \<Longrightarrow> step (Ps ! i) C (ts ! i) (Respond [Deliver d m]) t \<Longrightarrow>
    dest_shell d < length ts \<Longrightarrow>
    step (Ps ! dest_shell d) C (ts[i := t] ! dest_shell d) (enqueue_event d m ok) u \<Longrightarrow>
    sys_step Ps C ts (Forward i d m ok) (ts[i := t, dest_shell d := u])"

inductive_cases sys_step_local: "sys_step Ps C ts (Local i e) ts'"
inductive_cases sys_step_forward: "sys_step Ps C ts (Forward i d m ok) ts'"

text \<open>Runs of freshly started actors.\<close>

inductive sys_run ::
  "loop_program list \<Rightarrow> ('q, 'v return_envelope) channel \<Rightarrow> ('s, 'v) sys_event list \<Rightarrow> ('s, 'q, 'v) task list \<Rightarrow> bool"
  for Ps :: "loop_program list" and C :: "('q, 'v return_envelope) channel"
where
  sys_start: "length ts = length Ps \<Longrightarrow>
    \<forall>i<length Ps. \<exists>s time. ts ! i = start_task (Ps ! i) C i s time \<Longrightarrow> sys_run Ps C [] ts"
| sys_more: "sys_run Ps C es ts \<Longrightarrow> sys_step Ps C ts e ts' \<Longrightarrow> sys_run Ps C (es @ [e]) ts'"

section \<open>An actor in a system\<close>

text \<open>What an event of the system is for actor \<open>j\<close>.\<close>

fun view :: "nat \<Rightarrow> ('s, 'v) sys_event \<Rightarrow> ('s, 'v) event list" where
  "view j (Local i e) = (if i = j then [e] else [])"
| "view j (Forward i d m ok) =
     (if i = j then [Respond [Deliver d m]] else []) @ (if dest_shell d = j then [enqueue_event d m ok] else [])"

definition views :: "nat \<Rightarrow> ('s, 'v) sys_event list \<Rightarrow> ('s, 'v) event list" where
  "views j es = concat (map (view j) es)"

lemma sys_run_length: "sys_run Ps C es ts \<Longrightarrow> length ts = length Ps"
  by (induction rule: sys_run.induct) (auto elim: sys_step.cases)

lemma sys_step_view:
  assumes "sys_step Ps C ts e ts'" and "j < length ts" and "run (Ps ! j) C es (ts ! j)"
  shows "run (Ps ! j) C (es @ view j e) (ts' ! j)"
  using assms(1)
proof cases
  case (local i e' t)
  then show ?thesis using assms(2,3) run_snoc by (cases "i = j") (auto simp: nth_list_update)
next
  case (forward i d m t ok u)
  have mid: "run (Ps ! j) C (es @ (if i = j then [Respond [Deliver d m]] else [])) (ts[i := t] ! j)"
    using forward(3,4) assms(2,3) run_snoc by (cases "i = j") (auto simp: nth_list_update)
  show ?thesis
  proof (cases "dest_shell d = j")
    case True
    with mid forward run_snoc [OF mid] assms(2) show ?thesis by (auto simp: nth_list_update)
  next
    case False
    with mid forward assms(2) show ?thesis by (auto simp: nth_list_update)
  qed
qed

lemma sys_run_actor:
  assumes "sys_run Ps C es ts" and "j < length Ps"
  shows "run (Ps ! j) C (views j es) (ts ! j)"
  using assms
proof (induction rule: sys_run.induct)
  case (sys_start ts)
  then obtain s time where "ts ! j = start_task (Ps ! j) C j s time" by blast
  then show ?case using run_Nil [of "Ps ! j" C j s time] by (simp add: views_def)
next
  case (sys_more es ts e ts')
  then show ?case
    using sys_step_view [OF sys_more.hyps(2), of j "views j es"] sys_run_length [OF sys_more.hyps(1)]
    by (simp add: views_def)
qed

section \<open>Forwarding\<close>

lemma forward_step:
  assumes "role_channel C contents receiving connected" and "\<forall>P\<in>set Ps. program_ok P"
    and "sys_run Ps C es ts" and "sys_step Ps C ts (Forward i d m ok) ts'"
  shows "(\<exists>bridge v p. phase (ts ! i) = Responding (Mailbox d bridge) v \<and> bridge v = Some p \<and>
      m = \<lparr>payload = p, return_path = Discard\<rparr>) \<and>
    (ok \<longleftrightarrow> \<not> is_finished (phase (ts ! dest_shell d))) \<and>
    (\<forall>j<length Ps. \<forall>k<lp_queues (Ps ! j). contents (queues (ts' ! j) ! k) = contents (queues (ts ! j) ! k) @
      (if ok \<and> d = \<lparr>dest_shell = j, dest_role = k\<rparr> then [m] else []))"
proof -
  from assms(4) obtain t u where i: "i < length ts" and resp: "step (Ps ! i) C (ts ! i) (Respond [Deliver d m]) t"
    and d: "dest_shell d < length ts"
    and enq: "step (Ps ! dest_shell d) C (ts[i := t] ! dest_shell d) (enqueue_event d m ok) u"
    and ts': "ts' = ts[i := t, dest_shell d := u]"
    by (rule sys_step_forward)
  have len: "length ts = length Ps" by (rule sys_run_length [OF assms(3)])
  from resp obtain path v where path: "phase (ts ! i) = Responding path v"
    "ReturnPath_send path v = Inr [Deliver d m]" and t: "t = (ts ! i)\<lparr>phase := Checking []\<rparr>"
    by (auto simp: step_simps)
  have bridge: "\<exists>bridge p. path = Mailbox d bridge \<and> bridge v = Some p \<and> m = \<lparr>payload = p, return_path = Discard\<rparr>"
    using path(2) by (cases "(path, v)" rule: ReturnPath_send.cases) (auto split: option.splits)
  have ev: "event_loop C contents receiving connected (Ps ! dest_shell d)"
    using assms(1,2) d len by (intro event_loop.intro event_loop_axioms.intro) auto
  have mid: "\<exists>es'. run (Ps ! dest_shell d) C es' (ts[i := t] ! dest_shell d)"
    using sys_run_actor [OF assms(3), of "dest_shell d"] run_snoc [OF _ resp] d len
    by (cases "i = dest_shell d") auto
  have same: "is_finished (phase (ts[i := t] ! dest_shell d)) = is_finished (phase (ts ! dest_shell d))"
    "queues (ts[i := t] ! dest_shell d) = queues (ts ! dest_shell d)"
    using d path(1) by (cases "i = dest_shell d"; simp add: t)+
  obtain es' where run: "run (Ps ! dest_shell d) C es' (ts[i := t] ! dest_shell d)" using mid by blast
  note qs = event_loop.run_queues [OF ev run]
  have there: "(ok \<longleftrightarrow> \<not> is_finished (phase (ts ! dest_shell d))) \<and>
    (\<forall>k<lp_queues (Ps ! dest_shell d). contents (queues u ! k) = contents (queues (ts ! dest_shell d) ! k) @
      (if ok \<and> dest_role d = k then [m] else []))"
  proof (cases ok)
    case True
    with event_loop.step_Send [OF ev run, of "dest_role d" m u] enq same qs show ?thesis
      by (auto simp: enqueue_event_def nth_list_update)
  next
    case False
    with event_loop.step_Send_Failed [OF ev run, of "dest_role d" m u] enq same show ?thesis
      by (auto simp: enqueue_event_def)
  qed
  have elsewhere: "queues (ts' ! j) = queues (ts ! j)" if "j \<noteq> dest_shell d" "j < length Ps" for j
    using that len by (cases "i = j") (simp_all add: ts' t)
  have "ts' ! dest_shell d = u" using d by (simp add: ts')
  have "contents (queues (ts' ! j) ! k) = contents (queues (ts ! j) ! k) @
      (if ok \<and> d = \<lparr>dest_shell = j, dest_role = k\<rparr> then [m] else [])" if "j < length Ps" "k < lp_queues (Ps ! j)" for j k
  proof (cases "j = dest_shell d")
    case True
    then have "d = \<lparr>dest_shell = j, dest_role = k\<rparr> \<longleftrightarrow> dest_role d = k" by (cases d) auto
    with True that(2) there \<open>ts' ! dest_shell d = u\<close> show ?thesis by simp
  next
    case False
    with elsewhere that(1) show ?thesis by auto
  qed
  with there path(1) bridge show ?thesis by blast
qed

text \<open>
  C12. Forwarding, across actors: what an actor forwards is the value its handler returned, taken through the
  bridge of the message's own path, as one message whose answer is discarded; the recipient
  accepts it, as the last in the queue of the role it was sent to, exactly if its task is not over, and
  the contents of no other queue of any actor change.
\<close>

theorem forward_delivers:
  assumes "role_channel C contents receiving connected" and "\<forall>P\<in>set Ps. program_ok P"
    and "sys_run Ps C es ts" and "sys_step Ps C ts (Forward i d m ok) ts'"
  shows "(\<exists>bridge v p. phase (ts ! i) = Responding (Mailbox d bridge) v \<and> bridge v = Some p \<and>
      m = \<lparr>payload = p, return_path = Discard\<rparr>) \<and>
    (ok \<longleftrightarrow> \<not> is_finished (phase (ts ! dest_shell d))) \<and>
    (\<forall>j<length Ps. \<forall>k<lp_queues (Ps ! j). contents (queues (ts' ! j) ! k) = contents (queues (ts ! j) ! k) @
      (if ok \<and> d = \<lparr>dest_shell = j, dest_role = k\<rparr> then [m] else []))"
  using assms by (rule forward_step)

section \<open>From a handler's answer to another actor's handler\<close>

text \<open>What an answered message contributes to the queue of \<open>d\<close>: its value, through the bridge of its path.\<close>

definition bridged :: "dest \<Rightarrow> 'v return_envelope \<times> 'v \<Rightarrow> 'v return_envelope option" where
  "bridged d mv =
     (case return_path (fst mv) of
        Mailbox d' bridge \<Rightarrow>
          if d' = d then map_option (\<lambda>p. \<lparr>payload = p, return_path = Discard\<rparr>) (bridge (snd mv)) else None
      | _ \<Rightarrow> None)"

text \<open>The messages an actor has answered, each with its handler's value.\<close>

definition answered :: "('s, 'v) event list \<Rightarrow> ('v return_envelope \<times> 'v) list" where
  "answered es = take (length (filter_unwrap responded es)) (zip (filter_unwrap handled es) (filter_unwrap returned es))"

text \<open>
  The messages a queue has accepted, in the order of their arrival, each with the actor it was forwarded
  from, if it was not a client's.
\<close>

fun arrival :: "dest \<Rightarrow> ('s, 'v) sys_event \<Rightarrow> (nat option \<times> 'v return_envelope) option" where
  "arrival d (Local i e) = (if i = dest_shell d then map_option (Pair None) (sent_to (dest_role d) e) else None)"
| "arrival d (Forward i d' m ok) = (if ok \<and> d' = d then Some (Some i, m) else None)"

definition arrivals_from :: "nat \<Rightarrow> (nat option \<times> 'v return_envelope) list \<Rightarrow> 'v return_envelope list" where
  "arrivals_from i as = map snd (filter (\<lambda>a. fst a = Some i) as)"

text \<open>What an actor has sent on to a destination, accepted or not.\<close>

fun forwarded :: "nat \<Rightarrow> dest \<Rightarrow> ('s, 'v) sys_event \<Rightarrow> 'v return_envelope option" where
  "forwarded i d (Forward i' d' m ok) = (if i' = i \<and> d' = d then Some m else None)"
| "forwarded i d e = None"

fun delivered :: "dest \<Rightarrow> 'v effect list \<Rightarrow> 'v return_envelope option" where
  "delivered d [Deliver d' m] = (if d' = d then Some m else None)"
| "delivered d effects = None"

lemma delivered_bridged:
  "ReturnPath_send (return_path (fst mv)) (snd mv) = Inr effects \<Longrightarrow> delivered d effects = bridged d mv"
  by (cases "(return_path (fst mv), snd mv)" rule: ReturnPath_send.cases) (auto simp: bridged_def split: option.splits)

lemma answered_delivered:
  assumes "run P C es t"
  shows "filter_unwrap (delivered d) (filter_unwrap responded es) = filter_unwrap (bridged d) (answered es)"
proof -
  let ?ms = "filter_unwrap handled es" and ?vs = "filter_unwrap returned es" and ?effs = "filter_unwrap responded es"
  have lengths: "length ?effs \<le> length ?vs" "length ?vs \<le> length ?ms"
    using run_answers [OF assms] answers_ok_lengths by blast+
  have "list_all2 (\<lambda>effects mv. ReturnPath_send (return_path (fst mv)) (snd mv) = Inr effects) ?effs (answered es)"
    using run_answers [OF assms] lengths by (auto simp: list_all2_conv_all_nth answered_def answers_match_def)
  then show ?thesis
    by (induction rule: list_all2_induct) (simp_all add: delivered_bridged split: option.splits)
qed

lemma step_forwarded:
  assumes "sys_step Ps C ts e ts'"
  shows "filter_unwrap (delivered d) (filter_unwrap responded (view i e)) = filter_unwrap (forwarded i d) [e]"
  using assms
proof cases
  case (local j e' t)
  have "delivered d effects = None" if "e' = Respond effects" for effects
    using local(5) that by (cases "(d, effects)" rule: delivered.cases) auto
  with local show ?thesis by (cases e') simp_all
next
  case (forward j d' m t ok u)
  then show ?thesis by (simp add: enqueue_event_def)
qed

lemma views_snoc: "views j (es @ [e]) = views j es @ view j e"
  by (simp add: views_def)

lemma sys_run_forwarded:
  "sys_run Ps C es ts \<Longrightarrow>
     filter_unwrap (delivered d) (filter_unwrap responded (views i es)) = filter_unwrap (forwarded i d) es"
proof (induction rule: sys_run.induct)
  case (sys_more es ts e ts')
  from sys_more.IH step_forwarded [OF sys_more.hyps(2), of d i] show ?case
    by (simp only: views_snoc filter_unwrap_append)
qed (simp add: views_def)

lemma sent_arrivals: "sent k (views j es) = map snd (filter_unwrap (arrival \<lparr>dest_shell = j, dest_role = k\<rparr>) es)"
proof (induction es)
  case (Cons e es)
  have "sent k (view j e @ views j es) = sent k (view j e) @ sent k (views j es)"
    by (simp add: sent_def)
  with Cons show ?case
    by (cases e) (auto simp: views_def sent_def enqueue_event_def split: option.splits)
qed (simp add: views_def sent_def)

lemma step_finished: "step P C t e t' \<Longrightarrow> is_finished (phase t) \<Longrightarrow> is_finished (phase t')"
  by (cases e) (auto simp: step_simps finish_task_def split: if_splits)

lemma sys_step_finished:
  assumes "sys_step Ps C ts e ts'" and "is_finished (phase (ts ! j))" and "j < length ts"
  shows "is_finished (phase (ts' ! j))"
  using assms(1)
proof cases
  case (local i e' t)
  with assms step_finished show ?thesis by (cases "i = j") auto
next
  case (forward i d m t ok u)
  have "is_finished (phase (ts[i := t] ! j))"
    using forward(4) assms step_finished by (cases "i = j") auto
  with forward assms(3) step_finished show ?thesis by (cases "dest_shell d = j") auto
qed

text \<open>Forwards are accepted as long as the recipient's task is not over, and from then on none is.\<close>

lemma accepted_prefix:
  assumes "role_channel C contents receiving connected" and "\<forall>P\<in>set Ps. program_ok P"
    and "sys_run Ps C es ts" and "dest_shell d < length Ps"
  shows "prefix (arrivals_from i (filter_unwrap (arrival d) es)) (filter_unwrap (forwarded i d) es) \<and>
    (\<not> is_finished (phase (ts ! dest_shell d)) \<longrightarrow>
      arrivals_from i (filter_unwrap (arrival d) es) = filter_unwrap (forwarded i d) es)"
  using assms(3,4)
proof (induction rule: sys_run.induct)
  case (sys_start ts)
  then show ?case by (simp add: arrivals_from_def)
next
  case (sys_more es ts e ts')
  note len = sys_run_length [OF sys_more.hyps(1)]
  have stays: "is_finished (phase (ts ! dest_shell d)) \<Longrightarrow> is_finished (phase (ts' ! dest_shell d))"
    using sys_step_finished [OF sys_more.hyps(2)] sys_more.prems len by simp
  have ok: "ok \<longleftrightarrow> \<not> is_finished (phase (ts ! dest_shell d'))" if "e = Forward i' d' m ok" for i' d' m ok
    using forward_step [OF assms(1,2) sys_more.hyps(1)] sys_more.hyps(2) that by blast
  show ?case
  proof (cases e)
    case (Local j e')
    with sys_more.IH sys_more.prems stays show ?thesis
      by (auto simp: arrivals_from_def split: option.splits)
  next
    case (Forward j d' m accepted)
    with sys_more.IH sys_more.prems stays ok [OF Forward] show ?thesis
      by (auto simp: arrivals_from_def)
  qed
qed

lemma bridged_forward_to:
  "forward_to from_return into d (Envelope_new p origin) = Inr (origin', m) \<Longrightarrow>
     origin' = origin \<and> payload m = p \<and>
     bridged d (m, v) = map_option (\<lambda>x. \<lparr>payload = into x, return_path = Discard\<rparr>) (from_return v)"
  by (auto simp: forward_to_def unpack_new bridged_def option.map_comp comp_def)

text \<open>
  C4. Forwarding from end to end, in every run of a system of actors, whatever its clients do and however the actors'
  steps interleave. What actor \<open>i\<close> has sent to the role \<open>d\<close> are the values its handlers returned
  for messages with a path to \<open>d\<close>, through the bridge of each, one for each such message it has answered and in the
  order it handled them. The role accepts them in that order and without a gap, all of them while its task is not over.
  The role's handlers receive what arrived, from all senders, in the order of arrival, and the rest is in the
  queue. A call made with \<open>forward_to\<close> has such a path, whose bridge converts the value for the recipient.
\<close>

theorem forwarding_in_order:
  fixes ts :: "('s, 'q, 'v) task list"
  assumes "role_channel C contents receiving connected" and "\<forall>P\<in>set Ps. program_ok P"
    and "sys_run Ps C es ts" and "i < length Ps"
    and "dest_shell d < length Ps" and "dest_role d < lp_queues (Ps ! dest_shell d)"
  shows "let made = filter_unwrap (bridged d) (answered (views i es));
             arrived = filter_unwrap (arrival d) es;
             got = received (dest_role d) (views (dest_shell d) es);
             t = ts ! dest_shell d
    in filter_unwrap (forwarded i d) es = made \<and>
       prefix (arrivals_from i arrived) made \<and>
       got = map snd (take (length got) arrived) \<and>
       (\<not> is_finished (phase t) \<longrightarrow> arrivals_from i arrived = made \<and>
          map snd (drop (length got) arrived) = contents (queues t ! dest_role d)) \<and>
       (\<forall>from_return into p origin origin' m v. forward_to from_return into d (Envelope_new p origin) = Inr (origin', m) \<longrightarrow>
          origin' = origin \<and> payload m = p \<and> bridged d (m, v) = map_option (\<lambda>x. \<lparr>payload = into x, return_path = Discard\<rparr>) (from_return v))"
proof -
  have made: "filter_unwrap (forwarded i d) es = filter_unwrap (bridged d) (answered (views i es))"
    using sys_run_forwarded [OF assms(3), of d i] answered_delivered [OF sys_run_actor [OF assms(3,4)], of d] by simp
  have ev: "event_loop C contents receiving connected (Ps ! dest_shell d)"
    using assms(1,2,5) by (intro event_loop.intro event_loop_axioms.intro) auto
  note fifo = event_loop.run_fifo [OF ev sys_run_actor [OF assms(3,5)] assms(6)]
  have sent: "sent (dest_role d) (views (dest_shell d) es) = map snd (filter_unwrap (arrival d) es)"
    using sent_arrivals [of "dest_role d" "dest_shell d" es] by (cases d) simp
  note accepted = accepted_prefix [OF assms(1,2,3,5), of i, unfolded made]
  have got: "received (dest_role d) (views (dest_shell d) es) =
      take (length (received (dest_role d) (views (dest_shell d) es))) (map snd (filter_unwrap (arrival d) es))"
    using fifo unfolding sent by (auto split: if_splits)
  have rest: "drop (length (received (dest_role d) (views (dest_shell d) es))) (map snd (filter_unwrap (arrival d) es)) =
      contents (queues (ts ! dest_shell d) ! dest_role d)" if "\<not> is_finished (phase (ts ! dest_shell d))"
    using fifo that unfolding sent by simp
  show ?thesis
    unfolding Let_def take_map [symmetric] drop_map [symmetric]
  proof (intro conjI impI allI)
    show "filter_unwrap (forwarded i d) es = filter_unwrap (bridged d) (answered (views i es))" by (rule made)
  qed (use accepted got rest in \<open>simp_all only: simp_thms bridged_forward_to\<close>)
qed

section \<open>Two actors\<close>

text \<open>The first actor answers a message whose return path leads to the second.\<close>

definition two_tasks :: "(nat, nat return_envelope fifo, nat) task list" where
  "two_tasks = [start_task basic_program fifo_channel 0 0 0, start_task basic_program fifo_channel 1 0 0]"

definition forwarding_message :: "nat return_envelope" where
  "forwarding_message = \<lparr>payload = 7, return_path = Mailbox \<lparr>dest_shell = 1, dest_role = 0\<rparr> (\<lambda>v. Some (v + 1))\<rparr>"

definition two_events :: "(nat, nat) sys_event list" where
  "two_events = map (Local 0) (to_select @ [Send 0 forwarding_message, Receive 0 ''perform_basic_role'' forwarding_message,
     Handler_Return 1 70])"

abbreviation forwarded_message :: "nat return_envelope" where
  "forwarded_message \<equiv> \<lparr>payload = 71, return_path = Discard\<rparr>"

lemma sys_run_local:
  assumes "steps (Ps ! i) C (ts ! i) es' t" and "sys_run Ps C es ts" and "i < length ts"
    and "\<forall>e\<in>set es'. \<not> delivers e"
  shows "sys_run Ps C (es @ map (Local i) es') (ts[i := t])"
  using assms
proof (induction "ts ! i" es' t rule: steps.induct)
  case (steps_step es' t1 e t2)
  then have "sys_run Ps C (es @ map (Local i) es') (ts[i := t1])" by simp
  moreover have "sys_step Ps C (ts[i := t1]) (Local i e) ((ts[i := t1])[i := t2])"
    using steps_step by (intro sys_step.local) auto
  ultimately have "sys_run Ps C ((es @ map (Local i) es') @ [Local i e]) ((ts[i := t1])[i := t2])"
    by (rule sys_more)
  then show ?case by simp
qed simp

lemma two_run:
  "\<exists>ts ts'. sys_run [basic_program, basic_program] fifo_channel two_events ts \<and>
    sys_step [basic_program, basic_program] fifo_channel ts
      (Forward 0 \<lparr>dest_shell = 1, dest_role = 0\<rparr> forwarded_message True) ts'"
proof -
  let ?Ps = "[basic_program, basic_program]"
  let ?es = "to_select @ [Send 0 forwarding_message, Receive 0 ''perform_basic_role'' forwarding_message, Handler_Return 1 70]"
  have "\<exists>t. steps (?Ps ! 0) fifo_channel (two_tasks ! 0) ?es t \<and> phase t = Responding (return_path forwarding_message) 70"
    by (simp add: two_tasks_def forwarding_message_def loop_eval)
  then obtain t where t: "steps (?Ps ! 0) fifo_channel (two_tasks ! 0) ?es t"
    "phase t = Responding (return_path forwarding_message) 70" by blast
  have "sys_run ?Ps fifo_channel [] two_tasks"
    by (rule sys_start) (auto simp: two_tasks_def less_Suc_eq nth_Cons')
  from sys_run_local [OF t(1) this] have run: "sys_run ?Ps fifo_channel two_events (two_tasks[0 := t])"
    by (simp add: two_events_def two_tasks_def)
  have resp: "step basic_program fifo_channel t (Respond [Deliver \<lparr>dest_shell = 1, dest_role = 0\<rparr> forwarded_message])
      (t\<lparr>phase := Checking []\<rparr>)"
    using t(2) by (simp add: step_simps forwarding_message_def)
  obtain u where send: "step basic_program fifo_channel (two_tasks ! 1) (Send 0 forwarded_message) u"
    by (simp add: two_tasks_def loop_eval)
  have "sys_step ?Ps fifo_channel (two_tasks[0 := t]) (Forward 0 \<lparr>dest_shell = 1, dest_role = 0\<rparr> forwarded_message True)
      ((two_tasks[0 := t])[0 := t\<lparr>phase := Checking []\<rparr>, 1 := u])"
    using sys_step.forward [of 0 "two_tasks[0 := t]" ?Ps fifo_channel "\<lparr>dest_shell = 1, dest_role = 0\<rparr>" forwarded_message
        "t\<lparr>phase := Checking []\<rparr>" True u] resp send
    by (simp add: two_tasks_def enqueue_event_def)
  with run show ?thesis by blast
qed

theorem forwarding_in_order_witness:
  "\<exists>(es :: (nat, nat) sys_event list) ts. sys_run [basic_program, basic_program] fifo_channel es ts \<and>
    map fst (filter_unwrap (arrival \<lparr>dest_shell = 1, dest_role = 0\<rparr>) es) = [Some 0] \<and>
    filter_unwrap (bridged \<lparr>dest_shell = 1, dest_role = 0\<rparr>) (answered (views 0 es)) = [forwarded_message]"
proof -
  let ?d = "\<lparr>dest_shell = 1, dest_role = 0\<rparr>" and ?Ps = "[basic_program, basic_program]"
  let ?es = "two_events @ [Forward 0 ?d forwarded_message True]"
  obtain ts where run: "sys_run ?Ps fifo_channel ?es ts" using two_run sys_more by blast
  have ok: "\<forall>P\<in>set ?Ps. program_ok P" using basic_program_ok by simp
  have "filter_unwrap (forwarded 0 ?d) ?es = filter_unwrap (bridged ?d) (answered (views 0 ?es))"
    by (rule forwarding_in_order [OF fifo_channel_laws ok run, of 0 ?d, unfolded Let_def, THEN conjunct1])
      (simp_all add: basic_program_def)
  moreover have "filter_unwrap (forwarded 0 ?d) ?es = [forwarded_message]"
    and arrived: "map fst (filter_unwrap (arrival ?d) ?es) = [Some 0]"
    by (simp_all add: two_events_def)
  ultimately have "filter_unwrap (bridged ?d) (answered (views 0 ?es)) = [forwarded_message]" by (simp only:)
  with run arrived show ?thesis by (intro exI [of _ ?es] exI [of _ ts] conjI)
qed

theorem forward_delivers_witness:
  "\<exists>ts ts'. sys_run [basic_program, basic_program] fifo_channel two_events ts \<and>
    sys_step [basic_program, basic_program] fifo_channel ts
      (Forward 0 \<lparr>dest_shell = 1, dest_role = 0\<rparr> forwarded_message True) ts' \<and>
    fifo_items (queues (ts' ! 1) ! 0) = fifo_items (queues (ts ! 1) ! 0) @ [forwarded_message]"
proof -
  obtain ts ts' where ts: "sys_run [basic_program, basic_program] fifo_channel two_events ts"
    "sys_step [basic_program, basic_program] fifo_channel ts
      (Forward 0 \<lparr>dest_shell = 1, dest_role = 0\<rparr> forwarded_message True) ts'" using two_run by blast
  have "\<forall>P\<in>set [basic_program, basic_program]. program_ok P" using basic_program_ok by simp
  from forward_delivers [OF fifo_channel_laws this ts]
  have "\<forall>j<length [basic_program, basic_program]. \<forall>k<lp_queues ([basic_program, basic_program] ! j).
      fifo_items (queues (ts' ! j) ! k) = fifo_items (queues (ts ! j) ! k) @
      (if True \<and> \<lparr>dest_shell = 1, dest_role = 0\<rparr> = \<lparr>dest_shell = j, dest_role = k\<rparr> then [forwarded_message] else [])"
    by blast
  from this [rule_format, of 1 0] have "fifo_items (queues (ts' ! 1) ! 0) = fifo_items (queues (ts ! 1) ! 0) @ [forwarded_message]"
    by simp
  with ts show ?thesis by blast
qed

end
