(* ===== verification/Expander.thy ===== *)
theory Expander
  imports Samples
begin

text \<open>
  The test expander (\<open>src/xtask/src/expander.rs\<close>), which runs the macros as functions over the
  items of a file, and the line filter of the build script that copies the macros' sources for it
  (\<open>src/xtask/build.rs\<close>).
\<close>

section \<open>Finding an attribute\<close>

text \<open>\<open>Vec::swap_remove\<close> puts the last element in the place of the removed one.\<close>

definition swap_remove :: "nat \<Rightarrow> 'a list \<Rightarrow> 'a list" where
  "swap_remove i xs = (if Suc i = length xs then butlast xs else (butlast xs)[i := last xs])"

definition is_tag :: "string \<Rightarrow> attribute \<Rightarrow> bool" where
  "is_tag needle a \<longleftrightarrow> attr_style a = AttrStyle_Outer \<and>
     (case attr_meta a of
        Meta_NameValue p v \<Rightarrow> False
      | m \<Rightarrow> (case last_segment (meta_path m) of None \<Rightarrow> False | Some leaf \<Rightarrow> seg_ident leaf = needle))"

text \<open>The loop keeps the index of the last attribute that matches.\<close>

fun find_index :: "string \<Rightarrow> nat \<Rightarrow> nat option \<Rightarrow> attribute list \<Rightarrow> nat option" where
  "find_index needle ind index [] = index"
| "find_index needle ind index (a # rest) =
     find_index needle (Suc ind) (if is_tag needle a then Some ind else index) rest"

definition find_attribute :: "attribute list \<Rightarrow> string \<Rightarrow> attribute option \<times> attribute list" where
  "find_attribute attrs needle =
     (case find_index needle 0 None attrs of
        None \<Rightarrow> (None, attrs)
      | Some index \<Rightarrow> (Some (attrs ! index), swap_remove index attrs))"

section \<open>Walking over the items\<close>

text \<open>
  What the walker writes for an item: the items of an expansion, a compile error, the item
  itself, or a module around what its items give.
\<close>

datatype expansion =
    X_Items "out_item list"
  | X_Error syn_error
  | X_Item item
  | X_Mod "attribute list" visibility bool ident "expansion list"

fun emit :: "out_item list res \<Rightarrow> expansion res" where
  "emit (Inr items) = Inr (X_Items items)"
| "emit (Inl (Compile_Error e)) = Inr (X_Error e)"
| "emit (Inl (Panicked m)) = Inl (Panicked m)"

definition visit_item_trait :: "lib \<Rightarrow> item_trait \<Rightarrow> expansion res" where
  "visit_item_trait L i =
     (case find_attribute (trait_attrs i) ''role'' of
        (Some a, attrs) \<Rightarrow> emit (bind_res (make_role L (i\<lparr>trait_attrs := attrs\<rparr>)) (\<lambda>r. Inr (role_to_tokens r)))
      | (None, attrs) \<Rightarrow> Inr (X_Item (Item_Trait i)))"

definition visit_item_impl :: "lib \<Rightarrow> item_impl \<Rightarrow> expansion res" where
  "visit_item_impl L i =
     (case find_attribute (imp_attrs i) ''performance'' of
        (Some a, attrs) \<Rightarrow> emit (bind_res (make_performance L (i\<lparr>imp_attrs := attrs\<rparr>)) (\<lambda>p. Inr (perf_to_tokens p)))
      | (None, attrs) \<Rightarrow> Inr (X_Item (Item_Impl i)))"

text \<open>\<open>visit_item_mod_mut\<close> and \<open>visit_item_mut\<close>; \<open>visit_items\<close> is the loop over a module's or file's items.\<close>

fun visit_item :: "lib \<Rightarrow> item \<Rightarrow> expansion res"
  and visit_items :: "lib \<Rightarrow> item list \<Rightarrow> expansion list res"
where
  "visit_item L (Item_Mod (ItemMod attrs vis unsafety name content)) =
     (case find_attribute attrs ''actor'' of
        (Some a, attrs') \<Rightarrow>
          emit (bind_res (make_actor L (ItemMod attrs' vis unsafety name content)) actor_to_tokens)
      | (None, attrs') \<Rightarrow>
          (case content of
             Some items \<Rightarrow> bind_res (visit_items L items) (\<lambda>tok. Inr (X_Mod attrs vis unsafety name tok))
           | None \<Rightarrow> Inr (X_Item (Item_Mod (ItemMod attrs vis unsafety name content)))))"
| "visit_item L (Item_Impl i) = visit_item_impl L i"
| "visit_item L (Item_Trait i) = visit_item_trait L i"
| "visit_item L els = Inr (X_Item els)"
| "visit_items L [] = Inr []"
| "visit_items L (i # rest) = bind_res (visit_item L i) (\<lambda>x. bind_res (visit_items L rest) (\<lambda>xs. Inr (x # xs)))"

text \<open>The file's own attributes are not visited and not written.\<close>

definition expand_test :: "(string \<Rightarrow> syn_error + attribute list \<times> item list) \<Rightarrow> lib \<Rightarrow> string \<Rightarrow> expansion list res" where
  "expand_test parse_file L contents =
     (case parse_file contents of Inl e \<Rightarrow> Inl (Compile_Error e) | Inr (attrs, items) \<Rightarrow> visit_items L items)"

section \<open>The build script: build.rs\<close>

text \<open>\<open>str::replace\<close>: matches are replaced from left to right and do not overlap.\<close>

fun strip_prefix :: "string \<Rightarrow> string \<Rightarrow> string option" where
  "strip_prefix [] s = Some s"
| "strip_prefix (p # ps) [] = None"
| "strip_prefix (p # ps) (c # cs) = (if p = c then strip_prefix ps cs else None)"

lemma strip_prefix_eq: "strip_prefix p s = Some r \<longleftrightarrow> s = p @ r"
  by (induction p s rule: strip_prefix.induct) auto

lemma strip_prefix_None: "strip_prefix p s = None \<longleftrightarrow> \<not> (\<exists>r. s = p @ r)"
  by (metis not_None_eq strip_prefix_eq)

function replace_all :: "string \<Rightarrow> string \<Rightarrow> string \<Rightarrow> string" where
  "replace_all from to s =
     (case s of
        [] \<Rightarrow> []
      | c # cs \<Rightarrow>
          (case strip_prefix from s of
             Some rest \<Rightarrow> if from = [] then s else to @ replace_all from to rest
           | None \<Rightarrow> c # replace_all from to cs))"
  by pat_completeness auto
termination
  by (relation "measure (\<lambda>(from, to, s). length s)") (auto simp: strip_prefix_eq dest: sym)

text \<open>
  What the script does with one line of the macros' sources: lines with lint attributes and marked
  tests are left out, in the others the attribute is removed and the paths are redirected.
\<close>

definition contains :: "string \<Rightarrow> string \<Rightarrow> bool" where
  "contains line needle = (\<exists>k\<in>{..length line}. strip_prefix needle (drop k line) \<noteq> None)"

definition strip_line :: "string \<Rightarrow> string option" where
  "strip_line line =
     (if strip_prefix ''#![warn('' line \<noteq> None \<or> strip_prefix ''#![deny('' line \<noteq> None \<or>
         strip_prefix ''#![forbid('' line \<noteq> None \<or> contains line ''#[test] // EXPANDER EXCLUDE''
      then None
      else
        let line = replace_all ''#[proc_macro_attribute]'' [] line;
            line = replace_all ''crate::'' ''crate::stripped_macro::'' line;
            line = replace_all ''proc_macro::'' ''proc_macro2::'' line
        in Some line)"

definition strip_file :: "string list \<Rightarrow> string list" where
  "strip_file = filter_unwrap strip_line"

section \<open>What the expander does\<close>

lemma find_index_append:
  "find_index n k d (xs @ ys) = find_index n (k + length xs) (find_index n k d xs) ys"
  by (induction xs arbitrary: k d) auto

lemma find_index_untagged: "\<forall>a\<in>set xs. \<not> is_tag n a \<Longrightarrow> find_index n k d xs = d"
  by (induction xs arbitrary: k) auto

lemma swap_remove_split:
  "swap_remove (length pre) (pre @ a # post) = pre @ (if post = [] then [] else last post # butlast post)"
  by (auto simp: swap_remove_def butlast_append)

lemma find_attribute_split:
  assumes "is_tag n a" and "\<forall>b\<in>set post. \<not> is_tag n b"
  shows "find_attribute (pre @ a # post) n =
    (Some a, pre @ (if post = [] then [] else last post # butlast post))"
proof -
  have "find_index n 0 None (pre @ a # post) = Some (length pre)"
    using assms find_index_append [of n 0 None pre "a # post"] find_index_untagged by simp
  then show ?thesis by (simp add: find_attribute_def swap_remove_split)
qed

lemma find_attribute_untagged: "\<forall>a\<in>set attrs. \<not> is_tag n a \<Longrightarrow> find_attribute attrs n = (None, attrs)"
  by (simp add: find_attribute_def find_index_untagged)

text \<open>
  Of several matching attributes the expander takes the last, and removes it in a way that
  moves the item's last attribute into its place: the other attributes are all kept, but unless
  at most one follows the one that is taken, their order changes.
\<close>

theorem find_attribute_result:
  "case find_attribute attrs n of
     (None, rest) \<Rightarrow> rest = attrs \<and> (\<forall>a\<in>set attrs. \<not> is_tag n a)
   | (Some a, rest) \<Rightarrow> \<exists>pre post. attrs = pre @ a # post \<and> is_tag n a \<and> (\<forall>b\<in>set post. \<not> is_tag n b) \<and>
       rest = pre @ (if post = [] then [] else last post # butlast post) \<and>
       mset attrs = mset (a # rest)"
proof (cases "\<exists>a\<in>set attrs. is_tag n a")
  case False
  then show ?thesis by (simp add: find_attribute_untagged)
next
  case True
  then obtain pre a post where split: "attrs = pre @ a # post" "is_tag n a" "\<forall>b\<in>set post. \<not> is_tag n b"
    using split_list_last_prop [of attrs "is_tag n"] by blast
  have "mset post = mset (if post = [] then [] else last post # butlast post)"
    by (cases post rule: rev_cases) auto
  then have kept: "mset attrs = mset (a # pre @ (if post = [] then [] else last post # butlast post))"
    by (simp add: split(1))
  have "find_attribute attrs n = (Some a, pre @ (if post = [] then [] else last post # butlast post))"
    unfolding split(1) by (rule find_attribute_split [OF split(2,3)])
  moreover have "\<exists>pre' post'. attrs = pre' @ a # post' \<and> is_tag n a \<and> (\<forall>b\<in>set post'. \<not> is_tag n b) \<and>
      pre @ (if post = [] then [] else last post # butlast post) =
        pre' @ (if post' = [] then [] else last post' # butlast post') \<and>
      mset attrs = mset (a # pre @ (if post = [] then [] else last post # butlast post))"
    by (rule exI [of _ pre], rule exI [of _ post]) (intro conjI split kept refl)
  ultimately show ?thesis by (simp only: prod.case option.case)
qed

theorem find_attribute_result_witness:
  "\<exists>rest. find_attribute [attr_of ''actor'' '''', attr_of ''first'' '''', attr_of ''second'' ''''] ''actor'' =
      (Some (attr_of ''actor'' ''''), rest) \<and>
    mset [attr_of ''actor'' '''', attr_of ''first'' '''', attr_of ''second'' ''''] = mset (attr_of ''actor'' '''' # rest) \<and>
    rest = [attr_of ''second'' '''', attr_of ''first'' '''']"
  using find_attribute_result [of "[attr_of ''actor'' '''', attr_of ''first'' '''', attr_of ''second'' '''']" "''actor''"]
  by (simp add: find_attribute_def attr_of_def is_tag_def last_segment_def swap_remove_def)

text \<open>The attribute a macro is called with, and what the compiler puts in its place.\<close>

fun as_expansion :: "macro_output \<Rightarrow> expansion res" where
  "as_expansion (Expanded items) = Inr (X_Items items)"
| "as_expansion (Compile_Error_Tokens e) = Inr (X_Error e)"
| "as_expansion (Macro_Panicked m) = Inl (Panicked m)"

lemma emit_finish: "emit r = as_expansion (finish r)"
  by (cases r rule: emit.cases) auto

lemma rotated_mset: "mset (if post = [] then [] else last post # butlast post) = mset post"
  by (cases post rule: rev_cases) simp_all

lemma rotated_short: "length post \<le> 1 \<Longrightarrow> (if post = [] then [] else last post # butlast post) = post"
  by (cases post) auto

text \<open>
  C38. On an item tagged for a macro, the expander gives what the attribute macro gives for the item whose
  last tag is taken out and whose last attribute is put in the tag's place: the same output, the same errors as
  \<open>compile_error!\<close> tokens, and a panic exactly where the macro panics, for modules, traits and impl blocks. The
  other attributes are all kept; they are those the compiler hands to the macro, in its order, when at most
  one of them follows the tag.
\<close>

theorem expander_agrees_with_macros:
  fixes pre post :: "attribute list"
  assumes "\<forall>b\<in>set post. \<not> is_tag tag b" and "is_tag tag a"
  defines "attrs \<equiv> pre @ a # post" and "given \<equiv> pre @ (if post = [] then [] else last post # butlast post)"
  shows "(tag = ''actor'' \<and> mod_attrs m = attrs \<and>
      parse_mod toks = Inr (ItemMod given (mod_vis m) (mod_unsafety m) (mod_ident m) (mod_content m)) \<longrightarrow>
      visit_item L (Item_Mod m) = as_expansion (actor_internal parse_mod L attr toks)) \<and>
    (tag = ''role'' \<and> trait_attrs t = attrs \<and> parse_trait toks = Inr (t\<lparr>trait_attrs := given\<rparr>) \<longrightarrow>
      visit_item L (Item_Trait t) = as_expansion (role_internal parse_trait L attr toks)) \<and>
    (tag = ''performance'' \<and> imp_attrs i = attrs \<and> parse_impl toks = Inr (i\<lparr>imp_attrs := given\<rparr>) \<longrightarrow>
      visit_item L (Item_Impl i) = as_expansion (performance_internal parse_impl L attr toks)) \<and>
    mset given = mset (pre @ post) \<and> (length post \<le> 1 \<longrightarrow> given = pre @ post)"
proof -
  have found: "find_attribute attrs tag = (Some a, given)"
    unfolding attrs_def given_def using assms(1,2) by (intro find_attribute_split)
  have "mset given = mset (pre @ post)" and "length post \<le> 1 \<longrightarrow> given = pre @ post"
    unfolding given_def by (simp_all add: rotated_mset rotated_short)
  with found show ?thesis
    by (cases m) (auto simp: actor_internal_def role_internal_def performance_internal_def parse_macro_input_def
      emit_finish visit_item_trait_def visit_item_impl_def)
qed

definition basic_trait :: item_trait where
  "basic_trait = \<lparr>trait_attrs = [attr_of ''role'' ''''], trait_vis = Visibility_Public, trait_ident = ''BasicRole'',
     trait_items = [TraitItem_Fn (fun_sig begin_fn), TraitItem_Fn (fun_sig speak_fn)]\<rparr>"

text \<open>A tag that two attributes follow: the expander hands them over in reverse order.\<close>

theorem expander_agrees_with_macros_witness:
  "let tagged = basic_trait\<lparr>trait_attrs := [attr_of ''role'' '''', attr_of ''first'' '''', attr_of ''second'' '''']\<rparr> in
    visit_item sample_lib (Item_Trait tagged) =
      as_expansion (role_internal (\<lambda>t. Inr (tagged\<lparr>trait_attrs := [attr_of ''second'' '''', attr_of ''first'' '''']\<rparr>))
        sample_lib '''' '''')"
proof -
  let ?t = "basic_trait\<lparr>trait_attrs := [attr_of ''role'' '''', attr_of ''first'' '''', attr_of ''second'' '''']\<rparr>"
  have "\<forall>b\<in>set [attr_of ''first'' '''', attr_of ''second'' '''']. \<not> is_tag ''role'' b" "is_tag ''role'' (attr_of ''role'' '''')"
    by (simp_all add: attr_of_def is_tag_def last_segment_def)
  from expander_agrees_with_macros [OF this, where pre = "[]" and t = ?t and toks = "''''" and L = sample_lib and attr = "''''" and
      parse_trait = "\<lambda>t. Inr (?t\<lparr>trait_attrs := [attr_of ''second'' '''', attr_of ''first'' '''']\<rparr>)"]
  show ?thesis by (simp add: Let_def)
qed

text \<open>Items without tags, at any depth of modules; and the item an expansion stands for.\<close>

fun untagged :: "item \<Rightarrow> bool" and untagged_items :: "item list \<Rightarrow> bool" where
  "untagged (Item_Mod (ItemMod attrs vis unsafety name content)) =
     ((\<forall>a\<in>set attrs. \<not> is_tag ''actor'' a) \<and> (case content of None \<Rightarrow> True | Some items \<Rightarrow> untagged_items items))"
| "untagged (Item_Impl i) = (\<forall>a\<in>set (imp_attrs i). \<not> is_tag ''performance'' a)"
| "untagged (Item_Trait i) = (\<forall>a\<in>set (trait_attrs i). \<not> is_tag ''role'' a)"
| "untagged _ = True"
| "untagged_items [] = True"
| "untagged_items (i # rest) = (untagged i \<and> untagged_items rest)"

fun expansion_item :: "expansion \<Rightarrow> item option" and expansion_items :: "expansion list \<Rightarrow> item list option" where
  "expansion_item (X_Item i) = Some i"
| "expansion_item (X_Mod attrs vis unsafety name xs) =
     map_option (\<lambda>items. Item_Mod (ItemMod attrs vis unsafety name (Some items))) (expansion_items xs)"
| "expansion_item _ = None"
| "expansion_items [] = Some []"
| "expansion_items (x # xs) =
     Option.bind (expansion_item x) (\<lambda>i. map_option ((#) i) (expansion_items xs))"

lemma visit_untagged:
  "untagged i \<Longrightarrow> \<exists>x. visit_item L i = Inr x \<and> expansion_item x = Some i"
  "untagged_items items \<Longrightarrow> \<exists>xs. visit_items L items = Inr xs \<and> expansion_items xs = Some items"
proof (induction L i and L items rule: visit_item_visit_items.induct)
  case (1 L attrs vis unsafety name content)
  show ?case
  proof (cases content)
    case (Some items)
    have tag: "find_attribute attrs ''actor'' = (None, attrs)"
      using 1(2) by (simp add: find_attribute_untagged)
    have "untagged_items items" using 1(2) Some by simp
    then obtain xs where "visit_items L items = Inr xs" "expansion_items xs = Some items"
      using 1(1) [OF tag [symmetric] refl Some] by blast
    then show ?thesis using Some tag by simp
  qed (use 1(2) in \<open>simp add: find_attribute_untagged\<close>)
qed (auto simp: visit_item_impl_def visit_item_trait_def find_attribute_untagged)

text \<open>
  The items of a file without tagged items come out of the expander as they went in: every
  item in its place, through all levels of modules (the file's own attributes are dropped).
\<close>

theorem untagged_file_unchanged:
  assumes "parse_file contents = Inr (attrs, items)" and "untagged_items items"
  shows "\<exists>xs. expand_test parse_file L contents = Inr xs \<and> expansion_items xs = Some items"
  using assms visit_untagged(2) [of items L] by (simp add: expand_test_def)


theorem untagged_file_unchanged_witness:
  "\<exists>xs. expand_test (\<lambda>s. Inr ([], [Item_Mod (ItemMod [attr_of ''allow'' ''dead_code''] Visibility_Public False ''m''
        (Some [Item_Struct actor_state, Item_Impl (basic_impl\<lparr>imp_attrs := []\<rparr>)]))])) sample_lib '''' = Inr xs \<and>
    expansion_items xs = Some [Item_Mod (ItemMod [attr_of ''allow'' ''dead_code''] Visibility_Public False ''m''
        (Some [Item_Struct actor_state, Item_Impl (basic_impl\<lparr>imp_attrs := []\<rparr>)]))]"
  by (rule untagged_file_unchanged [where attrs = "[]"])
    (simp_all add: attr_of_def is_tag_def last_segment_def)

section \<open>What the build script does to a line\<close>

fun join :: "string \<Rightarrow> string list \<Rightarrow> string" where
  "join sep [] = []"
| "join sep [p] = p"
| "join sep (p # q # ps) = p @ sep @ join sep (q # ps)"

text \<open>\<open>r\<close> is \<open>s\<close> with every occurrence of \<open>from\<close> replaced by \<open>to\<close>.\<close>

definition replaced :: "string \<Rightarrow> string \<Rightarrow> string \<Rightarrow> string \<Rightarrow> bool" where
  "replaced from to s r \<longleftrightarrow>
     (\<exists>parts. parts \<noteq> [] \<and> s = join from parts \<and> r = join to parts \<and> (\<forall>p\<in>set parts. \<not> contains p from))"

lemma contains_iff: "contains s n \<longleftrightarrow> (\<exists>a b. s = a @ n @ b)"
proof
  assume "contains s n"
  then obtain k where "strip_prefix n (drop k s) \<noteq> None" by (auto simp: contains_def)
  then obtain b where "drop k s = n @ b" by (auto simp: strip_prefix_eq)
  then have "s = take k s @ n @ b" using append_take_drop_id [of k s] by simp
  then show "\<exists>a b. s = a @ n @ b" by blast
next
  assume "\<exists>a b. s = a @ n @ b"
  then obtain a b where s: "s = a @ n @ b" by blast
  then have "strip_prefix n (drop (length a) s) = Some b" by (simp add: strip_prefix_eq)
  then show "contains s n" unfolding contains_def by (intro bexI [of _ "length a"]) (auto simp: s)
qed

lemma contains_Nil: "n \<noteq> [] \<Longrightarrow> \<not> contains [] n"
  by (simp add: contains_iff)

lemma contains_Cons: "contains (c # s) n \<longleftrightarrow> strip_prefix n (c # s) \<noteq> None \<or> contains s n"
  by (auto simp: contains_iff strip_prefix_eq Cons_eq_append_conv)

lemma join_Cons: "ps \<noteq> [] \<Longrightarrow> join sep (p # ps) = p @ sep @ join sep ps"
  by (cases ps) auto

lemma join_first: "join sep ((c # p) # ps) = c # join sep (p # ps)"
  by (cases ps) auto

lemma join_prefix: "\<exists>r. join sep (p # ps) = p @ r"
  by (cases ps) auto

declare replace_all.simps [simp del]

lemma replace_all_replaced: "from \<noteq> [] \<Longrightarrow> replaced from to s (replace_all from to s)"
proof (induction "from" to s rule: replace_all.induct)
  case (1 "from" to s)
  show ?case
  proof (cases s)
    case Nil
    then show ?thesis using 1(3)
      by (auto simp: replaced_def replace_all.simps contains_Nil intro!: exI [of _ "[[]]"])
  next
    case (Cons c cs)
    show ?thesis
    proof (cases "strip_prefix from s")
      case (Some rest)
      then obtain parts where parts: "parts \<noteq> []" "rest = join from parts" "replace_all from to rest = join to parts"
          "\<forall>p\<in>set parts. \<not> contains p from"
        using 1(2) [OF Cons Some 1(3) 1(3)] by (auto simp: replaced_def)
      have "s = from @ rest" using Some by (simp add: strip_prefix_eq)
      moreover have "replace_all from to s = to @ replace_all from to rest"
        using Some Cons 1(3) by (subst replace_all.simps) simp
      ultimately show ?thesis using parts 1(3) unfolding replaced_def
        by (intro exI [of _ "[] # parts"]) (simp add: join_Cons contains_Nil)
    next
      case None
      then obtain q qs where parts: "cs = join from (q # qs)" "replace_all from to cs = join to (q # qs)"
          "\<forall>p\<in>set (q # qs). \<not> contains p from"
        using 1(1) [OF Cons None 1(3)] by (auto simp: replaced_def neq_Nil_conv)
      obtain r where "cs = q @ r" using join_prefix parts(1) by blast
      have "strip_prefix from (c # q) = None"
      proof (rule ccontr)
        assume "strip_prefix from (c # q) \<noteq> None"
        then obtain a where "c # q = from @ a" by (auto simp: strip_prefix_eq)
        then have "s = from @ a @ r" using \<open>cs = q @ r\<close> Cons by (metis append_Cons append_assoc)
        then have "strip_prefix from s = Some (a @ r)" by (simp add: strip_prefix_eq)
        then show False using None by simp
      qed
      moreover have "replace_all from to s = c # replace_all from to cs"
        using None Cons by (subst replace_all.simps) simp
      ultimately show ?thesis using parts Cons unfolding replaced_def
        by (intro exI [of _ "(c # q) # qs"]) (simp add: join_first contains_Cons)
    qed
  qed
qed

text \<open>
  What becomes of a line: those with lint attributes and marked tests are dropped, in every
  other line all occurrences of the attribute and of the two path prefixes are replaced, in
  this order; what lies between the occurrences is kept.
\<close>

definition line_stripped :: "string \<Rightarrow> string option \<Rightarrow> bool" where
  "line_stripped line result \<longleftrightarrow>
     (case result of
        None \<Rightarrow> (\<exists>r. line = ''#![warn('' @ r \<or> line = ''#![deny('' @ r \<or> line = ''#![forbid('' @ r) \<or>
          contains line ''#[test] // EXPANDER EXCLUDE''
      | Some new \<Rightarrow>
          \<not> (\<exists>r. line = ''#![warn('' @ r \<or> line = ''#![deny('' @ r \<or> line = ''#![forbid('' @ r) \<and>
          \<not> contains line ''#[test] // EXPANDER EXCLUDE'' \<and>
          (\<exists>l1 l2. replaced ''#[proc_macro_attribute]'' [] line l1 \<and>
            replaced ''crate::'' ''crate::stripped_macro::'' l1 l2 \<and> replaced ''proc_macro::'' ''proc_macro2::'' l2 new))"

theorem strip_line_result: "line_stripped line (strip_line line)"
proof (cases "strip_line line")
  case None
  then have "strip_prefix ''#![warn('' line \<noteq> None \<or> strip_prefix ''#![deny('' line \<noteq> None \<or>
      strip_prefix ''#![forbid('' line \<noteq> None \<or> contains line ''#[test] // EXPANDER EXCLUDE''"
    unfolding strip_line_def Let_def by (simp split: if_splits)
  then show ?thesis unfolding line_stripped_def None option.case by (auto simp only: not_None_eq strip_prefix_eq)
next
  case (Some new)
  then have kept: "strip_prefix ''#![warn('' line = None \<and> strip_prefix ''#![deny('' line = None \<and>
      strip_prefix ''#![forbid('' line = None \<and> \<not> contains line ''#[test] // EXPANDER EXCLUDE''"
    unfolding strip_line_def Let_def by (simp split: if_splits)
  define l1 where "l1 = replace_all ''#[proc_macro_attribute]'' [] line"
  define l2 where "l2 = replace_all ''crate::'' ''crate::stripped_macro::'' l1"
  have new: "new = replace_all ''proc_macro::'' ''proc_macro2::'' l2"
    using Some kept unfolding strip_line_def Let_def l1_def l2_def by (metis option.inject)
  have "replaced ''#[proc_macro_attribute]'' [] line l1"
    unfolding l1_def by (rule replace_all_replaced) simp
  moreover have "replaced ''crate::'' ''crate::stripped_macro::'' l1 l2"
    unfolding l2_def by (rule replace_all_replaced) simp
  moreover have "replaced ''proc_macro::'' ''proc_macro2::'' l2 new"
    unfolding new by (rule replace_all_replaced) simp
  ultimately have redirected: "\<exists>l1 l2. replaced ''#[proc_macro_attribute]'' [] line l1 \<and>
      replaced ''crate::'' ''crate::stripped_macro::'' l1 l2 \<and> replaced ''proc_macro::'' ''proc_macro2::'' l2 new"
    by (intro exI conjI)
  show ?thesis unfolding line_stripped_def Some option.case
  proof (intro conjI)
    show "\<not> (\<exists>r. line = ''#![warn('' @ r \<or> line = ''#![deny('' @ r \<or> line = ''#![forbid('' @ r)"
      using kept unfolding strip_prefix_None by blast
    show "\<not> contains line ''#[test] // EXPANDER EXCLUDE''" using kept by blast
    show "\<exists>l1 l2. replaced ''#[proc_macro_attribute]'' [] line l1 \<and>
        replaced ''crate::'' ''crate::stripped_macro::'' l1 l2 \<and> replaced ''proc_macro::'' ''proc_macro2::'' l2 new"
      by (fact redirected)
  qed
qed

end
