(* ===== verification/Build_Tools.thy ===== *)
theory Build_Tools
  imports Expander
begin

text \<open>
  The programs around the expander: \<open>expand_all_tests\<close> of \<open>src/xtask/src/expander.rs\<close>, the build script
  \<open>src/xtask/build.rs\<close>, and the commands of \<open>src/xtask/src/main.rs\<close>. What they do is a list of
  actions; the file system, the terminal and the programs they start answer them, as parameters.
\<close>

section \<open>Actions\<close>

text \<open>A path is the list of its components.\<close>

type_synonym fs_path = "string list"

datatype action =
    Create_Dir fs_path
  | Write_File fs_path string
  | Create_File fs_path
  | Write_Line fs_path string
  | Print string
  | Eprint string
  | Set_Current_Dir fs_path
  | Create_All fs_path bool
  | Run_Command "string list" "(string \<times> string) list"
  | Open_That string
  | Remove_File string

text \<open>An \<open>Err\<close> that is returned, or a panic.\<close>

datatype tool_failure = Failed string | Aborted string

type_synonym 'a io = "action list \<times> (tool_failure + 'a)"

definition return_io :: "'a \<Rightarrow> 'a io" where
  "return_io x = ([], Inr x)"

definition bind_io :: "'a io \<Rightarrow> ('a \<Rightarrow> 'b io) \<Rightarrow> 'b io" where
  "bind_io m k =
     (case m of
        (done, Inl e) \<Rightarrow> (done, Inl e)
      | (done, Inr x) \<Rightarrow> (case k x of (rest, r) \<Rightarrow> (done @ rest, r)))"

definition then_io :: "unit io \<Rightarrow> 'b io \<Rightarrow> 'b io" where
  "then_io m k = bind_io m (\<lambda>u. k)"

text \<open>An action that is answered: it counts as done when it succeeds. \<open>?\<close> and \<open>unwrap\<close> of an answer.\<close>

definition try_action :: "(action \<Rightarrow> string + unit) \<Rightarrow> action \<Rightarrow> unit io" where
  "try_action answer a = (case answer a of Inl e \<Rightarrow> ([], Inl (Failed e)) | Inr u \<Rightarrow> ([a], Inr ()))"

definition unwrap_action :: "string \<Rightarrow> (action \<Rightarrow> string + unit) \<Rightarrow> action \<Rightarrow> unit io" where
  "unwrap_action message answer a = (case answer a of Inl e \<Rightarrow> ([], Inl (Aborted message)) | Inr u \<Rightarrow> ([a], Inr ()))"

definition print :: "string \<Rightarrow> unit io" where
  "print line = ([Print line], Inr ())"

fun try_answer :: "string + 'a \<Rightarrow> 'a io" where
  "try_answer (Inl e) = ([], Inl (Failed e))"
| "try_answer (Inr x) = return_io x"

fun unwrap_answer :: "string \<Rightarrow> string + 'a \<Rightarrow> 'a io" where
  "unwrap_answer message (Inl e) = ([], Inl (Aborted message))"
| "unwrap_answer message (Inr x) = return_io x"

text \<open>A loop whose body may fail stops there.\<close>

fun each_io :: "('a \<Rightarrow> unit io) \<Rightarrow> 'a list \<Rightarrow> unit io" where
  "each_io body [] = return_io ()"
| "each_io body (x # xs) = then_io (body x) (each_io body xs)"

lemma bind_io_simps [simp]:
  "bind_io (done, Inl e) k = (done, Inl e)"
  "bind_io (done, Inr x) k = (done @ fst (k x), snd (k x))"
  "bind_io (return_io x) k = k x"
  by (simp_all add: bind_io_def return_io_def split: prod.splits)

lemma then_io_simps [simp]:
  "then_io (done, Inl e) k = (done, Inl e)"
  "then_io (done, Inr ()) k = (done @ fst k, snd k)"
  "then_io (return_io ()) k = k"
  by (simp_all add: then_io_def)

lemma each_io_ok:
  "\<forall>x\<in>set xs. body x = (done x, Inr ()) \<Longrightarrow> each_io body xs = (concat (map done xs), Inr ())"
  by (induction xs) (auto simp: return_io_def)

lemma each_io_append:
  "each_io body (xs @ ys) = then_io (each_io body xs) (each_io body ys)"
  by (induction xs) (auto simp: then_io_def bind_io_def return_io_def split: prod.splits sum.splits)

lemma each_io_stop:
  "each_io body pre = (d, Inr ()) \<Longrightarrow> body x = (c, Inl e) \<Longrightarrow> each_io body (pre @ x # post) = (d @ c, Inl e)"
  by (simp add: each_io_append)

text \<open>Either every body succeeds, or the first failure ends the loop.\<close>

lemma each_io_cases:
  obtains (ok) "\<forall>x\<in>set xs. snd (body x) = Inr ()" "each_io body xs = (concat (map (\<lambda>x. fst (body x)) xs), Inr ())"
  | (failed) pre x post e where "xs = pre @ x # post" "\<forall>y\<in>set pre. snd (body y) = Inr ()" "snd (body x) = Inl e"
      "each_io body xs = (concat (map (\<lambda>x. fst (body x)) pre) @ fst (body x), Inl e)"
proof (cases "\<forall>x\<in>set xs. snd (body x) = Inr ()")
  case True
  then show thesis
    using each_io_ok [of xs body "\<lambda>x. fst (body x)"] by (intro ok) (auto simp: prod_eq_iff)
next
  case False
  then obtain pre x post where xs: "xs = pre @ x # post" "\<forall>y\<in>set pre. snd (body y) = Inr ()" "snd (body x) \<noteq> Inr ()"
    using split_list_first_prop [of xs "\<lambda>x. snd (body x) \<noteq> Inr ()"] by auto
  then obtain e where e: "snd (body x) = Inl e" by (cases "snd (body x)") auto
  then have bad: "body x = (fst (body x), Inl e)" by (simp add: prod_eq_iff)
  have "each_io body pre = (concat (map (\<lambda>x. fst (body x)) pre), Inr ())"
    using xs(2) by (intro each_io_ok) (auto simp: prod_eq_iff)
  then have "each_io body xs = (concat (map (\<lambda>x. fst (body x)) pre) @ fst (body x), Inl e)"
    unfolding xs(1) by (rule each_io_stop [where body = body, OF _ bad])
  with xs(1,2) e show thesis by (intro failed)
qed

section \<open>Paths and entries\<close>

text \<open>\<open>Path::extension\<close>: what follows the last dot of the file name, unless that is its first character.\<close>

definition extension :: "fs_path \<Rightarrow> string option" where
  "extension path =
     (if path = [] then None
      else
        let name = last path; ext = rev (takeWhile (\<lambda>c. c \<noteq> CHR ''.'') (rev name))
        in if length ext + 1 < length name \<and> name \<noteq> ''..'' then Some ext else None)"

text \<open>\<open>Path::strip_prefix\<close>.\<close>

fun strip_path :: "fs_path \<Rightarrow> fs_path \<Rightarrow> fs_path option" where
  "strip_path [] path = Some path"
| "strip_path (p # ps) (c # cs) = (if p = c then strip_path ps cs else None)"
| "strip_path (p # ps) [] = None"

lemma strip_path_append [simp]: "strip_path p (p @ r) = Some r"
  by (induction p) auto

text \<open>What \<open>walkdir\<close> yields: an error, or an entry with its path and the answer to \<open>metadata\<close>.\<close>

datatype file_kind = Directory | Regular | Special

record dir_entry =
  de_path :: fs_path
  de_metadata :: "string + file_kind"

type_synonym walk_item = "string + dir_entry"

text \<open>The file system and the programs: reading, running \<open>rustfmt\<close> (its exit status and its output), and doing.\<close>

record machine =
  read_file :: "fs_path \<Rightarrow> string + string"
  rustfmt :: "string \<Rightarrow> tool_failure + (bool \<times> string)"
  path_exists :: "fs_path \<Rightarrow> bool"
  answer :: "action \<Rightarrow> string + unit"

section \<open>expand_all_tests\<close>

definition is_a_rust_file :: "dir_entry \<Rightarrow> bool io" where
  "is_a_rust_file f =
     bind_io (unwrap_answer ''metadata'' (de_metadata f)) (\<lambda>kind.
       return_io (kind = Directory \<or> extension (de_path f) = Some ''rs''))"

text \<open>The result of \<open>expand_test\<close> as one of this program.\<close>

fun lift_expansion :: "expansion list res \<Rightarrow> expansion list io" where
  "lift_expansion (Inr tokens) = return_io tokens"
| "lift_expansion (Inl (Compile_Error e)) = ([], Inl (Failed ''parse error''))"
| "lift_expansion (Inl (Panicked m)) = ([], Inl (Aborted m))"

text \<open>\<open>filter_entry\<close> passes errors on.\<close>

definition filter_entry :: "walk_item \<Rightarrow> bool io" where
  "filter_entry item = (case item of Inl e \<Rightarrow> return_io True | Inr f \<Rightarrow> is_a_rust_file f)"

text \<open>The end of a round: the expansion is formatted and written. Nobody looks at \<open>rustfmt\<close>'s status.\<close>

definition format_and_write ::
  "machine \<Rightarrow> (expansion list \<Rightarrow> string) \<Rightarrow> fs_path \<Rightarrow> expansion list \<Rightarrow> unit io" where
  "format_and_write M to_string new_path expanded =
     bind_io ([], rustfmt M (to_string expanded)) (\<lambda>(success, output).
       try_action (answer M) (Write_File new_path output))"

definition expand_file ::
  "machine \<Rightarrow> (string \<Rightarrow> syn_error + attribute list \<times> item list) \<Rightarrow> (expansion list \<Rightarrow> string) \<Rightarrow> lib \<Rightarrow>
     fs_path \<Rightarrow> fs_path \<Rightarrow> walk_item \<Rightarrow> unit io" where
  "expand_file M parse_file to_string L root dest item =
     bind_io (try_answer item) (\<lambda>test_file.
     bind_io (try_answer (case strip_path root (de_path test_file) of
         None \<Rightarrow> Inl ''prefix not found'' | Some rest \<Rightarrow> Inr (dest @ rest))) (\<lambda>new_path.
     bind_io (try_answer (de_metadata test_file)) (\<lambda>kind.
       if kind = Directory
       then unwrap_action ''invalid to create'' (answer M) (Create_Dir new_path)
       else
         bind_io (try_answer (read_file M (de_path test_file))) (\<lambda>contents.
         bind_io (lift_expansion (expand_test parse_file L (replace_all ''crate::'' ''crate::expanded::'' contents)))
           (format_and_write M to_string new_path)))))"

definition expand_item ::
  "machine \<Rightarrow> (string \<Rightarrow> syn_error + attribute list \<times> item list) \<Rightarrow> (expansion list \<Rightarrow> string) \<Rightarrow> lib \<Rightarrow>
     fs_path \<Rightarrow> fs_path \<Rightarrow> walk_item \<Rightarrow> unit io" where
  "expand_item M parse_file to_string L root dest item =
     bind_io (filter_entry item) (\<lambda>wanted.
       if wanted then expand_file M parse_file to_string L root dest item else return_io ())"

definition expand_all_tests ::
  "machine \<Rightarrow> (string \<Rightarrow> syn_error + attribute list \<times> item list) \<Rightarrow> (expansion list \<Rightarrow> string) \<Rightarrow> lib \<Rightarrow>
     fs_path \<Rightarrow> fs_path \<Rightarrow> walk_item list \<Rightarrow> walk_item list \<Rightarrow> unit io" where
  "expand_all_tests M parse_file to_string L root dest main_entries macro_entries =
     each_io (expand_item M parse_file to_string L root dest) (main_entries @ macro_entries)"

section \<open>The build script\<close>

text \<open>\<open>str::lines\<close>: lines end in \<open>\n\<close> or \<open>\r\n\<close>; what follows the last end counts if it is not empty.\<close>

definition strip_cr :: "string \<Rightarrow> string" where
  "strip_cr line = (if line \<noteq> [] \<and> last line = CHR 13 then butlast line else line)"

function lines :: "string \<Rightarrow> string list" where
  "lines s =
     (case dropWhile (\<lambda>c. c \<noteq> CHR 10) s of
        [] \<Rightarrow> if s = [] then [] else [s]
      | c # rest \<Rightarrow> strip_cr (takeWhile (\<lambda>c. c \<noteq> CHR 10) s) # lines rest)"
  by pat_completeness auto
termination lines
proof (relation "measure length")
  fix s :: string and c rest
  assume "dropWhile (\<lambda>c. c \<noteq> CHR 10) s = c # rest"
  then show "(rest, s) \<in> measure length"
    using length_dropWhile_le [of "\<lambda>c. c \<noteq> CHR 10" s] by simp
qed simp

declare lines.simps [simp del]

text \<open>
  \<open>{:?}\<close> of a path puts it in quotes and escapes quotes, backslashes and the control characters that have a
  name; the other control characters are not escaped here.
\<close>

fun escape_char :: "char \<Rightarrow> string" where
  "escape_char c =
     (if c = CHR 34 \<or> c = CHR 92 then [CHR 92, c]
      else if c = CHR 10 then [CHR 92, CHR ''n'']
      else if c = CHR 13 then [CHR 92, CHR ''r'']
      else if c = CHR 9 then [CHR 92, CHR ''t'']
      else if c = CHR 0x00 then [CHR 92, CHR ''0'']
      else [c])"

definition rerun_line :: "fs_path \<Rightarrow> string" where
  "rerun_line path =
     ''cargo::rerun-if-changed='' @ [CHR 34] @ concat (map escape_char (join ''/'' path)) @ [CHR 34, CHR 10]"

text \<open>The copy of a file: it is created first, then every line that is kept is written by itself.\<close>

definition copy_actions :: "fs_path \<Rightarrow> string list \<Rightarrow> action list" where
  "copy_actions new_path kept = Create_File new_path # map (Write_Line new_path) kept"

definition write_copy :: "machine \<Rightarrow> fs_path \<Rightarrow> string \<Rightarrow> unit io" where
  "write_copy M new_path contents =
     each_io (unwrap_action ''create or write'' (answer M)) (copy_actions new_path (strip_file (lines contents)))"

text \<open>
  One round of the loop. That the contents are UTF-8 is part of \<open>read_file\<close>'s answer, whose failure is a
  panic either way.
\<close>

definition build_entry :: "machine \<Rightarrow> fs_path \<Rightarrow> fs_path \<Rightarrow> walk_item \<Rightarrow> unit io" where
  "build_entry M original_src dest item =
     bind_io (try_answer item) (\<lambda>entry.
     then_io (print (rerun_line (de_path entry)))
     (bind_io (unwrap_answer ''Prefix missing???'' (case strip_path original_src (de_path entry) of
         None \<Rightarrow> Inl ''prefix not found'' | Some rest \<Rightarrow> Inr (dest @ rest))) (\<lambda>new_path.
     bind_io (try_answer (de_metadata entry)) (\<lambda>kind.
     bind_io (if kind = Regular
         then (case extension (de_path entry) of
             None \<Rightarrow> ([], Inl (Aborted ''unwrap on None'')) | Some ext \<Rightarrow> return_io (ext = ''rs''))
         else return_io False) (\<lambda>source_file.
       if source_file
       then bind_io (unwrap_answer ''Read error'' (read_file M (de_path entry))) (\<lambda>contents.
         write_copy M new_path contents)
       else if kind = Directory \<and> \<not> path_exists M new_path
       then unwrap_action ''invalid to create'' (answer M) (Create_Dir new_path)
       else return_io ())))))"

definition build_main :: "machine \<Rightarrow> fs_path \<Rightarrow> fs_path \<Rightarrow> walk_item list \<Rightarrow> unit io" where
  "build_main M original_src dest = each_io (build_entry M original_src dest)"

section \<open>What the expander writes\<close>

definition wanted :: "dir_entry \<Rightarrow> bool" where
  "wanted f \<longleftrightarrow> de_metadata f = Inr Directory \<or> extension (de_path f) = Some ''rs''"

text \<open>The action for an entry: its directory, or the formatted expansion of its redirected contents.\<close>

definition entry_expanded ::
  "machine \<Rightarrow> (string \<Rightarrow> syn_error + attribute list \<times> item list) \<Rightarrow> (expansion list \<Rightarrow> string) \<Rightarrow> lib \<Rightarrow>
     fs_path \<Rightarrow> fs_path \<Rightarrow> dir_entry \<Rightarrow> action \<Rightarrow> bool" where
  "entry_expanded M parse_file to_string L root dest f a \<longleftrightarrow>
     (\<exists>rest. strip_path root (de_path f) = Some rest \<and>
       (if de_metadata f = Inr Directory then a = Create_Dir (dest @ rest)
        else \<exists>contents new tokens success output. read_file M (de_path f) = Inr contents \<and>
          replaced ''crate::'' ''crate::expanded::'' contents new \<and> expand_test parse_file L new = Inr tokens \<and>
          rustfmt M (to_string tokens) = Inr (success, output) \<and> a = Write_File (dest @ rest) output))"

lemma bind_io_Inr: "bind_io m k = (done, Inr y) \<longleftrightarrow>
    (\<exists>d x d'. m = (d, Inr x) \<and> k x = (d', Inr y) \<and> done = d @ d')"
  by (auto simp: bind_io_def split: prod.splits sum.splits)

lemma bind_io_Inl: "bind_io m k = (done, Inl e) \<longleftrightarrow>
    m = (done, Inl e) \<or> (\<exists>d x d'. m = (d, Inr x) \<and> k x = (d', Inl e) \<and> done = d @ d')"
  by (auto simp: bind_io_def split: prod.splits sum.splits)

lemma return_io_eq [simp]: "return_io x = (done, r) \<longleftrightarrow> done = [] \<and> r = Inr x"
  by (auto simp: return_io_def)

lemma try_answer_eq [simp]:
  "try_answer a = (done, Inr x) \<longleftrightarrow> done = [] \<and> a = Inr x"
  "try_answer a = (done, Inl f) \<longleftrightarrow> done = [] \<and> (\<exists>e. a = Inl e \<and> f = Failed e)"
  by (cases a; auto)+

lemma unwrap_answer_eq [simp]:
  "unwrap_answer m a = (done, Inr x) \<longleftrightarrow> done = [] \<and> a = Inr x"
  "unwrap_answer m a = (done, Inl f) \<longleftrightarrow> done = [] \<and> (\<exists>e. a = Inl e) \<and> f = Aborted m"
  by (cases a; auto)+

lemma action_eq [simp]:
  "try_action ans a = (done, Inr u) \<longleftrightarrow> done = [a] \<and> ans a = Inr u"
  "try_action ans a = (done, Inl f) \<longleftrightarrow> done = [] \<and> (\<exists>e. ans a = Inl e \<and> f = Failed e)"
  "unwrap_action m ans a = (done, Inr u) \<longleftrightarrow> done = [a] \<and> ans a = Inr u"
  "unwrap_action m ans a = (done, Inl f) \<longleftrightarrow> done = [] \<and> (\<exists>e. ans a = Inl e) \<and> f = Aborted m"
  by (auto simp: try_action_def unwrap_action_def split: sum.splits)

lemma lift_expansion_eq [simp]:
  "lift_expansion r = (done, Inr x) \<longleftrightarrow> done = [] \<and> r = Inr x"
  "lift_expansion r = (done, Inl f) \<Longrightarrow> done = []"
  by (cases r rule: lift_expansion.cases; auto)+

text \<open>One round of the loop.\<close>

lemmas expand_defs = expand_item_def filter_entry_def is_a_rust_file_def expand_file_def format_and_write_def wanted_def

definition expanded_or_skipped ::
  "machine \<Rightarrow> (string \<Rightarrow> syn_error + attribute list \<times> item list) \<Rightarrow> (expansion list \<Rightarrow> string) \<Rightarrow> lib \<Rightarrow>
     fs_path \<Rightarrow> fs_path \<Rightarrow> dir_entry \<Rightarrow> action list \<Rightarrow> bool" where
  "expanded_or_skipped M parse_file to_string L root dest f d \<longleftrightarrow>
     (if wanted f then \<exists>a. d = [a] \<and> entry_expanded M parse_file to_string L root dest f a else d = [])"

lemma expand_item_Inr:
  "expand_item M parse_file to_string L root dest item = (d, Inr ()) \<Longrightarrow>
    \<exists>f. item = Inr f \<and> expanded_or_skipped M parse_file to_string L root dest f d"
  using replace_all_replaced [of "''crate::''" "''crate::expanded::''"]
  by (cases item) (fastforce simp: expanded_or_skipped_def expand_defs bind_io_Inr entry_expanded_def
      split: option.splits if_splits)+

lemma expand_item_Inl: "expand_item M parse_file to_string L root dest item = (d, Inl e) \<Longrightarrow> d = []"
  by (cases item) (auto simp: expand_defs bind_io_Inl bind_io_Inr split: option.splits if_splits dest: lift_expansion_eq(2))

text \<open>A round of either loop on every entry, up to a failure.\<close>

lemma rounds:
  assumes "\<And>item d. body item = (d, Inr ()) \<Longrightarrow> \<exists>f. item = Inr f \<and> ok f d"
    and "\<And>item d e. body item = (d, Inl e) \<Longrightarrow> partial item d"
    and "each_io body items = (done, r)"
  shows "\<exists>fs dss d post. items = map Inr fs @ post \<and> list_all2 ok fs dss \<and> done = concat dss @ d \<and>
    (if r = Inr () then post = [] \<and> d = [] else post \<noteq> [] \<and> partial (hd post) d)"
proof -
  have pre: "\<exists>fs. xs = map Inr fs \<and> list_all2 ok fs (map (\<lambda>x. fst (body x)) xs)" if "\<forall>x\<in>set xs. snd (body x) = Inr ()" for xs
    using that
  proof (induction xs)
    case (Cons x xs)
    then obtain fs where "xs = map Inr fs" "list_all2 ok fs (map (\<lambda>x. fst (body x)) xs)"
      by (metis list.set_intros(2))
    moreover obtain f where "x = Inr f" "ok f (fst (body x))"
      using assms(1) [of x "fst (body x)"] Cons.prems by (auto simp: prod_eq_iff)
    ultimately show ?case by (intro exI [of _ "f # fs"]) simp
  qed simp
  show ?thesis
  proof (cases rule: each_io_cases [of items body])
    case ok
    with assms(3) pre [OF ok(1)] show ?thesis by fastforce
  next
    case (failed ps x post e)
    from pre [OF failed(2)] obtain fs where "ps = map Inr fs" "list_all2 ok fs (map (\<lambda>x. fst (body x)) ps)" by blast
    moreover have "partial x (fst (body x))" using failed(3) by (intro assms(2) [of x _ e]) (simp add: prod_eq_iff)
    ultimately show ?thesis using assms(3) failed(1,4)
      by (intro exI [of _ fs] exI [of _ "map (\<lambda>x. fst (body x)) ps"] exI [of _ "fst (body x)"] exI [of _ "x # post"]) simp
  qed
qed

text \<open>
  C39. \<open>expand_all_tests\<close> handles the entries of both directories in order, up to the first failure. For
  each directory it has created its copy; for each Rust file it has written the formatted
  expansion of the contents, with every \<open>crate::\<close> redirected; other files are passed over. It
  succeeds only if all entries were handled.
\<close>

theorem expand_all_result:
  assumes "expand_all_tests M parse_file to_string L root dest main_entries macro_entries = (done, r)"
  shows "\<exists>fs post. main_entries @ macro_entries = map Inr fs @ post \<and> (post = [] \<longleftrightarrow> r = Inr ()) \<and>
    list_all2 (entry_expanded M parse_file to_string L root dest) (filter wanted fs) done"
proof -
  have flat: "list_all2 (entry_expanded M parse_file to_string L root dest) (filter wanted fs) (concat dss)"
    if "list_all2 (expanded_or_skipped M parse_file to_string L root dest) fs dss" for fs dss
    using that by (induction rule: list_all2_induct) (auto simp: expanded_or_skipped_def split: if_splits)
  have "\<exists>fs dss d post. main_entries @ macro_entries = map Inr fs @ post \<and>
    list_all2 (expanded_or_skipped M parse_file to_string L root dest) fs dss \<and>
    done = concat dss @ d \<and> (if r = Inr () then post = [] \<and> d = [] else post \<noteq> [] \<and> d = [])"
    using expand_item_Inr expand_item_Inl assms [unfolded expand_all_tests_def]
    by (rule rounds [where partial = "\<lambda>item d. d = []"])
  then obtain fs dss d post where "main_entries @ macro_entries = map Inr fs @ post"
    "list_all2 (expanded_or_skipped M parse_file to_string L root dest) fs dss"
    "done = concat dss @ d" "if r = Inr () then post = [] \<and> d = [] else post \<noteq> [] \<and> d = []"
    by (elim exE conjE) (rule that)
  with flat [of fs dss] show ?thesis by (intro exI [of _ fs] exI [of _ post]) (auto split: if_splits)
qed

text \<open>A file that \<open>rustfmt\<close> rejects is overwritten with whatever it printed, and the run goes on.\<close>

lemma rejected_expansion_written:
  assumes "rustfmt M (to_string expanded) = Inr (False, [])" and "answer M (Write_File new_path []) = Inr ()"
  shows "format_and_write M to_string new_path expanded = ([Write_File new_path []], Inr ())"
  using assms by (simp add: format_and_write_def try_action_def)

text \<open>A directory with a Rust file and another one.\<close>

definition sample_machine :: machine where
  "sample_machine =
     \<lparr>read_file = (\<lambda>p. Inr ''use crate::a;''), rustfmt = (\<lambda>s. Inr (True, s @ [CHR 10])), path_exists = (\<lambda>p. False),
      answer = (\<lambda>a. Inr ())\<rparr>"

abbreviation sample_entries :: "walk_item list" where
  "sample_entries \<equiv> [Inr \<lparr>de_path = [''r'', ''tests''], de_metadata = Inr Directory\<rparr>,
     Inr \<lparr>de_path = [''r'', ''tests'', ''a.rs''], de_metadata = Inr Regular\<rparr>,
     Inr \<lparr>de_path = [''r'', ''tests'', ''a.txt''], de_metadata = Inr Regular\<rparr>]"

theorem expand_all_result_witness:
  "\<exists>done fs. expand_all_tests sample_machine (\<lambda>s. Inr ([], [Item_Other s])) (\<lambda>xs. ''tokens'') sample_lib [''r''] [''d'']
      sample_entries [] = (done, Inr ()) \<and> sample_entries = map Inr fs \<and>
    list_all2 (entry_expanded sample_machine (\<lambda>s. Inr ([], [Item_Other s])) (\<lambda>xs. ''tokens'') sample_lib [''r''] [''d''])
      (filter wanted fs) done \<and>
    done = [Create_Dir [''d'', ''tests''], Write_File [''d'', ''tests'', ''a.rs''] (''tokens'' @ [CHR 10])]"
proof -
  have run: "expand_all_tests sample_machine (\<lambda>s. Inr ([], [Item_Other s])) (\<lambda>xs. ''tokens'') sample_lib [''r''] [''d'']
      sample_entries [] =
      ([Create_Dir [''d'', ''tests''], Write_File [''d'', ''tests'', ''a.rs''] (''tokens'' @ [CHR 10])], Inr ())"
    by (simp add: expand_all_tests_def expand_defs sample_machine_def extension_def Let_def return_io_def
        unwrap_action_def try_action_def expand_test_def)
  from expand_all_result [OF run] obtain fs where "sample_entries @ [] = map Inr fs"
    "list_all2 (entry_expanded sample_machine (\<lambda>s. Inr ([], [Item_Other s])) (\<lambda>xs. ''tokens'') sample_lib [''r''] [''d''])
      (filter wanted fs) [Create_Dir [''d'', ''tests''], Write_File [''d'', ''tests'', ''a.rs''] (''tokens'' @ [CHR 10])]"
    by force
  with run show ?thesis by fastforce
qed

section \<open>What the build script writes\<close>

text \<open>The copy of a file is made of the lines that are kept, stripped.\<close>

definition source_stripped :: "string \<Rightarrow> string list \<Rightarrow> bool" where
  "source_stripped contents copy \<longleftrightarrow>
     (\<exists>results. list_all2 line_stripped (lines contents) results \<and> copy = filter_unwrap (\<lambda>r. r) results)"

lemma stripped_source: "source_stripped contents (strip_file (lines contents))"
proof -
  have "filter_unwrap strip_line ls = filter_unwrap (\<lambda>r. r) (map strip_line ls)" for ls
    by (induction ls) (auto split: option.splits)
  moreover have "list_all2 line_stripped ls (map strip_line ls)" for ls
    by (simp add: list_all2_conv_all_nth strip_line_result)
  ultimately show ?thesis unfolding source_stripped_def strip_file_def by metis
qed

definition entry_built :: "machine \<Rightarrow> fs_path \<Rightarrow> fs_path \<Rightarrow> dir_entry \<Rightarrow> action list \<Rightarrow> bool" where
  "entry_built M original_src dest f acts \<longleftrightarrow>
     (\<exists>rest made. strip_path original_src (de_path f) = Some rest \<and> acts = Print (rerun_line (de_path f)) # made \<and>
       (case de_metadata f of
          Inl e \<Rightarrow> False
        | Inr Directory \<Rightarrow> made = (if path_exists M (dest @ rest) then [] else [Create_Dir (dest @ rest)])
        | Inr Regular \<Rightarrow>
            if extension (de_path f) = Some ''rs''
            then \<exists>contents copy. read_file M (de_path f) = Inr contents \<and> source_stripped contents copy \<and>
              made = copy_actions (dest @ rest) copy
            else made = [] \<and> extension (de_path f) \<noteq> None
        | Inr Special \<Rightarrow> made = []))"

lemma then_print: "then_io (print l) k = (d, r) \<longleftrightarrow> (\<exists>d'. d = Print l # d' \<and> k = (d', r))"
  by (cases k) (auto simp: print_def)

lemma write_all:
  "each_io (unwrap_action m ans) acts = (d, r) \<Longrightarrow> \<exists>more. acts = d @ more \<and> (more = [] \<longleftrightarrow> r = Inr ())"
proof (induction acts arbitrary: d)
  case (Cons a acts)
  show ?case
  proof (cases "ans a")
    case (Inl e)
    with Cons.prems show ?thesis by (auto simp: unwrap_action_def)
  next
    case (Inr u)
    then have "unwrap_action m ans a = ([a], Inr ())" by (simp add: unwrap_action_def)
    with Cons.prems obtain d' where "each_io (unwrap_action m ans) acts = (d', r)" "d = a # d'"
      by (cases "each_io (unwrap_action m ans) acts") auto
    with Cons.IH show ?thesis by auto
  qed
qed simp

lemma write_copy_Inr: "write_copy M p contents = (d, Inr u) \<longleftrightarrow>
    (\<forall>a\<in>set (copy_actions p (strip_file (lines contents))). answer M a = Inr ()) \<and>
    d = copy_actions p (strip_file (lines contents))"
proof -
  have "each_io (unwrap_action m ans) acts = (d, Inr u) \<longleftrightarrow> (\<forall>a\<in>set acts. ans a = Inr ()) \<and> d = acts"
    for m ans acts d
    by (induction acts arbitrary: d) (auto simp: then_io_def bind_io_Inr)
  then show ?thesis by (simp add: write_copy_def)
qed

lemma write_copy_Inl:
  "write_copy M p contents = (d, Inl e) \<Longrightarrow> \<exists>more. more \<noteq> [] \<and> d @ more = copy_actions p (strip_file (lines contents))"
  using write_all [of "''create or write''" "answer M" "copy_actions p (strip_file (lines contents))" d "Inl e"]
  by (auto simp: write_copy_def)

lemma build_entry_Inr:
  "build_entry M original_src dest item = (d, Inr ()) \<Longrightarrow> \<exists>f. item = Inr f \<and> entry_built M original_src dest f d"
  using stripped_source
  by (cases item) (fastforce simp: build_entry_def then_print bind_io_Inr entry_built_def write_copy_Inr
      split: option.splits if_splits file_kind.splits)+

text \<open>A round that fails has done nothing, or named its entry, or written a part of its copy.\<close>

definition entry_begun :: "machine \<Rightarrow> fs_path \<Rightarrow> fs_path \<Rightarrow> walk_item \<Rightarrow> action list \<Rightarrow> bool" where
  "entry_begun M original_src dest item d \<longleftrightarrow>
     d = [] \<or> (\<exists>f. item = Inr f \<and>
       (d = [Print (rerun_line (de_path f))] \<or>
        (\<exists>more. more \<noteq> [] \<and> entry_built M original_src dest f (d @ more))))"

lemma build_entry_Inl:
  assumes "build_entry M original_src dest item = (d, Inl e)"
  shows "entry_begun M original_src dest item d"
proof (cases "\<exists>f rest contents d'. item = Inr f \<and> strip_path original_src (de_path f) = Some rest \<and>
    de_metadata f = Inr Regular \<and> extension (de_path f) = Some ''rs'' \<and> read_file M (de_path f) = Inr contents \<and>
    d = Print (rerun_line (de_path f)) # d' \<and> write_copy M (dest @ rest) contents = (d', Inl e)")
  case True
  then obtain f rest contents d' where f: "item = Inr f" "strip_path original_src (de_path f) = Some rest"
    "de_metadata f = Inr Regular" "extension (de_path f) = Some ''rs''" "read_file M (de_path f) = Inr contents"
    "d = Print (rerun_line (de_path f)) # d'" and copy: "write_copy M (dest @ rest) contents = (d', Inl e)"
    by (elim exE conjE) (rule that)
  from write_copy_Inl [OF copy] obtain more where
    "more \<noteq> []" "d' @ more = copy_actions (dest @ rest) (strip_file (lines contents))" by blast
  with f stripped_source [of contents] have "entry_built M original_src dest f (d @ more)"
    by (auto simp: entry_built_def)
  with f(1) \<open>more \<noteq> []\<close> show ?thesis unfolding entry_begun_def by blast
next
  case False
  with assms show ?thesis
    by (cases item) (auto simp: build_entry_def entry_begun_def then_print bind_io_Inl bind_io_Inr
      split: option.splits if_splits)
qed

text \<open>
  C40. The build script handles the entries of the macros' sources in order, up to the first failure:
  each is named to cargo, missing directories are created, and each Rust file is copied: created, and then
  the lines that are kept written one by one, stripped. The failing round has done nothing, or has only named its
  entry, or has stopped within its copy.
\<close>

theorem build_result:
  assumes "build_main M original_src dest entries = (done, r)"
  shows "\<exists>fs dss d post. entries = map Inr fs @ post \<and> (post = [] \<longleftrightarrow> r = Inr ()) \<and>
    list_all2 (entry_built M original_src dest) fs dss \<and> done = concat dss @ d \<and>
    (if post = [] then d = [] else entry_begun M original_src dest (hd post) d)"
proof -
  have "\<exists>fs dss d post. entries = map Inr fs @ post \<and> list_all2 (entry_built M original_src dest) fs dss \<and>
    done = concat dss @ d \<and> (if r = Inr () then post = [] \<and> d = [] else post \<noteq> [] \<and> entry_begun M original_src dest (hd post) d)"
    using build_entry_Inr build_entry_Inl assms [unfolded build_main_def]
    by (rule rounds [where partial = "entry_begun M original_src dest"])
  then obtain fs dss d post where "entries = map Inr fs @ post" "list_all2 (entry_built M original_src dest) fs dss"
    "done = concat dss @ d" "if r = Inr () then post = [] \<and> d = [] else post \<noteq> [] \<and> entry_begun M original_src dest (hd post) d"
    by (elim exE conjE) (rule that)
  then show ?thesis
    by (intro exI [of _ fs] exI [of _ dss] exI [of _ d] exI [of _ post]) (auto split: if_splits)
qed

theorem build_result_witness:
  "\<exists>acts. build_main sample_machine [''r''] [''d''] sample_entries = (acts, Inr ()) \<and>
    (\<exists>fs dss. sample_entries = map Inr fs \<and> list_all2 (entry_built sample_machine [''r''] [''d'']) fs dss \<and> acts = concat dss) \<and>
    Create_Dir [''d'', ''tests''] \<in> set acts"
proof -
  have copy: "write_copy M p contents = (copy_actions p (strip_file (lines contents)), Inr ())"
    if "answer M = (\<lambda>a. Inr ())" for M p contents
    using that by (simp add: write_copy_Inr)
  have "snd (build_main sample_machine [''r''] [''d''] sample_entries) = Inr ()"
    "Create_Dir [''d'', ''tests''] \<in> set (fst (build_main sample_machine [''r''] [''d''] sample_entries))"
    by (simp_all add: build_main_def build_entry_def sample_machine_def extension_def Let_def print_def
        unwrap_action_def return_io_def copy)
  then obtain acts where run: "build_main sample_machine [''r''] [''d''] sample_entries = (acts, Inr ())"
    "Create_Dir [''d'', ''tests''] \<in> set acts" by (metis prod.collapse)
  from build_result [OF run(1)] run show ?thesis by fastforce
qed

section \<open>The commands of xtask\<close>

text \<open>The terminal and the file system, for \<open>coverage\<close>; \<open>painted\<close> colours a word.\<close>

record console_machine =
  perform_answer :: "action \<Rightarrow> string + unit"
  confirm_answer :: "string \<Rightarrow> string + bool"
  canonicalize :: "string \<Rightarrow> string + string"
  dir_files :: "string + string list"
  painted :: "string \<Rightarrow> string"

definition perform :: "console_machine \<Rightarrow> action \<Rightarrow> unit io" where
  "perform E a =
     (case a of Print line \<Rightarrow> print line | Eprint line \<Rightarrow> ([Eprint line], Inr ()) | _ \<Rightarrow> try_action (perform_answer E) a)"

definition println :: "string \<Rightarrow> action" where
  "println line = Print (line @ [CHR 10])"

definition root_crate_dir :: "fs_path \<Rightarrow> fs_path" where
  "root_crate_dir xtask_dir = butlast xtask_dir"

definition cargo_test :: "string \<Rightarrow> action" where
  "cargo_test profile =
     Run_Command [''cargo'', ''test'']
       [(''CARGO_INCREMENTAL'', ''0''), (''RUSTFLAGS'', ''-Cinstrument-coverage''), (''LLVM_PROFILE_FILE'', profile)]"

definition grcov :: "string \<Rightarrow> string \<Rightarrow> action" where
  "grcov fmt file =
     Run_Command [''grcov'', ''.'', ''--binary-path'', ''./target/debug/deps'', ''-s'', ''.'', ''-t'', fmt, ''-o'', file,
       ''--branch'', ''--ignore-not-existing'', ''--ignore'', ''**/tests/*'', ''--ignore'', ''xtask/*'',
       ''--excl-start'', ''mod tests''] []"

text \<open>The tests and the report, each step only after the one before it.\<close>

definition report_format :: "bool \<Rightarrow> string \<times> string" where
  "report_format readable =
     (if readable then (''html'', ''coverage/html'') else (''lcov'', ''coverage/tests.lcov''))"

definition report_actions :: "console_machine \<Rightarrow> fs_path \<Rightarrow> bool \<Rightarrow> action list" where
  "report_actions E xtask_dir readable =
     (let (fmt, file) = report_format readable; ok = println (painted E ''ok'')
      in [Set_Current_Dir (root_crate_dir xtask_dir), Create_All [''coverage''] True,
          Set_Current_Dir [''shakespeare-macro''], Print ''Running macro tests... '',
          cargo_test ''../coverage/cargo-test-%p-%m.profraw'', ok,
          Set_Current_Dir (root_crate_dir xtask_dir), Print ''Running main tests... '',
          cargo_test ''coverage/cargo-test-%p-%m.profraw'', ok,
          Print (''Generating reports as '' @ fmt @ ''... ''), grcov fmt file, ok])"

text \<open>Opening the report; that it cannot be opened is no failure.\<close>

definition show_report :: "console_machine \<Rightarrow> string \<Rightarrow> bool option \<Rightarrow> unit io" where
  "show_report E file open_report =
     (let index_file = file @ ''/index.html''
      in bind_io (case open_report of None \<Rightarrow> try_answer (confirm_answer E ''open report folder?'') | Some b \<Rightarrow> return_io b)
        (\<lambda>open_it.
          if open_it
          then (case perform_answer E (Open_That index_file) of
              Inr u \<Rightarrow> ([Open_That index_file, println (painted E ''Opened'')], Inr ())
            | Inl e \<Rightarrow> ([Eprint (e @ [CHR 10] @ painted E ''Failure'' @ '' to open reports'' @ [CHR 10])], Inr ()))
          else bind_io (try_answer (canonicalize E index_file)) (\<lambda>abs_path.
            perform E (println (''report location: '' @ abs_path)))))"

definition ends_with :: "string \<Rightarrow> string \<Rightarrow> bool" where
  "ends_with suffix s = (\<exists>k\<in>{..length s}. drop k s = suffix)"

definition clean_up :: "console_machine \<Rightarrow> unit io" where
  "clean_up E =
     then_io (perform E (Print ''Cleaning up... ''))
       (bind_io (try_answer (dir_files E)) (\<lambda>files.
         then_io (each_io (perform E) (map Remove_File (filter (ends_with ''profraw'') files)))
           (perform E (println (painted E ''ok'')))))"

definition coverage :: "console_machine \<Rightarrow> fs_path \<Rightarrow> bool \<Rightarrow> bool option \<Rightarrow> unit io" where
  "coverage E xtask_dir readable open_report =
     then_io (each_io (perform E) (report_actions E xtask_dir readable))
       (then_io (if readable then show_report E (snd (report_format readable)) open_report else return_io ())
         (clean_up E))"

datatype commands = Coverage bool "bool option" | Expand

definition xtask_main ::
  "console_machine \<Rightarrow> fs_path \<Rightarrow> machine \<Rightarrow> (string \<Rightarrow> syn_error + attribute list \<times> item list) \<Rightarrow>
     (expansion list \<Rightarrow> string) \<Rightarrow> lib \<Rightarrow> fs_path \<Rightarrow> fs_path \<Rightarrow> walk_item list \<Rightarrow> walk_item list \<Rightarrow> commands \<Rightarrow> unit io"
where
  "xtask_main E xtask_dir M parse_file to_string L root dest main_entries macro_entries subcommand =
     (case subcommand of
        Coverage readable open_report \<Rightarrow> coverage E xtask_dir readable open_report
      | Expand \<Rightarrow> expand_all_tests M parse_file to_string L root dest main_entries macro_entries)"

section \<open>What coverage does\<close>

text \<open>Actions in a row are done up to the first that fails.\<close>

lemma perform_cases: "perform E a = ([a], Inr ()) \<or> (\<exists>e. perform E a = ([], Inl (Failed e)))"
  by (cases a) (auto simp: perform_def print_def try_action_def split: sum.splits)

lemma perform_all:
  "each_io (perform E) acts = (d0, r) \<Longrightarrow> \<exists>rest. acts = d0 @ rest \<and> (rest = [] \<longleftrightarrow> r = Inr ())"
proof (induction acts arbitrary: d0)
  case (Cons a acts)
  from perform_cases [of E a] show ?case
  proof
    assume a: "perform E a = ([a], Inr ())"
    obtain d where "each_io (perform E) acts = (d, r)" "d0 = a # d"
      using Cons.prems a by (cases "each_io (perform E) acts") auto
    with Cons.IH show ?thesis by auto
  next
    assume "\<exists>e. perform E a = ([], Inl (Failed e))"
    with Cons.prems show ?thesis by (auto simp: then_io_def)
  qed
qed simp

fun removal :: "action \<Rightarrow> string option" where
  "removal (Remove_File f) = Some f"
| "removal _ = None"

lemma show_report_actions:
  "show_report E file open_report = (done, r) \<Longrightarrow> filter_unwrap removal done = []"
  using perform_cases [of E "println x" for x]
  by (auto simp: show_report_def Let_def bind_io_def return_io_def println_def perform_def print_def
      split: prod.splits sum.splits option.splits if_splits elim!: try_answer.elims)

lemma clean_up_actions:
  assumes "clean_up E = (done, r)"
  shows "\<exists>files rest. filter (ends_with ''profraw'') files = filter_unwrap removal done @ rest \<and>
    (r = Inr () \<longrightarrow> dir_files E = Inr files \<and> rest = [])"
proof (cases "dir_files E")
  case (Inl e)
  with assms show ?thesis
    by (intro exI [of _ "[]"]) (auto simp: clean_up_def perform_def then_print bind_io_def)
next
  case (Inr files)
  let ?profiles = "filter (ends_with ''profraw'') files"
  obtain d r' where removed: "each_io (perform E) (map Remove_File ?profiles) = (d, r')" by fastforce
  from perform_all [OF this] obtain rest where rest: "map Remove_File ?profiles = d @ rest" "rest = [] \<longleftrightarrow> r' = Inr ()" by blast
  have "filter_unwrap removal (map Remove_File fs) = fs" for fs by (induction fs) auto
  from this [of ?profiles] have "?profiles = filter_unwrap removal d @ filter_unwrap removal rest"
    unfolding rest(1) by simp
  moreover have "filter_unwrap removal done = filter_unwrap removal d \<and> (r = Inr () \<longrightarrow> r' = Inr ())"
    using assms removed Inr perform_cases [of E "println (painted E ''ok'')"]
    by (cases r') (auto simp: clean_up_def perform_def println_def print_def then_io_def bind_io_def return_io_def)
  ultimately show ?thesis
    using Inr rest(2) by (intro exI [of _ files] exI [of _ "filter_unwrap removal rest"]) auto
qed

text \<open>
  The command \<open>coverage\<close> removes files only after both test runs and the report have succeeded, and only
  raw profiles; when it succeeds it has removed all of them that lie below the directory.
\<close>

theorem coverage_outcome:
  assumes "coverage E xtask_dir readable open_report = (done, r)"
  shows "(filter_unwrap removal done \<noteq> [] \<or> r = Inr () \<longrightarrow>
      (\<exists>rest. done = report_actions E xtask_dir readable @ rest)) \<and>
    (\<forall>f\<in>set (filter_unwrap removal done). ends_with ''profraw'' f) \<and>
    (r = Inr () \<longrightarrow> (\<exists>files. dir_files E = Inr files \<and> filter_unwrap removal done = filter (ends_with ''profraw'') files))"
proof -
  let ?acts = "report_actions E xtask_dir readable"
  obtain d r1 where report: "each_io (perform E) ?acts = (d, r1)" by fastforce
  from perform_all [OF this] obtain rest where rest: "?acts = d @ rest" "rest = [] \<longleftrightarrow> r1 = Inr ()" by blast
  have "filter_unwrap removal ?acts = []"
    by (simp add: report_actions_def Let_def println_def cargo_test_def grcov_def split: prod.splits)
  then have none: "filter_unwrap removal d = []" unfolding rest(1) by simp
  show ?thesis
  proof (cases r1)
    case (Inl e)
    with assms report none show ?thesis by (auto simp: coverage_def)
  next
    case (Inr u)
    obtain d2 r2 where shown: "(if readable then show_report E (snd (report_format readable)) open_report else return_io ()) = (d2, r2)"
      by fastforce
    have none2: "filter_unwrap removal d2 = []"
      using shown show_report_actions [of E "snd (report_format readable)" open_report d2 r2] by (auto split: if_splits)
    obtain d3 r3 where clean: "clean_up E = (d3, r3)" by fastforce
    from clean_up_actions [OF clean] obtain files more where files:
      "filter (ends_with ''profraw'') files = filter_unwrap removal d3 @ more" "r3 = Inr () \<longrightarrow> dir_files E = Inr files \<and> more = []"
      by blast
    have "\<forall>f\<in>set (filter_unwrap removal d3). ends_with ''profraw'' f"
      using arg_cong [OF files(1), of set] by auto
    moreover have "done = ?acts @ d2 \<and> r = r2 \<and> (\<exists>e. r = Inl e) \<or> done = ?acts @ d2 @ d3 \<and> r = r3"
      using assms report Inr rest shown clean by (cases r2) (auto simp: coverage_def)
    ultimately show ?thesis
      using none none2 rest Inr files by (cases r3) (auto simp: filter_unwrap_append)
  qed
qed

end
