(* ===== verification/Chat.thy ===== *)
theory Chat
  imports Envelopes Macro_Lib "HOL-Library.Word"
begin

text \<open>
  The chat server of \<open>src/examples/chat.rs\<close>: the actor of a connected client, the server that relays
  lines among the clients and notices the dead ones, and the handlers of their roles. Sockets
  and codecs are third-party: what writing a line does is a parameter. Awaiting a call of
  another actor is answered by the environment, from the calls made so far; it may also never be.
\<close>

type_synonym usize = "64 word"

section \<open>Text\<close>

text \<open>\<open>{}\<close> and \<open>{:>03}\<close> of an unsigned number: with the flag \<open>0\<close> the alignment is ignored.\<close>

fun decimal :: "nat \<Rightarrow> string" where
  "decimal n = (if n < 10 then [char_of (48 + n)] else decimal (n div 10) @ [char_of (48 + n mod 10)])"

declare decimal.simps [simp del]

definition show_id :: "usize \<Rightarrow> string" where
  "show_id i = decimal (unat i)"

definition show_padded :: "usize \<Rightarrow> string" where
  "show_padded i = replicate (3 - length (show_id i)) CHR ''0'' @ show_id i"

text \<open>\<open>str::trim\<close>, for characters up to U+00FF.\<close>

definition is_whitespace :: "char \<Rightarrow> bool" where
  "is_whitespace c \<longleftrightarrow> (of_char c :: nat) \<in> {9..13} \<union> {32, 133, 160}"

definition trim :: "string \<Rightarrow> string" where
  "trim s = rev (dropWhile is_whitespace (rev (dropWhile is_whitespace s)))"

section \<open>The messages of the roles\<close>

datatype codec_error = MaxLineLengthExceeded | Io string

text \<open>\<open>MsgRelay\<close>'s payload; both hooks of a client return its number.\<close>

datatype relay_payload = Send_Msg usize string | Client_Leaves "(usize, usize) outcome"

text \<open>The position of a role in its actor's declaration: \<open>MsgRelay\<close> and \<open>NetListener\<close>; \<open>NetClient\<close>.\<close>

definition msg_relay :: "shell_ref \<Rightarrow> dest" where
  "msg_relay server = \<lparr>dest_shell = server, dest_role = 0\<rparr>"

definition net_listener :: "shell_ref \<Rightarrow> dest" where
  "net_listener server = \<lparr>dest_shell = server, dest_role = 1\<rparr>"

definition net_client :: "shell_ref \<Rightarrow> dest" where
  "net_client client = \<lparr>dest_shell = client, dest_role = 0\<rparr>"

section \<open>The client: mod Client\<close>

record 'o client_state =
  cl_id :: usize
  cl_relay :: shell_ref
  net_out_stream :: 'o

definition client_stop :: "'o client_state \<Rightarrow> usize" where
  "client_stop self = cl_id self"

definition client_catch :: "'o client_state \<Rightarrow> 'v \<Rightarrow> usize" where
  "client_catch self err = cl_id self"

text \<open>
  What \<open>Client::new\<close> sets going: the state of the new actor, the task that feeds it the incoming
  lines, the task that sends its outcome to the relay, and the handle it returns. \<open>split\<close>
  frames a socket and splits it into its two directions; \<open>shell\<close> is the shell \<open>start\<close> makes.
\<close>

record ('o, 'i, 'v) client_setup =
  setup_state :: "'o client_state"
  setup_input :: 'i
  setup_feed :: "'v feed_task"
  setup_exit :: "relay_payload send_task"
  setup_handle :: shell_ref

definition Client_new ::
  "('k \<Rightarrow> 'o \<times> 'i) \<Rightarrow> shell_ref \<Rightarrow> shell_ref \<Rightarrow> 'k \<Rightarrow> usize \<Rightarrow> ('o, 'i, 'v) client_setup" where
  "Client_new split shell relay client i =
     (let (out_stream, in_stream) = split client;
          client_state = \<lparr>cl_id = i, cl_relay = relay, net_out_stream = out_stream\<rparr>;
          handles = ActorHandles_new shell (Pending :: (usize, usize) task_result poll)
      in \<lparr>setup_state = client_state, setup_input = in_stream,
          setup_feed = Feed_Next (net_client (message_handle handles)),
          setup_exit = Await_Value (msg_relay relay), setup_handle = message_handle handles\<rparr>)"

text \<open>
  \<open>on_read\<close> gives the context afterwards and the task spawned by dropping the envelope of
  \<open>send_msg\<close>, or panics.
\<close>

definition unreachable_length :: string where
  "unreachable_length = ''internal error: entered unreachable code: We didn't set a maximum length''"

fun on_read ::
  "'o client_state \<Rightarrow> actor_context \<Rightarrow> codec_error + string \<Rightarrow>
     string + actor_context \<times> (relay_payload poll \<times> relay_payload send_task) option" where
  "on_read self ctx (Inr msg) =
     map_sum id (\<lambda>task. (ctx, Some task))
       (Envelope_drop (Envelope_new (Send_Msg (cl_id self) (trim msg)) (msg_relay (cl_relay self))))"
| "on_read self ctx (Inl MaxLineLengthExceeded) = Inl unreachable_length"
| "on_read self ctx (Inl (Io e)) = Inr (context_stop ctx, None)"

text \<open>\<open>write\<close> is what sending a line into the socket's sink does.\<close>

definition send_out ::
  "('o \<Rightarrow> string \<Rightarrow> 'o \<times> (codec_error + unit)) \<Rightarrow> 'o client_state \<Rightarrow> actor_context \<Rightarrow> string \<Rightarrow>
     'o client_state \<times> actor_context \<times> (codec_error + unit)" where
  "send_out write self ctx msg =
     (let (out_stream, result) = write (net_out_stream self) msg;
          ctx = (case result of Inl err \<Rightarrow> context_stop ctx | Inr ok \<Rightarrow> ctx)
      in (self\<lparr>net_out_stream := out_stream\<rparr>, ctx, result))"

section \<open>The server: mod Server\<close>

text \<open>
  The hash map of the clients is a list of entries with distinct keys. \<open>console\<close> are the lines
  printed, \<open>calls\<close> the calls of \<open>send_out\<close> made so far; \<open>ID_COUNTER\<close> is a global that only the
  server uses.
\<close>

type_synonym client_entry = "usize \<times> shell_ref"

record server_state =
  users :: "client_entry list"
  id_counter :: usize
  console :: "string list"
  calls :: "(client_entry \<times> string) list"

definition server_default :: server_state where
  "server_default = \<lparr>users = [], id_counter = 1, console = [], calls = []\<rparr>"

text \<open>
  The reply to the last of the calls: the outer error is a call the client did not answer, the
  inner one a failed write; \<open>None\<close> is an \<open>await\<close> that never returns.
\<close>

type_synonym reply = "unit envelope_err + (codec_error + unit)"
type_synonym env = "(client_entry \<times> string) list \<Rightarrow> reply option"

fun wrote :: "reply \<Rightarrow> bool" where
  "wrote (Inr (Inr ok)) = True"
| "wrote _ = False"

text \<open>The first loop of \<open>broadcast\<close>, over the entries in the order of the hash map.\<close>

fun send_all ::
  "env \<Rightarrow> string \<Rightarrow> client_entry list \<Rightarrow> usize list \<Rightarrow> (client_entry \<times> string) list \<Rightarrow>
     (usize list \<times> (client_entry \<times> string) list) option" where
  "send_all env msg [] dead cs = Some (dead, cs)"
| "send_all env msg (user # rest) dead cs =
     (case env (cs @ [(user, msg)]) of
        None \<Rightarrow> None
      | Some msg_success \<Rightarrow>
          send_all env msg rest (if wrote msg_success then dead else dead @ [fst user]) (cs @ [(user, msg)]))"

definition broadcast_line :: "string \<Rightarrow> usize option \<Rightarrow> string" where
  "broadcast_line msg user_id = (case user_id of Some i \<Rightarrow> show_padded i @ '': '' @ msg | None \<Rightarrow> msg)"

definition left_line :: "usize \<Rightarrow> string" where
  "left_line i = ''User '' @ show_id i @ '' has left'' @ [CHR 10]"

definition entered_line :: "usize \<Rightarrow> string" where
  "entered_line i = ''User '' @ show_id i @ '' has entered'' @ [CHR 10]"

text \<open>The recursion below ends: the map gets smaller with each client that is removed.\<close>

fun recursion_size ::
  "(env \<times> (client_entry list \<Rightarrow> client_entry list) \<times> string \<times> usize option \<times> server_state) +
   ((env \<times> (client_entry list \<Rightarrow> client_entry list) \<times> usize list \<times> server_state) +
    (env \<times> (client_entry list \<Rightarrow> client_entry list) \<times> usize \<times> server_state)) \<Rightarrow> nat \<times> nat \<times> nat" where
  "recursion_size (Inl (env, order, msg, user_id, self)) = (length (users self), 2, 0)"
| "recursion_size (Inr (Inl (env, order, dead, self))) = (length (users self), 1, length dead)"
| "recursion_size (Inr (Inr (env, order, client_id, self))) = (length (users self), 0, 0)"

text \<open>
  \<open>broadcast\<close>, its second loop over the dead clients, and \<open>remove_client\<close>. \<open>order\<close> is the order in which
  the hash map is read. \<open>None\<close> means that some \<open>await\<close> never returns.
\<close>

function broadcast ::
    "env \<Rightarrow> (client_entry list \<Rightarrow> client_entry list) \<Rightarrow> string \<Rightarrow> usize option \<Rightarrow> server_state \<Rightarrow> server_state option"
  and remove_all ::
    "env \<Rightarrow> (client_entry list \<Rightarrow> client_entry list) \<Rightarrow> usize list \<Rightarrow> server_state \<Rightarrow> server_state option"
  and remove_client ::
    "env \<Rightarrow> (client_entry list \<Rightarrow> client_entry list) \<Rightarrow> usize \<Rightarrow> server_state \<Rightarrow> server_state option"
where
  "broadcast env order msg user_id self =
     (case send_all env (broadcast_line msg user_id) (order (users self)) [] (calls self) of
        None \<Rightarrow> None
      | Some (dead, cs) \<Rightarrow>
          remove_all env order dead
            (self\<lparr>console := console self @ [broadcast_line msg user_id], calls := cs\<rparr>))"
| "remove_all env order [] self = Some self"
| "remove_all env order (d # dead) self =
     (case remove_client env order d self of None \<Rightarrow> None | Some self' \<Rightarrow> remove_all env order dead self')"
| "remove_client env order client_id self =
     (case map_of (users self) client_id of
        None \<Rightarrow> Some self
      | Some user \<Rightarrow>
          broadcast env order (left_line client_id) None
            (self\<lparr>users := filter (\<lambda>u. fst u \<noteq> client_id) (users self)\<rparr>))"
  by pat_completeness auto

text \<open>No call makes the map larger, which is what the recursion after a call needs.\<close>

lemma users_shrink:
  "broadcast_remove_all_remove_client_dom (Inl (env, order, msg, user_id, self)) \<Longrightarrow>
     broadcast env order msg user_id self = Some self' \<Longrightarrow> length (users self') \<le> length (users self)"
  "broadcast_remove_all_remove_client_dom (Inr (Inl (env, order, dead, self))) \<Longrightarrow>
     remove_all env order dead self = Some self' \<Longrightarrow> length (users self') \<le> length (users self)"
  "broadcast_remove_all_remove_client_dom (Inr (Inr (env, order, client_id, self))) \<Longrightarrow>
     remove_client env order client_id self = Some self' \<Longrightarrow> length (users self') \<le> length (users self)"
proof (induction arbitrary: self' and self' and self' rule: broadcast_remove_all_remove_client.pinduct)
  case (1 env order msg user_id self)
  then show ?case by (auto simp: broadcast.psimps split: option.splits)
next
  case (2 env order self)
  then show ?case by (auto simp: remove_all.psimps)
next
  case (3 env order d dead self)
  then show ?case by (fastforce simp: remove_all.psimps split: option.splits)
next
  case (4 env order client_id self)
  then show ?case
    by (fastforce simp: remove_client.psimps split: option.splits intro: le_trans)
qed

termination broadcast
proof (relation "inv_image (less_than <*lex*> less_than <*lex*> less_than) recursion_size", goal_cases)
  case 1
  show ?case by (intro wf_inv_image wf_lex_prod wf_less_than)
next
  case (2 env order msg user_id self)
  then show ?case by simp
next
  case (3 env order d dead self)
  then show ?case by simp
next
  case (4 env order d dead self self')
  then show ?case using users_shrink(3) [of env order d self self'] by (auto simp: le_less)
next
  case (5 env order client_id self user)
  then have "(client_id, user) \<in> set (users self)" by (simp add: map_of_SomeD)
  then have "length (filter (\<lambda>u. fst u \<noteq> client_id) (users self)) < length (users self)"
    by (intro length_filter_less) auto
  then show ?case by simp
qed


section \<open>The handlers of the server\<close>

definition send_msg ::
  "env \<Rightarrow> (client_entry list \<Rightarrow> client_entry list) \<Rightarrow> usize \<Rightarrow> string \<Rightarrow> server_state \<Rightarrow> server_state option" where
  "send_msg env order sender_id msg self = broadcast env order msg (Some sender_id) self"

definition client_leaves ::
  "env \<Rightarrow> (client_entry list \<Rightarrow> client_entry list) \<Rightarrow> (usize, usize) outcome \<Rightarrow> server_state \<Rightarrow> server_state option" where
  "client_leaves env order result self =
     (let client_id = (case result of Exit i \<Rightarrow> i | Panic i \<Rightarrow> i) in remove_client env order client_id self)"

fun relay_dispatch ::
  "env \<Rightarrow> (client_entry list \<Rightarrow> client_entry list) \<Rightarrow> relay_payload \<Rightarrow> server_state \<Rightarrow> server_state option" where
  "relay_dispatch env order (Send_Msg sender_id msg) self = send_msg env order sender_id msg self"
| "relay_dispatch env order (Client_Leaves result) self = client_leaves env order result self"

text \<open>\<open>listen\<close> sets up a client on the given shell, and then has it announced.\<close>

definition listen ::
  "env \<Rightarrow> (client_entry list \<Rightarrow> client_entry list) \<Rightarrow> ('k \<Rightarrow> 'o \<times> 'i) \<Rightarrow> nat \<Rightarrow> actor_context \<Rightarrow> shell_ref \<Rightarrow> 'k \<Rightarrow>
     server_state \<Rightarrow> ('o, 'i, 'v) client_setup \<times> server_state option" where
  "listen env order split strong_count ctx shell tcp_client self =
     (let i = id_counter self;
          self = self\<lparr>id_counter := i + 1\<rparr>;
          setup = Client_new split shell (fst (get_shell strong_count ctx)) tcp_client i;
          self = self\<lparr>users := (i, setup_handle setup) # filter (\<lambda>u. fst u \<noteq> i) (users self)\<rparr>
      in (setup, broadcast env order (entered_line i) None self))"

text \<open>The messages a server handles, one after the other.\<close>

datatype 'k server_event = Relay relay_payload | Listen nat actor_context shell_ref 'k

fun server_step ::
  "env \<Rightarrow> (client_entry list \<Rightarrow> client_entry list) \<Rightarrow> ('k \<Rightarrow> 'o \<times> 'i) \<Rightarrow> 'k server_event \<Rightarrow>
     server_state \<Rightarrow> server_state option" where
  "server_step env order split (Relay p) self = relay_dispatch env order p self"
| "server_step env order split (Listen n ctx shell tcp_client) self =
     snd (listen env order split n ctx shell tcp_client self :: ('o, 'i, unit) client_setup \<times> server_state option)"

fun server_run ::
  "env \<Rightarrow> (client_entry list \<Rightarrow> client_entry list) \<Rightarrow> ('k \<Rightarrow> 'o \<times> 'i) \<Rightarrow> 'k server_event list \<Rightarrow>
     server_state \<Rightarrow> server_state option" where
  "server_run env order split [] self = Some self"
| "server_run env order split (e # es) self =
     (case server_step env order split e self of None \<Rightarrow> None | Some self' \<Rightarrow> server_run env order split es self')"

section \<open>main\<close>

text \<open>
  The stream of the sockets, given what polling the listener's stream yields: \<open>filter_map\<close> polls on
  after an error.
\<close>

fun client_stream :: "('e + 'k) option poll list \<Rightarrow> 'k option poll list" where
  "client_stream [] = []"
| "client_stream (Ready (Some (Inl e)) # rest) = client_stream rest"
| "client_stream (Ready (Some (Inr socket)) # rest) = Ready (Some socket) # client_stream rest"
| "client_stream (Ready None # rest) = Ready None # client_stream rest"
| "client_stream (Pending # rest) = Pending # client_stream rest"

text \<open>
  What \<open>main\<close> sets going when it can listen: the stream, the task that feeds it to the server's
  \<open>NetListener\<close>, the server, and the exit handle it waits for.
\<close>

record ('k, 'v) chat_setup =
  main_stream :: "'k option poll list"
  main_feed :: "'v feed_task"
  main_server :: server_state
  main_join :: "(unit, string) task_result poll"

definition chat_main ::
  "string + 'l \<Rightarrow> ('l \<Rightarrow> ('e + 'k) option poll list) \<Rightarrow> shell_ref \<Rightarrow> string + ('k, 'v) chat_setup" where
  "chat_main listening incoming shell =
     (case listening of
        Inl e \<Rightarrow> Inl (''Can't listen on port 8000, is it free?: '' @ e)
      | Inr listener \<Rightarrow>
          let stream = client_stream (incoming listener);
              handles = ActorHandles_new shell (Pending :: (unit, string) task_result poll)
          in Inr \<lparr>main_stream = stream, main_feed = Feed_Next (net_listener (message_handle handles)),
               main_server = server_default, main_join = join_handle handles\<rparr>)"

fun stream_item :: "'k option poll \<Rightarrow> 'k option" where
  "stream_item (Ready item) = item"
| "stream_item Pending = None"

fun accepted_socket :: "('e + 'k) option poll \<Rightarrow> 'k option" where
  "accepted_socket (Ready (Some (Inr socket))) = Some socket"
| "accepted_socket _ = None"

text \<open>Errors are passed over; the sockets accepted are fed to the server in order.\<close>

lemma client_stream_items:
  "filter_unwrap stream_item (client_stream polls) = filter_unwrap accepted_socket polls"
  by (induction polls rule: client_stream.induct) auto

section \<open>What a broadcast does\<close>

declare broadcast.simps [simp del] remove_client.simps [simp del]

text \<open>The clients to which one of the calls \<open>new\<close>, made after \<open>pre\<close>, failed.\<close>

fun failed :: "env \<Rightarrow> (client_entry \<times> string) list \<Rightarrow> (client_entry \<times> string) list \<Rightarrow> usize list" where
  "failed env pre [] = []"
| "failed env pre (c # new) =
     (if (\<exists>r. env (pre @ [c]) = Some r \<and> wrote r) then [] else [fst (fst c)]) @ failed env (pre @ [c]) new"

lemma failed_append: "failed env pre (xs @ ys) = failed env pre xs @ failed env (pre @ xs) ys"
  by (induction xs arbitrary: pre) auto

lemma failed_subset: "set (failed env pre new) \<subseteq> (\<lambda>c. fst (fst c)) ` set new"
  by (induction new arbitrary: pre) (auto split: if_splits)

lemma send_all_result:
  "send_all env msg us dead cs = Some (dead', cs') \<Longrightarrow>
     cs' = cs @ map (\<lambda>u. (u, msg)) us \<and> dead' = dead @ failed env cs (map (\<lambda>u. (u, msg)) us)"
proof (induction us arbitrary: dead cs)
  case (Cons user us)
  then obtain r where r: "env (cs @ [(user, msg)]) = Some r"
    "send_all env msg us (if wrote r then dead else dead @ [fst user]) (cs @ [(user, msg)]) = Some (dead', cs')"
    by (auto split: option.splits)
  from Cons.IH [OF r(2)] r(1) show ?case by simp
qed simp

text \<open>
  From \<open>self\<close> to \<open>self'\<close> the clients \<open>gone\<close> were removed: those in \<open>D\<close> and those to which a call
  failed, each announced once on the console and to every client that stays.
\<close>

definition removed ::
  "env \<Rightarrow> usize set \<Rightarrow> usize list \<Rightarrow> (client_entry \<times> string) list \<Rightarrow> server_state \<Rightarrow> server_state \<Rightarrow> bool" where
  "removed env D gone new self self' \<longleftrightarrow>
     calls self' = calls self @ new \<and> console self' = console self @ map left_line gone \<and>
     users self' = filter (\<lambda>u. fst u \<notin> set gone) (users self) \<and> id_counter self' = id_counter self \<and>
     distinct gone \<and> set gone \<subseteq> fst ` set (users self) \<and>
     set gone = (D \<inter> fst ` set (users self)) \<union> set (failed env (calls self) new) \<and>
     (\<forall>i\<in>set gone. \<forall>u\<in>set (users self'). (u, left_line i) \<in> set new)"

lemma removedD:
  assumes "removed env D gone new self self'"
  shows "calls self' = calls self @ new" "console self' = console self @ map left_line gone"
    "users self' = filter (\<lambda>u. fst u \<notin> set gone) (users self)" "id_counter self' = id_counter self"
    "distinct gone" "set gone \<subseteq> fst ` set (users self)"
    "set gone = (D \<inter> fst ` set (users self)) \<union> set (failed env (calls self) new)"
    "\<forall>i\<in>set gone. \<forall>u\<in>set (users self'). (u, left_line i) \<in> set new"
  using assms unfolding removed_def by blast+

lemma removed_refl: "D \<inter> fst ` set (users self) = {} \<Longrightarrow> removed env D [] [] self self"
  by (simp add: removed_def)

lemma removed_trans:
  assumes "removed env D g n s s1" and "removed env E h m s1 s2"
  shows "removed env (D \<union> E) (g @ h) (n @ m) s s2"
proof -
  note one = removedD [OF assms(1)] and two = removedD [OF assms(2)]
  have keys: "fst ` set (users s1) = fst ` set (users s) - set g"
    unfolding one(3) by auto
  have fails: "set (failed env (calls s) (n @ m)) = set (failed env (calls s) n) \<union> set (failed env (calls s1) m)"
    by (simp add: one(1) failed_append)
  have sub: "set h \<subseteq> fst ` set (users s) - set g" using two(6) unfolding keys .
  show ?thesis unfolding removed_def
  proof (intro conjI)
    show "set (g @ h) = (D \<union> E) \<inter> fst ` set (users s) \<union> set (failed env (calls s) (n @ m))"
      unfolding fails set_append using one(7) two(7) [unfolded keys] by blast
    show "distinct (g @ h)" using one(5) two(5) sub by auto
    show "\<forall>i\<in>set (g @ h). \<forall>u\<in>set (users s2). (u, left_line i) \<in> set (n @ m)"
      using one(8) two(8) two(3) by auto
    show "users s2 = filter (\<lambda>u. fst u \<notin> set (g @ h)) (users s)"
      unfolding one(3) two(3) by (simp add: conj_commute)
    show "set (g @ h) \<subseteq> fst ` set (users s)" using one(6) sub by auto
  qed (simp_all add: one(1,2,4) two(1,2,4))
qed

text \<open>A hash map is read with each entry once.\<close>

definition reads_all :: "(client_entry list \<Rightarrow> client_entry list) \<Rightarrow> bool" where
  "reads_all order \<longleftrightarrow> (\<forall>us. mset (order us) = mset us)"

lemma reads_all_set: "reads_all order \<Longrightarrow> set (order us) = set us"
  by (metis mset_eq_setD reads_all_def)

lemma reads_all_id: "reads_all id"
  by (simp add: reads_all_def)

lemma broadcast_removed:
  "reads_all order \<Longrightarrow> broadcast env order msg user_id self = Some self' \<Longrightarrow>
      \<exists>gone rest. removed env {} gone (map (\<lambda>u. (u, broadcast_line msg user_id)) (order (users self)) @ rest)
        (self\<lparr>console := console self @ [broadcast_line msg user_id]\<rparr>) self' \<and>
        (\<forall>i\<in>set gone. \<forall>u\<in>set (users self'). (u, left_line i) \<in> set rest)"
  "reads_all order \<Longrightarrow> remove_all env order dead self = Some self' \<Longrightarrow> \<exists>gone new. removed env (set dead) gone new self self'"
  "reads_all order \<Longrightarrow> remove_client env order client_id self = Some self' \<Longrightarrow>
      \<exists>gone new. removed env {client_id} gone new self self'"
proof (induction env order msg user_id self and env order dead self and env order client_id self
    arbitrary: self' and self' and self' rule: broadcast_remove_all_remove_client.induct)
  case (1 env order msg user_id self)
  let ?line = "broadcast_line msg user_id"
  let ?first = "map (\<lambda>u. (u, ?line)) (order (users self))"
  from 1(3) obtain dead cs where sent: "send_all env ?line (order (users self)) [] (calls self) = Some (dead, cs)"
    and all: "remove_all env order dead (self\<lparr>console := console self @ [?line], calls := cs\<rparr>) = Some self'"
    by (auto simp: broadcast.simps split: option.splits)
  have first: "cs = calls self @ ?first" "dead = failed env (calls self) ?first"
    using send_all_result [OF sent] by simp_all
  from 1(1) [OF sent refl 1(2) all] obtain gone new where
    rest: "removed env (set dead) gone new (self\<lparr>console := console self @ [?line], calls := cs\<rparr>) self'" by blast
  have "set (order (users self)) = set (users self)" by (rule reads_all_set) (rule 1(2))
  then have "set dead \<subseteq> fst ` set (users self)"
    using failed_subset [of env "calls self" ?first] first(2) by (auto simp: image_image)
  with rest have "removed env {} gone (?first @ new) (self\<lparr>console := console self @ [?line]\<rparr>) self'"
    unfolding removed_def by (auto simp: first failed_append)
  with removedD(8) [OF rest] show ?case by blast
next
  case (2 env order self)
  then show ?case by (auto intro: removed_refl)
next
  case (3 env order d dead self)
  from 3(4) obtain self1 where one: "remove_client env order d self = Some self1"
    and two: "remove_all env order dead self1 = Some self'"
    by (auto split: option.splits)
  from 3(1) [OF 3(3) one] 3(2) [OF one 3(3) two] removed_trans [of env "{d}" _ _ self self1 "set dead" _ _ self']
  show ?case by (metis insert_is_Un list.set(2))
next
  case (4 env order client_id self)
  show ?case
  proof (cases "map_of (users self) client_id")
    case None
    with 4(3) have "self' = self" by (simp add: remove_client.simps)
    with None show ?thesis by (auto simp: map_of_eq_None_iff intro: removed_refl)
  next
    case (Some user)
    let ?self = "self\<lparr>users := filter (\<lambda>u. fst u \<noteq> client_id) (users self)\<rparr>"
    let ?first = "map (\<lambda>u. (u, broadcast_line (left_line client_id) None)) (order (users ?self))"
    from 4(3) Some have "broadcast env order (left_line client_id) None ?self = Some self'"
      by (simp add: remove_client.simps)
    from 4(1) [OF Some 4(2) this] obtain gone rest where
      rest: "removed env {} gone (?first @ rest)
        (?self\<lparr>console := console ?self @ [broadcast_line (left_line client_id) None]\<rparr>) self'" by blast
    have key: "client_id \<in> fst ` set (users self)" using Some by (force dest: map_of_SomeD)
    have "set (order (users ?self)) = set (users ?self)" by (rule reads_all_set) (rule 4(2))
    with rest key have "removed env {client_id} (client_id # gone) (?first @ rest) self self'"
      unfolding removed_def by (auto simp: broadcast_line_def)
    then show ?thesis by blast
  qed
qed


text \<open>
  C16. A broadcast goes to every client once, in the order of the hash map, and is printed. The
  clients that leave the map are exactly those to which a call failed, in this loop or in one
  of the announcements it causes; each of them is announced once on the console and to
  every client that stays; and nothing else changes.
\<close>

theorem broadcast_outcome:
  assumes "reads_all order" and "broadcast env order msg user_id self = Some self'"
  shows "\<exists>gone rest. let new = map (\<lambda>u. (u, broadcast_line msg user_id)) (order (users self)) @ rest in
    calls self' = calls self @ new \<and>
    console self' = console self @ broadcast_line msg user_id # map left_line gone \<and>
    users self' = filter (\<lambda>u. fst u \<notin> set gone) (users self) \<and>
    set gone = set (failed env (calls self) new) \<and> distinct gone \<and>
    (\<forall>i\<in>set gone. \<forall>u\<in>set (users self'). (u, left_line i) \<in> set rest) \<and> id_counter self' = id_counter self"
proof -
  obtain gone rest where r: "removed env {} gone (map (\<lambda>u. (u, broadcast_line msg user_id)) (order (users self)) @ rest)
      (self\<lparr>console := console self @ [broadcast_line msg user_id]\<rparr>) self'"
    and told: "\<forall>i\<in>set gone. \<forall>u\<in>set (users self'). (u, left_line i) \<in> set rest"
    using broadcast_removed(1) [OF assms] by blast
  show ?thesis
    using removedD(1-5,7) [OF r] told by (intro exI [of _ gone] exI [of _ rest]) (simp add: Let_def)
qed

theorem broadcast_outcome_witness:
  "\<exists>self' gone. broadcast (\<lambda>cs. Some (if length cs = 2 then Inl Hangup else Inr (Inr ()))) id ''hi'' None
      (server_default\<lparr>users := [(1, 10), (2, 11)]\<rparr>) = Some self' \<and>
    console self' = ''hi'' # map left_line gone \<and> users self' = [(1, 10)] \<and> distinct gone"
proof -
  let ?run = "broadcast (\<lambda>cs. Some (if length cs = 2 then Inl Hangup else Inr (Inr ()))) id ''hi'' None
      (server_default\<lparr>users := [(1, 10), (2, 11)]\<rparr>)"
  have "map_option users ?run = Some [(1, 10)]" by code_simp
  then obtain self' where self': "?run = Some self'" "users self' = [(1, 10)]" by auto
  from broadcast_outcome [OF reads_all_id self'(1)] obtain gone where
    "console self' = console (server_default\<lparr>users := [(1, 10), (2, 11)]\<rparr>) @ broadcast_line ''hi'' None # map left_line gone"
    "distinct gone"
    unfolding Let_def by blast
  with self' show ?thesis
    by (intro exI [of _ self'] exI [of _ gone]) (simp add: server_default_def broadcast_line_def)
qed

text \<open>Whenever every call is answered, so is a broadcast.\<close>

lemma send_all_returns: "\<forall>cs. env cs \<noteq> None \<Longrightarrow> send_all env msg us dead cs \<noteq> None"
  by (induction us arbitrary: dead cs) (auto split: option.splits)

lemma broadcast_returns:
  "\<forall>cs. env cs \<noteq> None \<Longrightarrow> \<exists>self'. broadcast env order msg user_id self = Some self'"
  "\<forall>cs. env cs \<noteq> None \<Longrightarrow> \<exists>self'. remove_all env order dead self = Some self'"
  "\<forall>cs. env cs \<noteq> None \<Longrightarrow> \<exists>self'. remove_client env order client_id self = Some self'"
proof (induction env order msg user_id self and env order dead self and env order client_id self
    rule: broadcast_remove_all_remove_client.induct)
  case (1 env order msg user_id self)
  then show ?case
    using send_all_returns [of env "broadcast_line msg user_id" "order (users self)" "[]" "calls self"]
    by (auto simp: broadcast.simps split: option.splits)
next
  case (3 env order d dead self)
  then show ?case by (fastforce split: option.splits)
next
  case (4 env order client_id self)
  then show ?case by (auto simp: remove_client.simps split: option.splits)
qed simp

end
