(* ===== verification/Chat_Modules.thy ===== *)
theory Chat_Modules
  imports Linking Chat
begin

text \<open>
  The two actor modules of \<open>src/examples/chat.rs\<close> as input of the macro: which event loops they expand
  to, and that the queue numbers of \<open>Chat\<close>'s destinations are those the shells route to. Function
  bodies and the parts of items the macros do not read are given by \<open>body\<close>; doc comments are left out.
\<close>

section \<open>The event loop of a module\<close>

text \<open>The loop of a module whose items have the classes \<open>cs\<close>, as \<open>start\<close> links it.\<close>

definition loop_of :: "lib \<Rightarrow> item_class list \<Rightarrow> loop_program" where
  "loop_of L cs =
     (let perfs = filter_unwrap class_performance cs;
          last_name = (\<lambda>fs. map_option (\<lambda>f. sig_ident (fn_sig f)) (last_or None fs))
      in \<lparr>lp_queues = length perfs,
          lp_branches = zip [0..<length perfs] (map (method_name L \<circ> pd_role_name) perfs),
          lp_panic_hook = hook_of (last_name (filter_unwrap class_catch cs)),
          lp_exit_hook = hook_of (last_name (filter_unwrap class_stop cs))\<rparr>)"

lemma PerfDispatch_new_Some:
  "PerfDispatch_new L p actor data = Inr x \<Longrightarrow> pd_handlers p \<noteq> [] \<Longrightarrow> x \<noteq> None"
  by (auto simp: PerfDispatch_new_def Let_def res_simps)

lemma performance_emitted:
  assumes "ActorOutput_new L node = Inr out" and "p \<in> set (ad_performances node)" and "pd_handlers p \<noteq> []"
  shows "\<exists>pd\<in>set (ao_performances out). pi_role (ap_imp (pf_actor_impl pd)) = pd_role_name p"
proof -
  obtain outs where outs: "map_or_bail (\<lambda>perf. PerfDispatch_new L perf (ad_actor_name node)
      (DataItem_name (ad_data_item node))) (ad_performances node) = Inr outs"
    and perfs: "ao_performances out = List.map_filter (\<lambda>p. p) outs"
    using ActorOutput_new_Inr(6) [OF assms(1)] by blast
  obtain i where i: "i < length (ad_performances node)" "ad_performances node ! i = p"
    using assms(2) by (auto simp: in_set_conv_nth)
  then have "outs ! i \<in> set outs"
    and x: "PerfDispatch_new L p (ad_actor_name node) (DataItem_name (ad_data_item node)) = Inr (outs ! i)"
    using list_all2_nthD [OF outs [unfolded map_or_bail_Inr_iff] i(1)]
      list_all2_lengthD [OF outs [unfolded map_or_bail_Inr_iff]] by auto
  then obtain pd where "outs ! i = Some pd"
    using PerfDispatch_new_Some [OF x assms(3)] by auto
  with \<open>outs ! i \<in> set outs\<close> x PerfDispatch_new_names(1) [of L p _ _ pd] show ?thesis
    by (metis perfs set_map_filter_iff)
qed

lemma module_program:
  assumes "first_failure L (actor_checks L (decl_of m d cs)) = None" and "map_or_bail (classify L) (the (mod_content m)) = Inr cs" and "mod_content m \<noteq> None"
    and "filter_unwrap class_data cs = [d]" and "filter_unwrap class_performance cs \<noteq> []"
    and "distinct (map (queue_name L \<circ> pd_role_name) (filter_unwrap class_performance cs))"
  shows "\<exists>out. make_actor L m = Inr out \<and> fields_distinct out \<and>
    link_start (sp_fun (ao_spawning_function out)) = Some (loop_of L cs) \<and>
    (\<forall>i<length (filter_unwrap class_performance cs). pd_handlers (filter_unwrap class_performance cs ! i) \<noteq> [] \<longrightarrow>
      shell_route out (pd_role_name (filter_unwrap class_performance cs ! i)) = Some i)"
proof -
  obtain items where items: "mod_content m = Some items" using assms(3) by auto
  then have none: "actor_error L m = None"
    using assms(2,4,5) by (simp add: actor_error_def)
  have decl: "ActorDecl_new L m = Inr (decl_of m d cs)"
    using ActorDecl_new_ok [OF none] items assms(2,4) by auto
  have "map_or_bail (classify L) items = Inr cs" using assms(2) items by simp
  from decl_of_checks [OF this assms(5)] obtain out where make: "make_actor L m = Inr out"
    by (simp add: make_actor_def decl passing_total assms(1))
  then have node: "ActorOutput_new L (decl_of m d cs) = Inr out" by (simp add: make_actor_def decl)
  have perfs: "ad_performances (decl_of m d cs) = filter_unwrap class_performance cs" by (simp add: decl_of_def)
  have "link_start (sp_fun (ao_spawning_function out)) = Some (loop_of L cs)"
    unfolding ActorOutput_new_Inr(3) [OF node] perfs link_start_generated [OF assms(6)]
    by (simp add: loop_of_def Let_def decl_of_def assemble_def set_data_name_def panic_name_def exit_name_def)
  moreover have "fields_distinct out"
    using ActorStruct_new_Inr(1) [OF ActorOutput_new_Inr(2) [OF node]] assms(6)
    by (simp add: fields_distinct_def perfs comp_def)
  moreover have "shell_route out (pd_role_name (filter_unwrap class_performance cs ! i)) = Some i"
    if i: "i < length (filter_unwrap class_performance cs)" "pd_handlers (filter_unwrap class_performance cs ! i) \<noteq> []" for i
  proof -
    have "filter_unwrap class_performance cs ! i \<in> set (ad_performances (decl_of m d cs))"
      using i(1) by (simp add: perfs)
    from performance_emitted [OF node this i(2)] obtain pd where pd: "pd \<in> set (ao_performances out)"
      "pi_role (ap_imp (pf_actor_impl pd)) = pd_role_name (filter_unwrap class_performance cs ! i)" by blast
    from shell_route_nth [OF node _ pd, of i] assms(6) i(1) show ?thesis by (simp add: perfs)
  qed
  ultimately show ?thesis using make by blast
qed

section \<open>mod Client\<close>

definition path_type :: "ident \<Rightarrow> tokens \<Rightarrow> ty" where
  "path_type name args = Type_Path None (Path False [PathSegment name args])"

definition context_param :: "tokens \<Rightarrow> fn_arg" where
  "context_param args = param ''ctx'' (Type_Reference (Some ''_'') True (path_type ''Context'' args))"

definition performance_of :: "ident \<Rightarrow> ident \<Rightarrow> function_item list \<Rightarrow> item_impl" where
  "performance_of role data fs =
     \<lparr>imp_attrs = [Attribute AttrStyle_Outer (Meta_List (path_from_ident ''performance'') ''canonical'')],
      imp_trait = Some (path_from_ident role), imp_self_ty = ident_type data,
      imp_items = map ImplItem_Fn fs\<rparr>"

definition hook_fn :: "ident \<Rightarrow> fn_arg list \<Rightarrow> ty \<Rightarrow> tokens \<Rightarrow> item_fn" where
  "hook_fn name params ret body =
     \<lparr>fn_attrs = [], fn_sig = \<lparr>sig_asyncness = False, sig_ident = name, sig_type_params = [],
        sig_inputs = FnArg_Receiver (Receiver ''self'') # params, sig_output = ReturnType_Type ret, sig_rest = ''''\<rparr>,
      fn_block = body\<rparr>"

definition on_read_fn :: "(ident \<Rightarrow> tokens) \<Rightarrow> function_item" where
  "on_read_fn body = fun_item (method_sig False ''on_read'' ''&self''
     [context_param ''<Self>'', param ''val'' (path_type ''Result'' ''<String, LinesCodecError>'')] ReturnType_Default)
     (body ''on_read'')"

definition send_out_fn :: "(ident \<Rightarrow> tokens) \<Rightarrow> function_item" where
  "send_out_fn body = fun_item (method_sig True ''send_out'' ''&mut self''
     [context_param ''<Self>'', param ''msg'' (ident_type ''String'')]
     (ReturnType_Type (path_type ''Result'' ''<(), LinesCodecError>'')))
     (body ''send_out'')"

definition net_client_impl :: "(ident \<Rightarrow> tokens) \<Rightarrow> item_impl" where
  "net_client_impl body = performance_of ''NetClient'' ''ClientState'' [on_read_fn body, send_out_fn body]"

definition client_inherent_impl :: "(ident \<Rightarrow> tokens) \<Rightarrow> item_impl" where
  "client_inherent_impl body =
     \<lparr>imp_attrs = [], imp_trait = None, imp_self_ty = ident_type ''Client'',
      imp_items = [ImplItem_Other (body ''new'')]\<rparr>"

definition client_module :: "(ident \<Rightarrow> tokens) \<Rightarrow> item_mod" where
  "client_module body =
     ItemMod [] Visibility_Public False ''Client''
       (Some [Item_Struct (ItemStruct ''ClientState'' (body ''ClientState'')),
         Item_Fn (hook_fn ''stop'' [] (ident_type ''usize'') (body ''stop'')),
         Item_Fn (hook_fn ''catch'' [param ''_err'' (path_type ''Box'' ''<dyn Any + Send>'')] (ident_type ''usize'') (body ''catch'')),
         Item_Impl (client_inherent_impl body), Item_Impl (net_client_impl body)])"

definition client_program :: loop_program where
  "client_program = \<lparr>lp_queues = 1, lp_branches = [(0, ''perform_net_client'')],
     lp_panic_hook = Call_Hook ''catch'', lp_exit_hook = Call_Hook ''stop''\<rparr>"

section \<open>mod Server\<close>

definition send_msg_fn :: "(ident \<Rightarrow> tokens) \<Rightarrow> function_item" where
  "send_msg_fn body = fun_item (method_sig True ''send_msg'' ''&mut self''
     [param ''sender_id'' (ident_type ''usize''), param ''msg'' (ident_type ''String'')] ReturnType_Default)
     (body ''send_msg'')"

definition client_leaves_fn :: "(ident \<Rightarrow> tokens) \<Rightarrow> function_item" where
  "client_leaves_fn body = fun_item (method_sig True ''client_leaves'' ''&mut self''
     [param ''outcome'' (path_type ''ActorOutcome'' ''<Client>'')] ReturnType_Default)
     (body ''client_leaves'')"

definition listen_fn :: "(ident \<Rightarrow> tokens) \<Rightarrow> function_item" where
  "listen_fn body = fun_item (method_sig True ''listen'' ''&mut self''
     [context_param ''<ServerState>'', param ''tcp_client'' (ident_type ''TcpStream'')] ReturnType_Default)
     (body ''listen'')"

definition server_inherent_impl :: "(ident \<Rightarrow> tokens) \<Rightarrow> item_impl" where
  "server_inherent_impl body =
     \<lparr>imp_attrs = [], imp_trait = None, imp_self_ty = ident_type ''ServerState'',
      imp_items = [ImplItem_Other (body ''broadcast''), ImplItem_Other (body ''remove_client'')]\<rparr>"

definition server_module :: "(ident \<Rightarrow> tokens) \<Rightarrow> item_mod" where
  "server_module body =
     ItemMod [] Visibility_Public False ''Server''
       (Some [Item_Struct (ItemStruct ''ServerState'' (body ''ServerState'')),
         Item_Impl (server_inherent_impl body),
         Item_Impl (performance_of ''MsgRelay'' ''ServerState'' [send_msg_fn body, client_leaves_fn body]),
         Item_Impl (performance_of ''NetListener'' ''ServerState'' [listen_fn body])])"

definition server_program :: loop_program where
  "server_program = \<lparr>lp_queues = 2, lp_branches = [(0, ''perform_msg_relay''), (1, ''perform_net_listener'')],
     lp_panic_hook = No_Hook, lp_exit_hook = No_Hook\<rparr>"

section \<open>What they expand to\<close>

lemmas module_defs = path_type_def context_param_def performance_of_def hook_fn_def on_read_fn_def send_out_fn_def
  net_client_impl_def client_inherent_impl_def client_module_def send_msg_fn_def client_leaves_fn_def listen_fn_def
  server_inherent_impl_def server_module_def fun_item_def method_sig_def param_def attr_of_def ident_type_def

text \<open>A canonical performance whose functions all have a receiver is read without an error.\<close>

lemma canonical_performance:
  assumes "\<forall>f\<in>set fs. check_handler f = Inr ()"
  shows "read_performance sample_lib (performance_of role data fs) =
    Inr (Some (\<lparr>pd_role_name = RoleName (path_from_ident role), pd_handlers = fs\<rparr>,
      Some (RoleDecl_new (path_from_ident role) [] Visibility_Public (map fun_sig fs))))"
proof -
  have fs: "filter_unwrap impl_item_fn (map ImplItem_Fn fs) = fs" by (induction fs) auto
  then have "PerformanceDecl_new (path_from_ident role) (performance_of role data fs) =
      Inr \<lparr>pd_role_name = RoleName (path_from_ident role), pd_handlers = fs\<rparr>"
    using assms by (simp add: PerformanceDecl_new_Inr performance_of_def path_from_ident_def)
  then show ?thesis
    using fs by (simp add: read_performance_def performance_of_def attr_of_def is_performance_tag_def
        is_not_internal_attribute_def last_segment_def attr_path_def path_from_ident_def sample_lib_def Let_def)
qed

lemma module_handlers_checked:
  "check_handler (on_read_fn body) = Inr ()" "check_handler (send_out_fn body) = Inr ()"
  "check_handler (send_msg_fn body) = Inr ()" "check_handler (client_leaves_fn body) = Inr ()"
  "check_handler (listen_fn body) = Inr ()"
  by (simp_all add: check_handler_Inr module_defs)

lemma names_of_chat_roles:
  "method_name sample_lib (RoleName (path_from_ident ''NetClient'')) = ''perform_net_client''"
  "method_name sample_lib (RoleName (path_from_ident ''MsgRelay'')) = ''perform_msg_relay''"
  "method_name sample_lib (RoleName (path_from_ident ''NetListener'')) = ''perform_net_listener''"
  "queue_name sample_lib (RoleName (path_from_ident ''MsgRelay'')) \<noteq>
     queue_name sample_lib (RoleName (path_from_ident ''NetListener''))"
  by code_simp+

text \<open>The classes of the items of the two modules.\<close>

definition chat_performance :: "ident \<Rightarrow> function_item list \<Rightarrow> performance_decl" where
  "chat_performance role fs = \<lparr>pd_role_name = RoleName (path_from_ident role), pd_handlers = fs\<rparr>"

definition chat_role :: "ident \<Rightarrow> function_item list \<Rightarrow> role_decl" where
  "chat_role role fs = RoleDecl_new (path_from_ident role) [] Visibility_Public (map fun_sig fs)"

definition client_classes :: "(ident \<Rightarrow> tokens) \<Rightarrow> item_class list" where
  "client_classes body =
     [Class_Data (Struct (ItemStruct ''ClientState'' (body ''ClientState''))),
      Class_Stop (hook_fn ''stop'' [] (ident_type ''usize'') (body ''stop'')),
      Class_Catch (hook_fn ''catch'' [param ''_err'' (path_type ''Box'' ''<dyn Any + Send>'')] (ident_type ''usize'') (body ''catch'')),
      Class_Misc (Item_Impl (client_inherent_impl body)),
      Class_Performance (chat_performance ''NetClient'' [on_read_fn body, send_out_fn body])
        (Some (chat_role ''NetClient'' [on_read_fn body, send_out_fn body]))]"

definition server_classes :: "(ident \<Rightarrow> tokens) \<Rightarrow> item_class list" where
  "server_classes body =
     [Class_Data (Struct (ItemStruct ''ServerState'' (body ''ServerState''))),
      Class_Misc (Item_Impl (server_inherent_impl body)),
      Class_Performance (chat_performance ''MsgRelay'' [send_msg_fn body, client_leaves_fn body])
        (Some (chat_role ''MsgRelay'' [send_msg_fn body, client_leaves_fn body])),
      Class_Performance (chat_performance ''NetListener'' [listen_fn body])
        (Some (chat_role ''NetListener'' [listen_fn body]))]"

lemma module_classes:
  "map_or_bail (classify sample_lib) (the (mod_content (client_module body))) = Inr (client_classes body)"
  "map_or_bail (classify sample_lib) (the (mod_content (server_module body))) = Inr (server_classes body)"
proof -
  have perf: "classify sample_lib (Item_Impl (performance_of role data fs)) =
      Inr (Class_Performance (chat_performance role fs) (Some (chat_role role fs)))"
    if "\<forall>f\<in>set fs. check_handler f = Inr ()" for role data fs
    using canonical_performance [OF that] by (simp add: classify_def chat_performance_def chat_role_def)
  have inherent: "classify sample_lib (Item_Impl imp) = Inr (Class_Misc (Item_Impl imp))"
    if "imp_attrs imp = []" for imp
    using that by (simp add: classify_def read_performance_def)
  have plain: "classify sample_lib (Item_Struct s) = Inr (Class_Data (Struct s))"
    "classify sample_lib (Item_Fn (hook_fn ''stop'' ps r b)) = Inr (Class_Stop (hook_fn ''stop'' ps r b))"
    "classify sample_lib (Item_Fn (hook_fn ''catch'' ps r b)) = Inr (Class_Catch (hook_fn ''catch'' ps r b))"
    for s ps r b
    by (simp_all add: classify_def hook_fn_def)
  have attrs: "imp_attrs (client_inherent_impl body) = []" "imp_attrs (server_inherent_impl body) = []"
    by (simp_all add: client_inherent_impl_def server_inherent_impl_def)
  show "map_or_bail (classify sample_lib) (the (mod_content (client_module body))) = Inr (client_classes body)"
    by (simp add: client_module_def net_client_impl_def client_classes_def perf inherent plain attrs
        module_handlers_checked)
  show "map_or_bail (classify sample_lib) (the (mod_content (server_module body))) = Inr (server_classes body)"
    by (simp add: server_module_def server_classes_def perf inherent plain attrs module_handlers_checked)
qed

lemma chat_performances:
  "filter_unwrap class_performance (client_classes body) =
     [chat_performance ''NetClient'' [on_read_fn body, send_out_fn body]]"
  "filter_unwrap class_performance (server_classes body) =
     [chat_performance ''MsgRelay'' [send_msg_fn body, client_leaves_fn body],
      chat_performance ''NetListener'' [listen_fn body]]"
  by (simp_all add: client_classes_def server_classes_def)

lemma chat_performance_fields [simp]:
  "pd_role_name (chat_performance role fs) = RoleName (path_from_ident role)"
  "pd_handlers (chat_performance role fs) = fs"
  by (simp_all add: chat_performance_def)

lemma chat_loops:
  "loop_of sample_lib (client_classes body) = client_program"
  "loop_of sample_lib (server_classes body) = server_program"
  by (simp_all add: loop_of_def Let_def client_classes_def server_classes_def names_of_chat_roles
      client_program_def server_program_def hook_fn_def hook_of_def last_or_def upt_rec)

lemma chat_idents:
  "sig_ident (fun_sig (on_read_fn body)) = ''on_read''" "sig_ident (fun_sig (send_out_fn body)) = ''send_out''"
  "sig_ident (fun_sig (send_msg_fn body)) = ''send_msg''" "sig_ident (fun_sig (client_leaves_fn body)) = ''client_leaves''"
  "sig_ident (fun_sig (listen_fn body)) = ''listen''"
  by (simp_all add: module_defs)

lemma chat_names_valid:
  "perf_names_valid sample_lib (chat_performance ''NetClient'' [on_read_fn body, send_out_fn body])"
  "perf_names_valid sample_lib (chat_performance ''MsgRelay'' [send_msg_fn body, client_leaves_fn body])"
  "perf_names_valid sample_lib (chat_performance ''NetListener'' [listen_fn body])"
  "role_names_valid sample_lib (chat_role ''NetClient'' [on_read_fn body, send_out_fn body])"
  "role_names_valid sample_lib (chat_role ''MsgRelay'' [send_msg_fn body, client_leaves_fn body])"
  "role_names_valid sample_lib (chat_role ''NetListener'' [listen_fn body])"
  by (simp_all add: perf_names_valid_def role_names_valid_def chat_role_def RoleDecl_new_def enum_variant_name_def
      make_method_name_def chat_idents) code_simp+

lemma chat_checks_pass:
  "first_failure sample_lib (actor_checks sample_lib (decl_of m d (client_classes body))) = None"
  "first_failure sample_lib (actor_checks sample_lib (decl_of m d (server_classes body))) = None"
  by (intro actor_checks_pass; simp add: decl_of_def client_classes_def server_classes_def chat_names_valid)+

text \<open>
  The two modules expand; their shells route each role to its own queue, and their loops hand
  what arrives there to that role's dispatch function. Both hooks of a client are called, a
  server has none.
\<close>

theorem chat_modules_expand:
  "\<exists>client server. make_actor sample_lib (client_module body) = Inr client \<and>
     make_actor sample_lib (server_module body) = Inr server \<and>
     link_start (sp_fun (ao_spawning_function client)) = Some client_program \<and>
     link_start (sp_fun (ao_spawning_function server)) = Some server_program \<and>
     shell_route client (RoleName (path_from_ident ''NetClient'')) = Some (dest_role (net_client c)) \<and>
     shell_route server (RoleName (path_from_ident ''MsgRelay'')) = Some (dest_role (msg_relay s)) \<and>
     shell_route server (RoleName (path_from_ident ''NetListener'')) = Some (dest_role (net_listener s))"
proof -
  have "\<exists>client. make_actor sample_lib (client_module body) = Inr client \<and> fields_distinct client \<and>
    link_start (sp_fun (ao_spawning_function client)) = Some (loop_of sample_lib (client_classes body)) \<and>
    (\<forall>i<length (filter_unwrap class_performance (client_classes body)).
      pd_handlers (filter_unwrap class_performance (client_classes body) ! i) \<noteq> [] \<longrightarrow>
      shell_route client (pd_role_name (filter_unwrap class_performance (client_classes body) ! i)) = Some i)"
    by (rule module_program [OF chat_checks_pass(1) module_classes(1)])
      (simp_all add: chat_performances, simp_all add: client_module_def client_classes_def)
  then obtain client where "make_actor sample_lib (client_module body) = Inr client"
    "link_start (sp_fun (ao_spawning_function client)) = Some client_program"
    "shell_route client (RoleName (path_from_ident ''NetClient'')) = Some 0"
    by (auto simp: chat_loops chat_performances)
  moreover have "\<exists>server. make_actor sample_lib (server_module body) = Inr server \<and> fields_distinct server \<and>
    link_start (sp_fun (ao_spawning_function server)) = Some (loop_of sample_lib (server_classes body)) \<and>
    (\<forall>i<length (filter_unwrap class_performance (server_classes body)).
      pd_handlers (filter_unwrap class_performance (server_classes body) ! i) \<noteq> [] \<longrightarrow>
      shell_route server (pd_role_name (filter_unwrap class_performance (server_classes body) ! i)) = Some i)"
    by (rule module_program [OF chat_checks_pass(2) module_classes(2)])
      (simp_all add: chat_performances names_of_chat_roles, simp_all add: server_module_def server_classes_def)
  then obtain server where "make_actor sample_lib (server_module body) = Inr server"
    "link_start (sp_fun (ao_spawning_function server)) = Some server_program"
    "shell_route server (RoleName (path_from_ident ''MsgRelay'')) = Some 0"
    "shell_route server (RoleName (path_from_ident ''NetListener'')) = Some 1"
    by (auto simp: chat_loops chat_performances less_Suc_eq numeral_2_eq_2)
  ultimately show ?thesis
    by (auto simp: net_client_def msg_relay_def net_listener_def)
qed

end
