(* ===== verification/Chat_Room.thy ===== *)
theory Chat_Room
  imports Chat
begin

section \<open>Who is in the room\<close>

text \<open>What a line on the console says, and the lines the messages in a run say.\<close>

datatype announcement = Entered usize | Left usize | Said usize string

fun announce :: "announcement \<Rightarrow> string" where
  "announce (Entered i) = entered_line i"
| "announce (Left i) = left_line i"
| "announce (Said i msg) = broadcast_line msg (Some i)"

fun entered :: "announcement \<Rightarrow> usize option" where
  "entered (Entered i) = Some i"
| "entered _ = None"

fun departed :: "announcement \<Rightarrow> usize option" where
  "departed (Left i) = Some i"
| "departed _ = None"

fun said :: "announcement \<Rightarrow> (usize \<times> string) option" where
  "said (Said i msg) = Some (i, msg)"
| "said _ = None"

fun payload_line :: "relay_payload \<Rightarrow> (usize \<times> string) option" where
  "payload_line (Send_Msg i msg) = Some (i, msg)"
| "payload_line (Client_Leaves result) = None"

text \<open>The client whose outcome a message reports.\<close>

fun payload_leaver :: "relay_payload \<Rightarrow> usize option" where
  "payload_leaver (Send_Msg i msg) = None"
| "payload_leaver (Client_Leaves result) = Some (case result of Exit i \<Rightarrow> i | Panic i \<Rightarrow> i)"

fun relay_of :: "'k server_event \<Rightarrow> relay_payload option" where
  "relay_of (Relay p) = Some p"
| "relay_of (Listen n ctx shell tcp) = None"

text \<open>The events are those of the relay and the arrivals.\<close>

abbreviation arrivals :: "'k server_event list \<Rightarrow> nat" where
  "arrivals es \<equiv> length (filter (\<lambda>e. relay_of e = None) es)"

text \<open>An abstract room: nobody enters twice at a time, and only who is in can leave.\<close>

fun members :: "usize set \<Rightarrow> announcement list \<Rightarrow> usize set option" where
  "members room [] = Some room"
| "members room (Entered i # log) = (if i \<in> room then None else members (insert i room) log)"
| "members room (Left i # log) = (if i \<in> room then members (room - {i}) log else None)"
| "members room (Said i msg # log) = members room log"

lemma members_append: "members room (xs @ ys) = Option.bind (members room xs) (\<lambda>r. members r ys)"
  by (induction room xs rule: members.induct) auto

lemma members_leave: "distinct gone \<Longrightarrow> set gone \<subseteq> room \<Longrightarrow> members room (map Left gone) = Some (room - set gone)"
proof (induction gone arbitrary: room)
  case (Cons i gone)
  then have "set gone \<subseteq> room - {i}" by auto
  with Cons have "members (room - {i}) (map Left gone) = Some (room - {i} - set gone)" by simp
  moreover have "room - {i} - set gone = room - set (i # gone)" by auto
  ultimately show ?case using Cons.prems by simp
qed simp

text \<open>
  The log fits the state: it is what the console shows, its members are the map's keys, and
  everybody who entered is in or has left once. The clients are numbered as they enter.
\<close>

definition room_ok :: "announcement list \<Rightarrow> server_state \<Rightarrow> bool" where
  "room_ok log self \<longleftrightarrow>
     console self = map announce log \<and> members {} log = Some (fst ` set (users self)) \<and>
     distinct (map fst (users self)) \<and> distinct (filter_unwrap departed log) \<and>
     set (filter_unwrap departed log) \<union> fst ` set (users self) = set (filter_unwrap entered log) \<and>
     set (filter_unwrap departed log) \<inter> fst ` set (users self) = {}"

definition numbered :: "nat \<Rightarrow> announcement list \<Rightarrow> server_state \<Rightarrow> bool" where
  "numbered k log self \<longleftrightarrow>
     id_counter self = of_nat (Suc k) \<and> filter_unwrap entered log = map of_nat [1..<Suc k]"

lemma server_start_ok: "room_ok [] server_default" "numbered 0 [] server_default"
  by (simp_all add: room_ok_def numbered_def server_default_def)

lemma filter_unwrap_left [simp]:
  "filter_unwrap departed (map Left gone) = gone" "filter_unwrap entered (map Left gone) = []"
  "filter_unwrap said (map Left gone) = []" "map (announce \<circ> Left) gone = map left_line gone"
  by (induction gone) auto

lemma room_ok_leave:
  assumes "room_ok log self" and "removed env D gone new self self'"
  shows "room_ok (log @ map Left gone) self'"
proof -
  note facts = removedD [OF assms(2)] and ok = assms(1) [unfolded room_ok_def]
  have keys: "fst ` set (users self') = fst ` set (users self) - set gone" unfolding facts(3) by auto
  show ?thesis unfolding room_ok_def
  proof (intro conjI)
    show "members {} (log @ map Left gone) = Some (fst ` set (users self'))"
      using ok members_leave [OF facts(5,6)] by (simp add: members_append keys)
    show "distinct (map fst (users self'))" using ok by (simp add: facts(3) distinct_map_filter)
    show "distinct (filter_unwrap departed (log @ map Left gone))"
      using ok facts(5,6) by auto
    show "set (filter_unwrap departed (log @ map Left gone)) \<union> fst ` set (users self') =
        set (filter_unwrap entered (log @ map Left gone))"
      using ok facts(6) unfolding keys by auto
    show "set (filter_unwrap departed (log @ map Left gone)) \<inter> fst ` set (users self') = {}"
      using ok unfolding keys by auto
  qed (use ok facts(2) in simp)
qed

lemma numbered_fresh:
  assumes "numbered k log self" and "Suc k < 2 ^ 64"
  shows "id_counter self \<notin> set (filter_unwrap entered log)"
proof
  assume "id_counter self \<in> set (filter_unwrap entered log)"
  then obtain j where "j < Suc k" "(of_nat (Suc k) :: usize) = of_nat j"
    using assms(1) unfolding numbered_def by (auto simp del: upt_Suc of_nat_Suc)
  then have "unat (of_nat (Suc k) :: usize) = unat (of_nat j :: usize)" by simp
  with assms(2) \<open>j < Suc k\<close> show False by (simp add: unsigned_of_nat take_bit_nat_eq_self del: of_nat_Suc)
qed

text \<open>Each handler extends the log by its own announcement and the departures it notices.\<close>

definition log_step ::
  "env \<Rightarrow> announcement list \<Rightarrow> nat \<Rightarrow> relay_payload list \<Rightarrow> server_state \<Rightarrow> server_state \<Rightarrow> bool" where
  "log_step env log k ps self self' \<longleftrightarrow>
     (\<exists>ext new. room_ok (log @ ext) self' \<and> numbered k (log @ ext) self' \<and>
       filter_unwrap said ext = filter_unwrap payload_line ps \<and> calls self' = calls self @ new \<and>
       set (filter_unwrap departed ext) \<subseteq> set (filter_unwrap payload_leaver ps) \<union> set (failed env (calls self) new))"

lemma log_stepI:
  "room_ok (log @ ext) self' \<Longrightarrow> numbered k (log @ ext) self' \<Longrightarrow>
    filter_unwrap said ext = filter_unwrap payload_line ps \<Longrightarrow> calls self' = calls self @ new \<Longrightarrow>
    set (filter_unwrap departed ext) \<subseteq> set (filter_unwrap payload_leaver ps) \<union> set (failed env (calls self) new) \<Longrightarrow>
    log_step env log k ps self self'"
  unfolding log_step_def by blast

lemma relay_log:
  assumes "reads_all order" and "relay_dispatch env order p self = Some self'" and "room_ok log self"
    and "numbered k log self"
  shows "log_step env log k [p] self self'"
proof (cases p)
  case (Send_Msg i msg)
  with assms(2) have "broadcast env order msg (Some i) self = Some self'" by (simp add: send_msg_def)
  from broadcast_removed(1) [OF assms(1) this] obtain gone new where
    r: "removed env {} gone new (self\<lparr>console := console self @ [announce (Said i msg)]\<rparr>) self'" by auto
  have "room_ok (log @ [Said i msg]) (self\<lparr>console := console self @ [announce (Said i msg)]\<rparr>)"
    using assms(3) by (simp add: room_ok_def members_append)
  from room_ok_leave [OF this r] show ?thesis
    using assms(4) removedD(1,4,7) [OF r] Send_Msg
    by (intro log_stepI [where ext = "[Said i msg] @ map Left gone" and new = new]) (simp_all add: numbered_def)
next
  case (Client_Leaves result)
  then obtain i where i: "remove_client env order i self = Some self'" "payload_leaver p = Some i"
    using assms(2) by (auto simp: client_leaves_def)
  from broadcast_removed(3) [OF assms(1) i(1)] obtain gone new where
    r: "removed env {i} gone new self self'" by blast
  from room_ok_leave [OF assms(3) r] show ?thesis
    using assms(4) removedD(1,4,7) [OF r] i Client_Leaves
    by (intro log_stepI [where ext = "map Left gone" and new = new]) (auto simp: numbered_def)
qed

lemma listen_log:
  assumes "reads_all order" and "snd (listen env order split n ctx shell tcp self) = Some self'"
    and "room_ok log self" and "numbered k log self" and "Suc k < 2 ^ 64"
  shows "log_step env log (Suc k) [] self self'"
proof -
  let ?i = "id_counter self"
  let ?entry = "self\<lparr>id_counter := ?i + 1, users := (?i, shell) # filter (\<lambda>u. fst u \<noteq> ?i) (users self)\<rparr>"
  have "broadcast env order (entered_line ?i) None ?entry = Some self'"
    using assms(2) by (simp add: listen_def Client_new_def Let_def ActorHandles_new_def split: prod.splits)
  from broadcast_removed(1) [OF assms(1) this] obtain gone new where
    r: "removed env {} gone new (?entry\<lparr>console := console ?entry @ [announce (Entered ?i)]\<rparr>) self'"
    by (auto simp: broadcast_line_def)
  have "?i \<notin> set (filter_unwrap entered log)" using numbered_fresh [OF assms(4,5)] .
  then have fresh: "?i \<notin> fst ` set (users self)" "?i \<notin> set (filter_unwrap departed log)"
    using assms(3) unfolding room_ok_def by auto
  then have "filter (\<lambda>u. fst u \<noteq> ?i) (users self) = users self" by (force simp: filter_id_conv)
  with fresh assms(3) have "room_ok (log @ [Entered ?i]) (?entry\<lparr>console := console ?entry @ [announce (Entered ?i)]\<rparr>)"
    by (simp add: room_ok_def members_append)
  from room_ok_leave [OF this r] show ?thesis
    using assms(4) removedD(1,4,7) [OF r]
    by (intro log_stepI [where ext = "[Entered ?i] @ map Left gone" and new = new]) (simp_all add: numbered_def)
qed

lemma log_step_trans:
  assumes "log_step env log k ps s s1" and "\<And>log'. room_ok log' s1 \<Longrightarrow> numbered k log' s1 \<Longrightarrow> log_step env log' j qs s1 s2"
  shows "log_step env log j (ps @ qs) s s2"
proof -
  obtain ext new where one: "room_ok (log @ ext) s1" "numbered k (log @ ext) s1"
    "filter_unwrap said ext = filter_unwrap payload_line ps" "calls s1 = calls s @ new"
    "set (filter_unwrap departed ext) \<subseteq> set (filter_unwrap payload_leaver ps) \<union> set (failed env (calls s) new)"
    using assms(1) unfolding log_step_def by blast
  obtain ext' new' where two: "room_ok ((log @ ext) @ ext') s2" "numbered j ((log @ ext) @ ext') s2"
    "filter_unwrap said ext' = filter_unwrap payload_line qs" "calls s2 = calls s1 @ new'"
    "set (filter_unwrap departed ext') \<subseteq> set (filter_unwrap payload_leaver qs) \<union> set (failed env (calls s1) new')"
    using assms(2) [OF one(1,2)] unfolding log_step_def by blast
  from one two show ?thesis
    by (intro log_stepI [where ext = "ext @ ext'" and new = "new @ new'"]) (auto simp: failed_append)
qed

lemma server_run_log:
  assumes "reads_all order" and "server_run env order split es self = Some self'"
    and "room_ok log self" and "numbered k log self" and "k + length es < 2 ^ 64 - 1"
  shows "log_step env log (k + arrivals es) (filter_unwrap relay_of es) self self'"
  using assms(2-)
proof (induction es arbitrary: self log k)
  case Nil
  then show ?case by (intro log_stepI [where ext = "[]" and new = "[]"]) simp_all
next
  case (Cons e es)
  from Cons.prems(1) obtain self1 where one: "server_step env order split e self = Some self1"
    and rest: "server_run env order split es self1 = Some self'"
    by (auto split: option.splits)
  have first: "log_step env log (k + arrivals [e]) (filter_unwrap relay_of [e]) self self1"
  proof (cases e)
    case (Relay p)
    with relay_log [OF assms(1) _ Cons.prems(2,3), of env p self1] one show ?thesis by simp
  next
    case (Listen n ctx shell tcp)
    with listen_log [OF assms(1) _ Cons.prems(2,3), of env split n ctx shell tcp self1] one Cons.prems(4)
    show ?thesis by simp
  qed
  have "log_step env log (k + arrivals [e] + arrivals es) (filter_unwrap relay_of [e] @ filter_unwrap relay_of es) self self'"
    using log_step_trans [OF first Cons.IH [OF rest]] Cons.prems(4) by force
  then show ?case by (cases e) simp_all
qed

text \<open>
  For every sequence of messages a chat server handles, in any interleaving of lines,
  arrivals and departures, the console tells the story of a room: clients enter with the numbers 1, 2, 3 and so
  on, each leaves at most once and only while it is in, every line is said once and in order,
  and the clients that have entered and not left are the keys of the map.
\<close>

theorem chat_room:
  assumes "reads_all order" and "server_run env order split es server_default = Some self"
    and "length es < 2 ^ 64 - 1"
  shows "\<exists>log. console self = map announce log \<and> members {} log = Some (fst ` set (users self)) \<and>
    id_counter self = of_nat (Suc (arrivals es)) \<and> filter_unwrap entered log = map of_nat [1..<Suc (arrivals es)] \<and>
    distinct (filter_unwrap departed log) \<and>
    filter_unwrap said log = filter_unwrap payload_line (filter_unwrap relay_of es) \<and> distinct (map fst (users self)) \<and>
    set (filter_unwrap departed log) \<subseteq>
      set (filter_unwrap payload_leaver (filter_unwrap relay_of es)) \<union> set (failed env [] (calls self))"
proof -
  have "log_step env [] (arrivals es) (filter_unwrap relay_of es) server_default self"
    using server_run_log [OF assms(1,2) server_start_ok] assms(3) by simp
  then show ?thesis
    unfolding log_step_def room_ok_def numbered_def by (auto simp: server_default_def)
qed

theorem chat_room_witness:
  "\<exists>self log. server_run (\<lambda>cs. Some (if length cs = 4 then Inl Hangup else Inr (Inr ()))) id (\<lambda>k. (k, k))
      [Listen 2 (Context_new 0) 10 (), Listen 2 (Context_new 0) 11 (), Relay (Send_Msg 1 ''hi'')] server_default = Some self \<and>
    users self = [(1, 10)] \<and> console self = map announce log \<and> members {} log = Some {1} \<and>
    filter_unwrap said log = [(1, ''hi'')]"
proof -
  let ?run = "server_run (\<lambda>cs. Some (if length cs = 4 then Inl Hangup else Inr (Inr ()))) id (\<lambda>k. (k, k))
      [Listen 2 (Context_new 0) 10 (), Listen 2 (Context_new 0) 11 (), Relay (Send_Msg 1 ''hi'')] server_default"
  have "map_option users ?run = Some [(1, 10)]" by code_simp
  then obtain self where self: "?run = Some self" "users self = [(1, 10)]" by auto
  from chat_room [OF reads_all_id self(1)] self show ?thesis by auto
qed

section \<open>From a socket to all sockets\<close>

text \<open>
  C23. A line read from one client's socket reaches every client: \<open>on_read\<close> spawns a task that, when the
  relay's queue takes the message, has sent the trimmed line with the reader's
  number; and handling that message ends, provided every client answers, after the line has been
  sent to every client in the map, under the number as a prefix.
\<close>

theorem line_reaches_everyone:
  assumes "reads_all order" and "\<forall>cs. env cs \<noteq> None"
  shows "\<exists>fut task call. on_read client ctx (Inr line) = Inr (ctx, Some (fut, task)) \<and>
    send_when_ready_step into_payload_reflexive (fut, Pending) task = (Await_Enqueue call, []) \<and>
    send_when_ready_step into_payload_reflexive (fut, Ready (Inr ())) (Await_Enqueue call) = (Send_Done, [call]) \<and>
    fst call = msg_relay (cl_relay client) \<and> return_path (snd call) = Discard \<and>
    (\<exists>self' rest. relay_dispatch env order (payload (snd call)) self = Some self' \<and>
      calls self' = calls self @
        map (\<lambda>u. (u, show_padded (cl_id client) @ '': '' @ trim line)) (order (users self)) @ rest)"
proof -
  obtain self' where self': "broadcast env order (trim line) (Some (cl_id client)) self = Some self'"
    using broadcast_returns(1) [OF assms(2)] by blast
  obtain gone rest where "removed env {} gone
      (map (\<lambda>u. (u, broadcast_line (trim line) (Some (cl_id client)))) (order (users self)) @ rest)
      (self\<lparr>console := console self @ [broadcast_line (trim line) (Some (cl_id client))]\<rparr>) self'"
    using broadcast_removed(1) [OF assms(1) self'] by blast
  from removedD(1) [OF this] self' show ?thesis
    by (simp add: Envelope_drop_new send_msg_def broadcast_line_def into_payload_reflexive_def)
qed

theorem line_reaches_everyone_witness:
  "\<exists>fut task call self'. on_read \<lparr>cl_id = 7, cl_relay = 0, net_out_stream = ()\<rparr> (Context_new 12) (Inr '' hi '') =
      Inr (Context_new 12, Some (fut, task)) \<and>
    send_when_ready_step into_payload_reflexive (fut, Ready (Inr ())) (Await_Enqueue call) = (Send_Done, [call]) \<and>
    relay_dispatch (\<lambda>cs. Some (Inr (Inr ()))) id (payload (snd call)) (server_default\<lparr>users := [(1, 10), (7, 12)]\<rparr>) =
      Some self' \<and> take 2 (calls self') = [((1, 10), ''007: hi''), ((7, 12), ''007: hi'')]"
proof -
  have line: "show_padded 7 @ '': '' @ trim '' hi '' = ''007: hi''" by code_simp
  show ?thesis
    using line_reaches_everyone [OF reads_all_id, where env = "\<lambda>cs. Some (Inr (Inr ()))"
        and client = "\<lparr>cl_id = 7, cl_relay = 0, net_out_stream = ()\<rparr>" and ctx = "Context_new 12" and line = "'' hi ''"
        and self = "server_default\<lparr>users := [(1, 10), (7, 12)]\<rparr>"] line
    by (fastforce simp: server_default_def)
qed

end
