(* ===== verification/Chat_Client.thy ===== *)
theory Chat_Client
  imports Chat_Modules Chat_Room Loop_Properties
begin

text \<open>
  The client of \<open>src/examples/chat.rs\<close> as an actor: the runs of its generated event loop whose messages
  are those the program sends, and whose handlers and hooks are those of the module. What
  becomes of its lines and, when it stops or panics, of its number.
\<close>

section \<open>What passes through a client\<close>

text \<open>Payloads, return values, what the hooks return, and the value of a panic.\<close>

datatype client_value =
    On_Read "codec_error + string"
  | Send_Out string
  | On_Read_Returns
  | Send_Out_Returns "codec_error + unit"
  | Client_Number usize
  | Client_Panic string

text \<open>
  Lines are fed from the socket, \<open>send_out\<close> is called by \<open>broadcast\<close>, which awaits the value. Nobody
  else has a handle of a client.
\<close>

definition client_message :: "client_value return_envelope \<Rightarrow> bool" where
  "client_message m \<longleftrightarrow>
     (case payload m of
        On_Read line \<Rightarrow> return_path m = Discard
      | Send_Out msg \<Rightarrow> (case return_path m of Immediate channel \<Rightarrow> True | _ \<Rightarrow> False)
      | _ \<Rightarrow> False)"

type_synonym spawned_send = "relay_payload poll \<times> relay_payload send_task"

text \<open>
  The dispatch function of \<open>NetClient\<close>: the state and the context a handler leaves, the value it
  returns and the task it spawns, or its panic.
\<close>

fun client_dispatch ::
  "('o \<Rightarrow> string \<Rightarrow> 'o \<times> (codec_error + unit)) \<Rightarrow> client_value \<Rightarrow> 'o client_state \<Rightarrow> actor_context \<Rightarrow>
     string + ('o client_state \<times> actor_context \<times> client_value \<times> spawned_send option)" where
  "client_dispatch put (On_Read val) self ctx =
     (case on_read self ctx val of
        Inl e \<Rightarrow> Inl e
      | Inr (ctx', task) \<Rightarrow> Inr (self, ctx', On_Read_Returns, task))"
| "client_dispatch put (Send_Out msg) self ctx =
     (case send_out put self ctx msg of
        (self', ctx', result) \<Rightarrow> Inr (self', ctx', Send_Out_Returns result, None))"
| "client_dispatch put other self ctx = Inl panic_unimplemented"

text \<open>
  The events a client's program allows where it is. A handler stops the context if its code
  does so, and returns with the context its code leaves; the hooks do not panic.
\<close>

definition client_allows ::
  "('o \<Rightarrow> string \<Rightarrow> 'o \<times> (codec_error + unit)) \<Rightarrow> ('o client_state, 'q, client_value) task \<Rightarrow>
     ('o client_state, client_value) event \<Rightarrow> bool" where
  "client_allows put t e =
     (let result = (case phase t of
            Handling f m \<Rightarrow> Some (client_dispatch put (payload m) (state t) (actor_ctx t))
          | _ \<Rightarrow> None)
      in case e of
           Send k m \<Rightarrow> client_message m
         | Send_Failed k m \<Rightarrow> client_message m
         | Handler_Stop \<Rightarrow> (\<exists>s ctx v task. result = Some (Inr (s, ctx, v, task)) \<and> ctx \<noteq> actor_ctx t)
         | Handler_Get_Shell \<Rightarrow> False
         | Handler_Return s v \<Rightarrow> (\<exists>task. result = Some (Inr (s, actor_ctx t, v, task)))
         | Handler_Panic s x \<Rightarrow> (\<exists>e. result = Some (Inl e) \<and> s = state t \<and> x = Client_Panic e)
         | Exit_Hook s out \<Rightarrow> out = Hook_Value (Client_Number (client_stop s))
         | Panic_Hook s out \<Rightarrow> (\<exists>x. phase t = Unwound x \<and> out = Hook_Value (Client_Number (client_catch s x)))
         | Hook_Panic msg \<Rightarrow> False
         | _ \<Rightarrow> True)"

text \<open>The task a handler has spawned when it returns.\<close>

definition client_spawns ::
  "('o \<Rightarrow> string \<Rightarrow> 'o \<times> (codec_error + unit)) \<Rightarrow> ('o client_state, 'q, client_value) task \<Rightarrow>
     ('o client_state, client_value) event \<Rightarrow> spawned_send list" where
  "client_spawns put t e =
     (case (e, phase t) of
        (Handler_Return s v, Handling f m) \<Rightarrow>
          (case client_dispatch put (payload m) (state t) (actor_ctx t) of
             Inr (s', ctx, v', Some task) \<Rightarrow> [task]
           | _ \<Rightarrow> [])
      | _ \<Rightarrow> [])"

inductive client_run ::
  "('o \<Rightarrow> string \<Rightarrow> 'o \<times> (codec_error + unit)) \<Rightarrow> ('q, client_value return_envelope) channel \<Rightarrow>
     shell_ref \<Rightarrow> 'o client_state \<Rightarrow> nat \<Rightarrow> ('o client_state, client_value) event list \<Rightarrow>
     ('o client_state, 'q, client_value) task \<Rightarrow> spawned_send list \<Rightarrow> bool"
  for put C shell s time
where
  client_start: "client_run put C shell s time [] (start_task client_program C shell s time) []"
| client_next: "client_run put C shell s time es t tasks \<Longrightarrow> step client_program C t e t' \<Longrightarrow>
    client_allows put t e \<Longrightarrow> client_run put C shell s time (es @ [e]) t' (tasks @ client_spawns put t e)"

section \<open>A client is an actor\<close>

lemma client_run_steps:
  "client_run put C shell s time es t tasks \<Longrightarrow> steps client_program C (start_task client_program C shell s time) es t"
  by (induction rule: client_run.induct) (auto intro: steps_refl steps_step)

lemma client_run_run: "client_run put C shell s time es t tasks \<Longrightarrow> run client_program C es t"
  unfolding run_def using client_run_steps by blast

lemma client_program_ok: "program_ok client_program"
  by (auto simp: program_ok_def client_program_def)

lemma client_program_simps [simp]:
  "lp_queues client_program = 1" "lp_branches client_program = [(0, ''perform_net_client'')]"
  "lp_panic_hook client_program = Call_Hook ''catch''" "lp_exit_hook client_program = Call_Hook ''stop''"
  by (simp_all add: client_program_def)

text \<open>
  What a message does, case by case. A failure of the socket is a read error or a failed
  write; it is what stops a client.
\<close>

fun io_failure :: "client_value \<Rightarrow> client_value \<Rightarrow> bool" where
  "io_failure (On_Read (Inl e)) v = True"
| "io_failure (Send_Out msg) (Send_Out_Returns r) = isl r"
| "io_failure _ _ = False"

definition relay_task :: "'o client_state \<Rightarrow> string \<Rightarrow> spawned_send" where
  "relay_task self line = (Ready (Send_Msg (cl_id self) (trim line)), Await_Value (msg_relay (cl_relay self)))"

fun line_read :: "client_value return_envelope \<Rightarrow> string option" where
  "line_read m = (case payload m of On_Read (Inr line) \<Rightarrow> Some line | _ \<Rightarrow> None)"

lemma client_dispatch_Inl:
  "client_dispatch put p self ctx = Inl e \<Longrightarrow> (\<exists>l. p = On_Read l) \<or> (\<exists>m. p = Send_Out m) \<Longrightarrow>
    p = On_Read (Inl MaxLineLengthExceeded)"
  by (cases "(put, p, self, ctx)" rule: client_dispatch.cases)
    (auto simp: Envelope_drop_new split: sum.splits prod.splits elim!: on_read.elims)

lemma client_dispatch_Inr:
  assumes "client_dispatch put p self ctx = Inr (s, ctx', v, task)"
  shows "cl_id s = cl_id self" "cl_relay s = cl_relay self"
    "ctx' = (if io_failure p v then context_stop ctx else ctx)"
    "task = map_option (relay_task self) (case p of On_Read (Inr line) \<Rightarrow> Some line | _ \<Rightarrow> None)"
    "client_dispatch put p self ctx'' = Inr (s, if io_failure p v then context_stop ctx'' else ctx'', v, task)"
  using assms
  by (cases "(put, p, self, ctx)" rule: client_dispatch.cases;
      auto simp: Envelope_drop_new send_out_def relay_task_def Let_def split: sum.splits prod.splits elim!: on_read.elims)+

section \<open>The number of a client\<close>

lemma select_phase_running [simp]: "select_phase bs timer \<noteq> Finished r" "select_phase bs timer \<noteq> Unwound x"
    "select_phase bs timer \<noteq> Handling f m" "select_phase bs timer \<noteq> Responding p v"
  by (simp_all add: select_phase_def)

lemma client_run_state:
  assumes "client_run put C shell s time es t tasks"
  shows "cl_id (state t) = cl_id s \<and> cl_relay (state t) = cl_relay s \<and>
    (\<forall>r. phase t = Finished r \<longrightarrow>
      r = Inr (Inr (Hook_Value (Client_Number (cl_id s)))) \<or> r = Inr (Inl (Hook_Value (Client_Number (cl_id s)))))"
  using assms
proof (induction rule: client_run.induct)
  case (client_next es t tasks e t')
  then show ?case
    by (cases e) (auto simp: step_simps client_allows_def Let_def finish_task_def client_stop_def client_catch_def
        dest: client_dispatch_Inr(1,2) split: if_splits phase.splits)
qed (simp add: start_task_def)

section \<open>What a client handles\<close>

lemma client_event_loop:
  "role_channel C contents receiving connected \<Longrightarrow> event_loop C contents receiving connected client_program"
  by (intro event_loop.intro event_loop_axioms.intro client_program_ok)

lemma client_run_sent:
  "client_run put C shell s time es t tasks \<Longrightarrow> \<forall>m\<in>set (sent k es). client_message m"
proof (induction rule: client_run.induct)
  case (client_next es t tasks e t')
  then show ?case by (cases e) (auto simp: client_allows_def)
qed simp

lemma client_run_received:
  assumes "role_channel C contents receiving connected" and "client_run put C shell s time es t tasks"
  shows "filter_unwrap handled es = received 0 es"
  using assms(2)
proof (induction rule: client_run.induct)
  case (client_next es t tasks e t')
  then show ?case
    using event_loop.step_Receive [OF client_event_loop [OF assms(1)] client_run_run [OF client_next.hyps(1)]]
    by (cases e) fastforce+
qed (simp add: received_def)

lemma client_run_handled:
  assumes "role_channel C contents receiving connected" and "client_run put C shell s time es t tasks"
  shows "\<forall>m\<in>set (filter_unwrap handled es). client_message m"
proof -
  have "\<exists>rest. sent 0 es = received 0 es @ rest"
    using event_loop.run_fifo [OF client_event_loop [OF assms(1)] client_run_run [OF assms(2)], of 0]
    by (auto split: if_splits)
  with client_run_sent [OF assms(2), of 0] show ?thesis
    by (auto simp: client_run_received [OF assms])
qed

text \<open>The message in a handler is the last one received, and the first without a return value.\<close>

lemma client_run_current:
  assumes "client_run put C shell s time es t tasks" and "phase t = Handling f m"
  obtains before where "filter_unwrap handled es = before @ [m]" and "length before = length (filter_unwrap returned es)"
  using run_answers [OF client_run_run [OF assms(1)]] assms(2) by auto

lemma client_run_lengths:
  "client_run put C shell s time es t tasks \<Longrightarrow> length (filter_unwrap returned es) \<le> length (filter_unwrap handled es)"
  using run_answers [OF client_run_run] answers_ok_lengths by blast

text \<open>The lines relayed are the lines read, by the handlers that have returned.\<close>

definition lines_read :: "('s, client_value) event list \<Rightarrow> string list" where
  "lines_read es = filter_unwrap line_read (take (length (filter_unwrap returned es)) (filter_unwrap handled es))"

lemma client_run_tasks:
  assumes "client_run put C shell s time es t tasks"
  shows "tasks = map (relay_task s) (lines_read es)"
  using assms
proof (induction rule: client_run.induct)
  case (client_next es t tasks e t')
  note len = client_run_lengths [OF client_next.hyps(1)]
  show ?case
  proof (cases e)
    case (Handler_Return s' v)
    with client_next.hyps(2) obtain f m where phase: "phase t = Handling f m" by (auto simp: step_simps)
    with Handler_Return client_next.hyps(3) obtain task where
      result: "client_dispatch put (payload m) (state t) (actor_ctx t) = Inr (s', actor_ctx t, v, task)"
      by (auto simp: client_allows_def)
    obtain before where before: "filter_unwrap handled es = before @ [m]" "length before = length (filter_unwrap returned es)"
      using client_run_current [OF client_next.hyps(1) phase] .
    have "relay_task (state t) = relay_task s"
      using client_run_state [OF client_next.hyps(1)] by (simp add: relay_task_def fun_eq_iff)
    then have "client_spawns put t e = map (relay_task s) (filter_unwrap line_read [m])"
      using client_dispatch_Inr(4) [OF result] result
      by (auto simp: client_spawns_def Handler_Return phase split: client_value.splits sum.splits)
    with client_next.IH before show ?thesis by (simp add: lines_read_def Handler_Return)
  next
    case (Receive k f m)
    with client_next.IH len show ?thesis by (simp add: lines_read_def client_spawns_def)
  qed (use client_next.IH in \<open>simp_all add: lines_read_def client_spawns_def\<close>)
qed (simp add: lines_read_def)

text \<open>They are the first of the lines sent to the client.\<close>

lemma client_run_lines:
  assumes "role_channel C contents receiving connected" and "client_run put C shell s time es t tasks"
  shows "\<exists>rest. filter_unwrap line_read (sent 0 es) = lines_read es @ rest"
proof -
  let ?n = "length (filter_unwrap returned es)"
  obtain rest where "sent 0 es = filter_unwrap handled es @ rest"
    using event_loop.run_fifo [OF client_event_loop [OF assms(1)] client_run_run [OF assms(2)], of 0]
    by (auto simp: client_run_received [OF assms] split: if_splits)
  then have "sent 0 es = take ?n (filter_unwrap handled es) @ drop ?n (filter_unwrap handled es) @ rest" by simp
  then show ?thesis by (simp add: lines_read_def)
qed

section \<open>Why a client ends\<close>

text \<open>Only a line over the maximum length, which \<open>LinesCodec::new\<close> does not set, makes a client panic.\<close>

lemma client_run_panic:
  assumes "role_channel C contents receiving connected" and "client_run put C shell s time es t tasks"
    and "filter_unwrap panicked es \<noteq> []"
  shows "\<exists>m\<in>set (filter_unwrap handled es). payload m = On_Read (Inl MaxLineLengthExceeded)"
  using assms(2,3)
proof (induction rule: client_run.induct)
  case (client_next es t tasks e t')
  note typed = client_run_handled [OF assms(1) client_next.hyps(1)]
  show ?case
  proof (cases "panicked e")
    case None
    with client_next show ?thesis by (auto split: option.splits)
  next
    case (Some x)
    then consider s' where "e = Handler_Panic s' x" | "e = Respond_Panic x" by (cases e) auto
    then show ?thesis
    proof cases
      case 1
      with client_next.hyps(2) obtain f m where phase: "phase t = Handling f m" by (auto simp: step_simps)
      obtain before where m: "filter_unwrap handled es = before @ [m]"
        using client_run_current [OF client_next.hyps(1) phase] .
      with typed have "client_message m" by simp
      moreover obtain msg where "client_dispatch put (payload m) (state t) (actor_ctx t) = Inl msg"
        using client_next.hyps(3) 1 phase by (auto simp: client_allows_def)
      ultimately have "payload m = On_Read (Inl MaxLineLengthExceeded)"
        using client_dispatch_Inl by (force simp: client_message_def split: client_value.splits)
      with m show ?thesis using 1 by simp
    next
      case 2
      with client_next.hyps(2) obtain p v msg where phase: "phase t = Responding p v" "ReturnPath_send p v = Inl msg"
        by (auto simp: step_simps)
      then obtain before m where m: "filter_unwrap handled es = before @ [m]" "p = return_path m"
        using run_answers [OF client_run_run [OF client_next.hyps(1)]] by auto
      with typed have "client_message m" by simp
      with phase(2) m(2) show ?thesis
        by (auto simp: client_message_def split: client_value.splits return_path.splits)
    qed
  qed
qed simp

text \<open>A handler that has returned read an error or failed to write.\<close>

definition socket_failed :: "('s, client_value) event list \<Rightarrow> bool" where
  "socket_failed es \<longleftrightarrow>
     list_ex (\<lambda>(m, v). io_failure (payload m) v) (zip (filter_unwrap handled es) (filter_unwrap returned es))"

lemma zip_handled_snoc:
  assumes "client_run put C shell s time es t tasks"
  shows "zip (filter_unwrap handled es @ ms) (filter_unwrap returned es) =
    zip (filter_unwrap handled es) (filter_unwrap returned es)"
  using client_run_lengths [OF assms] by (simp add: zip_append1)

definition handler_fails ::
  "('o \<Rightarrow> string \<Rightarrow> 'o \<times> (codec_error + unit)) \<Rightarrow> ('o client_state, 'q, client_value) task \<Rightarrow> bool" where
  "handler_fails put t \<longleftrightarrow>
     (\<exists>f m s ctx v task. phase t = Handling f m \<and>
       client_dispatch put (payload m) (state t) (actor_ctx t) = Inr (s, ctx, v, task) \<and> io_failure (payload m) v)"

lemma client_run_stop:
  assumes "client_run put C shell s time es t tasks"
  shows "(socket_failed es \<longrightarrow> Handler_Stop \<in> set es) \<and> (Handler_Stop \<in> set es \<longrightarrow> socket_failed es \<or> handler_fails put t)"
  using assms
proof (induction rule: client_run.induct)
  case (client_next es t tasks e t')
  note zip = zip_handled_snoc [OF client_next.hyps(1)]
  show ?case
  proof (cases e)
    case Handler_Stop
    with client_next.hyps(2) obtain f m where phase: "phase t = Handling f m"
      and t': "t' = t\<lparr>actor_ctx := context_stop (actor_ctx t)\<rparr>" by (auto simp: step_simps)
    obtain s' ctx v task where
      result: "client_dispatch put (payload m) (state t) (actor_ctx t) = Inr (s', ctx, v, task)" "ctx \<noteq> actor_ctx t"
      using client_next.hyps(3) by (auto simp: client_allows_def Handler_Stop phase)
    with client_dispatch_Inr(3) [OF result(1)] have "io_failure (payload m) v" by (auto split: if_splits)
    with client_dispatch_Inr(5) [OF result(1), of "context_stop (actor_ctx t)"] have "handler_fails put t'"
      by (auto simp: handler_fails_def t' phase)
    then show ?thesis by (simp add: Handler_Stop)
  next
    case (Handler_Return s' v)
    with client_next.hyps(2) obtain f m where phase: "phase t = Handling f m" by (auto simp: step_simps)
    obtain before where before: "filter_unwrap handled es = before @ [m]" "length before = length (filter_unwrap returned es)"
      using client_run_current [OF client_next.hyps(1) phase] .
    obtain task where
      result: "client_dispatch put (payload m) (state t) (actor_ctx t) = Inr (s', actor_ctx t, v, task)"
      using client_next.hyps(3) by (auto simp: client_allows_def Handler_Return phase)
    have "io_failure (payload m) v \<longrightarrow> \<not> running (actor_ctx t)"
      using client_dispatch_Inr(3) [OF result] by (metis actor_context.select_convs(2) actor_context.surjective
          actor_context.update_convs(2) context_stop_def)
    then have "io_failure (payload m) v \<longrightarrow> Handler_Stop \<in> set es"
      using run_stopped [OF client_run_run [OF client_next.hyps(1)]] by simp
    moreover have "socket_failed (es @ [e]) \<longleftrightarrow> socket_failed es \<or> io_failure (payload m) v"
      using before by (simp add: socket_failed_def Handler_Return zip_append1)
    moreover have "handler_fails put t \<longrightarrow> io_failure (payload m) v"
      using result by (auto simp: handler_fails_def phase)
    ultimately show ?thesis using client_next.IH by (auto simp: Handler_Return)
  qed (use client_next.IH client_next.hyps(2,3) zip in
      \<open>auto simp: socket_failed_def handler_fails_def step_simps client_allows_def finish_task_def\<close>)
qed (simp add: socket_failed_def)

section \<open>The tasks that relay the lines\<close>

text \<open>
  A scheduler polls the spawned tasks; each poll that gets as far as the relay's \<open>enqueue\<close> is given
  its answer.
\<close>

type_synonym relay_call = "relay_payload enqueue_call"

fun poll_tasks ::
  "(nat \<times> (relay_payload return_envelope + unit) poll) list \<Rightarrow> spawned_send list \<Rightarrow> spawned_send list \<times> relay_call list" where
  "poll_tasks [] tasks = (tasks, [])"
| "poll_tasks ((i, enq) # schedule) tasks =
     (if i < length tasks then
        (case send_when_ready_step into_payload_reflexive (fst (tasks ! i), enq) (snd (tasks ! i)) of
           (task, cs) \<Rightarrow>
             (case poll_tasks schedule (tasks[i := (fst (tasks ! i), task)]) of (tasks', cs') \<Rightarrow> (tasks', cs @ cs')))
      else poll_tasks schedule tasks)"

fun to_send :: "spawned_send \<Rightarrow> relay_call multiset" where
  "to_send (Ready p, Await_Value d) = {#(d, \<lparr>payload = p, return_path = Discard\<rparr>)#}"
| "to_send (fut, Await_Enqueue call) = {#call#}"
| "to_send _ = {#}"

lemma to_send_step:
  "send_when_ready_step into_payload_reflexive (fut, enq) task = (task', cs) \<Longrightarrow>
    mset cs + to_send (fut, task') \<subseteq># to_send (fut, task)"
  by (cases task; cases fut) (auto simp: into_payload_reflexive_def split: poll.splits sum.splits)

lemma poll_tasks_once:
  "poll_tasks schedule tasks = (tasks', cs) \<Longrightarrow> mset cs + sum_list (map to_send tasks') \<subseteq># sum_list (map to_send tasks)"
proof (induction schedule tasks arbitrary: tasks' cs rule: poll_tasks.induct)
  case (2 i enq schedule tasks)
  show ?case
  proof (cases "i < length tasks")
    case True
    obtain task one rest where step: "send_when_ready_step into_payload_reflexive (fst (tasks ! i), enq) (snd (tasks ! i)) = (task, one)"
      and rest: "poll_tasks schedule (tasks[i := (fst (tasks ! i), task)]) = (tasks', rest)" "cs = one @ rest"
      using "2.prems" True by (auto split: prod.splits)
    have "mset one + sum_list (map to_send (tasks[i := (fst (tasks ! i), task)])) \<subseteq># sum_list (map to_send tasks)"
      using to_send_step [OF step] True by (intro sum_update_mset) simp_all
    moreover have "mset rest + sum_list (map to_send tasks') \<subseteq>#
        sum_list (map to_send (tasks[i := (fst (tasks ! i), task)]))"
      using "2.IH"(1) [OF True step [symmetric] rest(1)] .
    ultimately show ?thesis
      unfolding rest(2) mset_append add.assoc
      by (rule subset_mset.order_trans [OF subset_mset.add_left_mono, rotated])
  qed (use 2 in simp)
qed simp

definition polls_in_order :: "nat list \<Rightarrow> (nat \<times> (relay_payload return_envelope + unit) poll) list" where
  "polls_in_order order = concat (map (\<lambda>i. [(i, Pending), (i, Ready (Inr ()))]) order)"

lemma poll_tasks_in_order:
  assumes "distinct order" and "\<forall>i\<in>set order. i < length tasks \<and> tasks ! i = (Ready (p i), Await_Value d)"
  shows "snd (poll_tasks (polls_in_order order) tasks) = map (\<lambda>i. (d, \<lparr>payload = p i, return_path = Discard\<rparr>)) order"
  using assms
proof (induction order arbitrary: tasks)
  case (Cons i order)
  let ?tasks = "tasks[i := (Ready (p i), Send_Done)]"
  have "snd (poll_tasks (polls_in_order order) ?tasks) = map (\<lambda>i. (d, \<lparr>payload = p i, return_path = Discard\<rparr>)) order"
    using Cons.prems by (intro Cons.IH) (auto simp: nth_list_update)
  with Cons.prems show ?case
    by (auto simp: polls_in_order_def into_payload_reflexive_def split: prod.splits)
qed (simp add: polls_in_order_def)

section \<open>Concrete runs\<close>

primrec client_follows ::
  "('o \<Rightarrow> string \<Rightarrow> 'o \<times> (codec_error + unit)) \<Rightarrow> ('q, client_value return_envelope) channel \<Rightarrow>
     ('o client_state, client_value) event list \<Rightarrow> ('o client_state, 'q, client_value) task \<Rightarrow>
     ('o client_state, 'q, client_value) task \<Rightarrow> spawned_send list \<Rightarrow> bool"
where
  "client_follows put C [] t t' tasks \<longleftrightarrow> t' = t \<and> tasks = []"
| "client_follows put C (e # es) t t' tasks \<longleftrightarrow>
     (\<exists>u. step client_program C t e u \<and> client_allows put t e \<and>
       (\<exists>more. client_follows put C es u t' more \<and> tasks = client_spawns put t e @ more))"

lemma client_follows_run:
  "client_run put C shell s time es t tasks \<Longrightarrow> client_follows put C es' t t' tasks' \<Longrightarrow>
    client_run put C shell s time (es @ es') t' (tasks @ tasks')"
proof (induction es' arbitrary: es t tasks tasks')
  case (Cons e es')
  then obtain u more where u: "step client_program C t e u" "client_allows put t e"
    and more: "client_follows put C es' u t' more" "tasks' = client_spawns put t e @ more" by auto
  from Cons.IH [OF client_next [OF Cons.prems(1) u] more(1)] more(2) show ?case by simp
qed simp

abbreviation sample_client :: "unit client_state" where
  "sample_client \<equiv> \<lparr>cl_id = 7, cl_relay = 0, net_out_stream = ()\<rparr>"

abbreviation line_message :: "codec_error + string \<Rightarrow> client_value return_envelope" where
  "line_message line \<equiv> \<lparr>payload = On_Read line, return_path = Discard\<rparr>"

abbreviation receive_line :: "codec_error + string \<Rightarrow> (unit client_state, client_value) event" where
  "receive_line line \<equiv> Receive 0 ''perform_net_client'' (line_message line)"

abbreviation return_line :: "(unit client_state, client_value) event list" where
  "return_line \<equiv> [Handler_Return sample_client On_Read_Returns, Respond [], Read_Empty]"

lemmas client_eval = step_simps client_allows_def client_spawns_def client_message_def client_stop_def start_task_def
  Context_new_def task_running_def strong_count_def is_running_def context_stop_def select_phase_def fifo_send_def
  fifo_poll_recv_def IDLE_TIMEOUT_def finish_task_def hook_returns_def Envelope_drop_new

text \<open>A client that reads two lines, and then an error.\<close>

abbreviation sample_events :: "(unit client_state, client_value) event list" where
  "sample_events \<equiv> [Start, Read_Empty, Read_Running, Read_Timer, Send 0 (line_message (Inr ''a '')),
     Send 0 (line_message (Inr ''b'')), Send 0 (line_message (Inl (Io '''')))] @
     receive_line (Inr ''a '') # return_line @ Read_Timer # receive_line (Inr ''b'') # return_line @ Read_Timer #
     receive_line (Inl (Io '''')) # Handler_Stop # return_line @
     [Read_Running, Read_Timer, Exit_Hook sample_client (Hook_Value (Client_Number 7))]"

lemma sample_client_run:
  "\<exists>t. client_run (\<lambda>out msg. (out, Inr ())) fifo_channel 12 sample_client 0 sample_events t
     [(Ready (Send_Msg 7 ''a''), Await_Value (msg_relay 0)), (Ready (Send_Msg 7 ''b''), Await_Value (msg_relay 0))] \<and>
     phase t = Finished (Inr (Inr (Hook_Value (Client_Number 7))))"
proof -
  have "trim ''a '' = ''a''" "trim ''b'' = ''b''" by code_simp+
  then have "\<exists>t. client_follows (\<lambda>out msg. (out, Inr ())) fifo_channel sample_events
      (start_task client_program fifo_channel 12 sample_client 0) t
      [(Ready (Send_Msg 7 ''a''), Await_Value (msg_relay 0)), (Ready (Send_Msg 7 ''b''), Await_Value (msg_relay 0))] \<and>
      phase t = Finished (Inr (Inr (Hook_Value (Client_Number 7))))"
    by (simp add: client_eval)
  then obtain t where "client_follows (\<lambda>out msg. (out, Inr ())) fifo_channel sample_events
      (start_task client_program fifo_channel 12 sample_client 0) t
      [(Ready (Send_Msg 7 ''a''), Await_Value (msg_relay 0)), (Ready (Send_Msg 7 ''b''), Await_Value (msg_relay 0))]"
    "phase t = Finished (Inr (Inr (Hook_Value (Client_Number 7))))" by blast
  from client_follows_run [OF client_start this(1)] this(2) show ?thesis
    unfolding append_Nil by blast
qed

section \<open>Lines and departures\<close>

text \<open>
  C20. Every line a client reads from its socket is relayed: the tasks its handlers have spawned
  carry, in order, the lines of the handlers that have returned, trimmed and with the client's
  number; those lines are the first of the lines sent to it. Between handlers the client is
  stopped exactly if reading or writing has failed.
\<close>

theorem client_relays:
  assumes "role_channel C contents receiving connected" and "client_run put C shell s time es t tasks"
  shows "tasks = map (relay_task s) (lines_read es) \<and>
    (\<exists>rest. filter_unwrap line_read (sent 0 es) = lines_read es @ rest) \<and>
    ((\<forall>f m. phase t \<noteq> Handling f m) \<longrightarrow> (Handler_Stop \<in> set es \<longleftrightarrow> socket_failed es))"
  using client_run_tasks [OF assms(2)] client_run_lines [OF assms] client_run_stop [OF assms(2)]
  by (auto simp: handler_fails_def)

theorem client_relays_witness:
  "lines_read sample_events = [''a '', ''b''] \<and> socket_failed sample_events \<and>
   (\<exists>t. client_run (\<lambda>out msg. (out, Inr ())) fifo_channel 12 sample_client 0 sample_events t
     (map (relay_task sample_client) [''a '', ''b'']))"
proof -
  obtain t tasks where t: "client_run (\<lambda>out msg. (out, Inr ())) fifo_channel 12 sample_client 0 sample_events t tasks"
    "phase t = Finished (Inr (Inr (Hook_Value (Client_Number 7))))"
    using sample_client_run by blast
  moreover have "lines_read sample_events = [''a '', ''b'']" by (simp add: lines_read_def)
  moreover have "Handler_Stop \<in> set sample_events" by simp
  ultimately show ?thesis
    using client_relays [OF fifo_channel_laws t(1)] by auto
qed

text \<open>
  C21. The lines a client has read reach the relay at most once each, but in any order: each is
  carried by a task of its own, and for every order of the lines there are polls of the tasks
  that deliver them in it.
\<close>

theorem client_lines_any_order:
  assumes "client_run put C shell s time es t tasks" and "distinct order" and "set order \<subseteq> {..<length (lines_read es)}"
  shows "(\<exists>schedule. snd (poll_tasks schedule tasks) =
      map (\<lambda>i. (msg_relay (cl_relay s),
        \<lparr>payload = Send_Msg (cl_id s) (trim (lines_read es ! i)), return_path = Discard\<rparr>)) order) \<and>
    (\<forall>schedule. mset (snd (poll_tasks schedule tasks)) \<subseteq>#
      mset (map (\<lambda>line. (msg_relay (cl_relay s),
        \<lparr>payload = Send_Msg (cl_id s) (trim line), return_path = Discard\<rparr>)) (lines_read es)))"
proof (intro conjI allI)
  note tasks = client_run_tasks [OF assms(1)]
  have "\<forall>i\<in>set order. i < length tasks \<and>
      tasks ! i = (Ready (Send_Msg (cl_id s) (trim (lines_read es ! i))), Await_Value (msg_relay (cl_relay s)))"
    using assms(3) by (auto simp: tasks relay_task_def)
  from poll_tasks_in_order [OF assms(2) this]
  show "\<exists>schedule. snd (poll_tasks schedule tasks) = map (\<lambda>i. (msg_relay (cl_relay s),
        \<lparr>payload = Send_Msg (cl_id s) (trim (lines_read es ! i)), return_path = Discard\<rparr>)) order" by blast
  fix schedule
  have "sum_list (map to_send (map (relay_task s) ls)) = mset (map (\<lambda>line. (msg_relay (cl_relay s),
        \<lparr>payload = Send_Msg (cl_id s) (trim line), return_path = Discard\<rparr>)) ls)" for ls
    by (induction ls) (auto simp: relay_task_def)
  with poll_tasks_once [of schedule tasks] show "mset (snd (poll_tasks schedule tasks)) \<subseteq>#
      mset (map (\<lambda>line. (msg_relay (cl_relay s),
        \<lparr>payload = Send_Msg (cl_id s) (trim line), return_path = Discard\<rparr>)) (lines_read es))"
    unfolding tasks by (cases "poll_tasks schedule (map (relay_task s) (lines_read es))")
      (auto intro: subset_mset.order_trans [OF mset_subset_eq_add_left])
qed

theorem client_lines_any_order_witness:
  "\<exists>t tasks schedule. client_run (\<lambda>out msg. (out, Inr ())) fifo_channel 12 sample_client 0 sample_events t tasks \<and>
     lines_read sample_events = [''a '', ''b''] \<and>
     snd (poll_tasks schedule tasks) =
       [(msg_relay 0, \<lparr>payload = Send_Msg 7 (trim ''b''), return_path = Discard\<rparr>),
        (msg_relay 0, \<lparr>payload = Send_Msg 7 (trim ''a ''), return_path = Discard\<rparr>)]"
proof -
  obtain t tasks where t: "client_run (\<lambda>out msg. (out, Inr ())) fifo_channel 12 sample_client 0 sample_events t tasks"
    using sample_client_run by blast
  have lines: "lines_read sample_events = [''a '', ''b'']" by (simp add: lines_read_def)
  from client_lines_any_order [OF t, of "[1, 0]"] t show ?thesis unfolding lines by auto
qed

text \<open>What the server makes of a client's outcome.\<close>

lemma server_removes:
  assumes "reads_all order" and "\<forall>cs. env cs \<noteq> None" and "result = Exit i \<or> result = Panic i"
  shows "\<exists>self' gone. relay_dispatch env order (Client_Leaves result) self = Some self' \<and>
    console self' = console self @ map left_line gone \<and> distinct gone \<and>
    (i \<in> set gone \<longleftrightarrow> i \<in> fst ` set (users self)) \<and> i \<notin> fst ` set (users self') \<and>
    (\<forall>j\<in>set gone. \<forall>u\<in>set (users self'). (u, left_line j) \<in> set (calls self'))"
proof -
  obtain self' where self': "remove_client env order i self = Some self'"
    using broadcast_returns(3) [OF assms(2)] by blast
  then have handled: "relay_dispatch env order (Client_Leaves result) self = Some self'"
    using assms(3) by (auto simp: client_leaves_def)
  obtain gone new where "removed env {i} gone new self self'"
    using broadcast_removed(3) [OF assms(1) self'] by blast
  note facts = removedD [OF this]
  have iff: "i \<in> set gone \<longleftrightarrow> i \<in> fst ` set (users self)" using facts(6,7) by auto
  moreover have "i \<notin> fst ` set (users self')" using iff unfolding facts(3) by auto
  moreover have "\<forall>j\<in>set gone. \<forall>u\<in>set (users self'). (u, left_line j) \<in> set (calls self')"
    using facts(8) unfolding facts(1) by auto
  ultimately show ?thesis using handled facts(2,5) by blast
qed

text \<open>
  C19. A client that \<open>Client::new\<close> sets up with the number \<open>i\<close> and whose task is over has left under that
  number: the exit handle reports it, as an exit, or as a panic if a line was too long for
  the codec, but never as a bug; the task registered for the handle sends it to the relay; and
  handling that, if every call the server makes to a client while it does is answered, the handler returns, the
  server no longer has the client in its map, and has announced its departure, once, to the console and everybody
  who stays, if the client was still in the map; if it was not, because the server had noticed before, it is not
  announced again.
\<close>

theorem client_departure:
  fixes t :: "('o client_state, 'q, client_value) task"
  assumes "role_channel C contents receiving connected" and "client = Client_new split shell relay socket i"
    and "client_run put C shell (setup_state client) time es t tasks" and "is_finished (phase t)"
    and "reads_all order" and "\<forall>cs. env cs \<noteq> None"
  shows "\<exists>result. exit_handle_of t = Inr (Ready (map_outcome (\<lambda>n. Hook_Value (Client_Number n)) (\<lambda>n. Hook_Value (Client_Number n)) result)) \<and>
    (result = Exit i \<or> result = Panic i \<and> (\<exists>m\<in>set (received 0 es). payload m = On_Read (Inl MaxLineLengthExceeded))) \<and>
    send_when_ready_step Client_Leaves (Ready result, enq) (setup_exit client) =
      (Await_Enqueue (msg_relay relay, \<lparr>payload = Client_Leaves result, return_path = Discard\<rparr>), []) \<and>
    (\<exists>self' gone. relay_dispatch env order (Client_Leaves result) self = Some self' \<and>
      console self' = console self @ map left_line gone \<and> distinct gone \<and>
      (i \<in> set gone \<longleftrightarrow> i \<in> fst ` set (users self)) \<and> i \<notin> fst ` set (users self') \<and>
      (\<forall>j\<in>set gone. \<forall>u\<in>set (users self'). (u, left_line j) \<in> set (calls self')))"
proof -
  have made: "cl_id (setup_state client) = i" "setup_exit client = Await_Value (msg_relay relay)"
    by (simp_all add: assms(2) Client_new_def Let_def split: prod.splits)
  obtain r where r: "phase t = Finished r" using assms(4) by (cases "phase t") auto
  consider "r = Inr (Inr (Hook_Value (Client_Number i)))" | "r = Inr (Inl (Hook_Value (Client_Number i)))"
    using client_run_state [OF assms(3)] r made(1) by auto
  then obtain result where result: "result = Exit i \<or> result = Panic i \<and>
      (\<exists>m\<in>set (received 0 es). payload m = On_Read (Inl MaxLineLengthExceeded))"
    and handle: "exit_handle_of t = Inr (Ready (map_outcome (\<lambda>n. Hook_Value (Client_Number n)) (\<lambda>n. Hook_Value (Client_Number n)) result))"
  proof cases
    case 1
    then show thesis by (intro that [of "Exit i"]) (simp_all add: exit_handle_of_def r)
  next
    case 2
    then have "filter_unwrap panicked es \<noteq> []"
      using run_ending [OF client_run_run [OF assms(3)]] r by auto
    from client_run_panic [OF assms(1,3) this] 2 show thesis
      by (intro that [of "Panic i"]) (simp_all add: exit_handle_of_def r client_run_received [OF assms(1,3)])
  qed
  from result have "result = Exit i \<or> result = Panic i" by blast
  from server_removes [OF assms(5,6) this, of self] result handle show ?thesis
    unfolding made(2) by (intro exI [of _ result]) simp
qed

theorem client_departure_witness:
  "\<exists>t tasks self'. client_run (\<lambda>out msg. (out, Inr ())) fifo_channel 12 sample_client 0 sample_events t tasks \<and>
     exit_handle_of t = Inr (Ready (Exit (Hook_Value (Client_Number 7)))) \<and>
     relay_dispatch (\<lambda>cs. Some (Inr (Inr ()))) id (Client_Leaves (Exit 7)) (server_default\<lparr>users := [(1, 10), (7, 12)]\<rparr>) = Some self' \<and>
     7 \<notin> fst ` set (users self') \<and> left_line 7 \<in> set (console self')"
proof -
  let ?client = "Client_new (\<lambda>k. ((), ())) 12 0 () 7 :: (unit, unit, unit) client_setup"
  have made: "setup_state ?client = sample_client"
    by (simp add: Client_new_def Let_def)
  obtain t tasks where t: "client_run (\<lambda>out msg. (out, Inr ())) fifo_channel 12 sample_client 0 sample_events t tasks"
    "phase t = Finished (Inr (Inr (Hook_Value (Client_Number 7))))"
    using sample_client_run by blast
  then have exit: "exit_handle_of t = Inr (Ready (Exit (Hook_Value (Client_Number 7))))"
    by (simp add: exit_handle_of_def)
  have over: "is_finished (phase t)" by (simp add: t(2))
  have answers: "\<forall>cs :: (client_entry \<times> string) list. Some (Inr (Inr ()) :: reply) \<noteq> None" by simp
  from client_departure [where enq = Pending and env = "\<lambda>cs. Some (Inr (Inr ()))" and self = "server_default\<lparr>users := [(1, 10), (7, 12)]\<rparr>",
      OF fifo_channel_laws refl t(1) [folded made] over reads_all_id answers]
  obtain result self' gone where
    "exit_handle_of t = Inr (Ready (map_outcome (\<lambda>n. Hook_Value (Client_Number n)) (\<lambda>n. Hook_Value (Client_Number n)) result))"
    "relay_dispatch (\<lambda>cs. Some (Inr (Inr ()))) id (Client_Leaves result) (server_default\<lparr>users := [(1, 10), (7, 12)]\<rparr>) = Some self'"
    "console self' = console (server_default\<lparr>users := [(1, 10), (7, 12)]\<rparr>) @ map left_line gone"
    "(7 :: usize) \<in> set gone \<longleftrightarrow> 7 \<in> fst ` set (users (server_default\<lparr>users := [(1, 10), (7, 12)]\<rparr>))"
    "7 \<notin> fst ` set (users self')"
    by - ((elim exE conjE), rule that)
  moreover from this(1) exit have "result = Exit 7" by (cases result) auto
  ultimately show ?thesis using t(1) exit by auto
qed

end
