(* ===== verification/Chat_Server.thy ===== *)
theory Chat_Server
  imports Chat_Client
begin

text \<open>
  The server of \<open>src/examples/chat.rs\<close> as an actor: the runs of its generated event loop whose messages
  are those the program sends and whose handlers are those of the module. What it shows is the
  room of \<open>Chat_Room\<close>, and what is said there are the lines sent to it.
\<close>

section \<open>What passes through the server\<close>

datatype 'k server_value = Relay_Msg relay_payload | New_Socket 'k | Server_Returns

text \<open>
  Lines come from the dropped envelopes of the clients, outcomes from \<open>send_when_ready\<close>, both to \<open>MsgRelay\<close>,
  and sockets from \<open>feed_to\<close>, to \<open>NetListener\<close>: return values are always discarded.
\<close>

definition server_message :: "nat \<Rightarrow> 'k server_value return_envelope \<Rightarrow> bool" where
  "server_message k m \<longleftrightarrow>
     return_path m = Discard \<and>
     (case payload m of
        Relay_Msg p \<Rightarrow> k = dest_role (msg_relay 0)
      | New_Socket socket \<Rightarrow> k = dest_role (net_listener 0)
      | Server_Returns \<Rightarrow> False)"

text \<open>
  The dispatch functions of both roles, given the count of handles, the context, and the shell of
  the client that \<open>listen\<close> starts; \<open>None\<close> when an \<open>await\<close> never returns.
\<close>

fun server_event_of :: "'k server_value \<Rightarrow> nat \<Rightarrow> actor_context \<Rightarrow> shell_ref \<Rightarrow> 'k server_event option" where
  "server_event_of (Relay_Msg p) n ctx client = Some (Relay p)"
| "server_event_of (New_Socket socket) n ctx client = Some (Listen n ctx client socket)"
| "server_event_of Server_Returns n ctx client = None"

text \<open>
  The events the server's program allows, and what has been handled with them. \<open>listen\<close> clones the shell once,
  \<open>cloned\<close> says that it has. No handler panics or stops the context; there are no hooks.
\<close>

definition server_allows ::
  "(('k server_event \<Rightarrow> server_state \<Rightarrow> server_state option)) \<Rightarrow> bool \<Rightarrow> (server_state, 'q, 'k server_value) task \<Rightarrow>
     (server_state, 'k server_value) event \<Rightarrow> 'k server_event list \<Rightarrow> bool" where
  "server_allows handle cloned t e new \<longleftrightarrow>
     (case e of
        Send k m \<Rightarrow> server_message k m \<and> new = []
      | Send_Failed k m \<Rightarrow> server_message k m \<and> new = []
      | Handler_Get_Shell \<Rightarrow>
          \<not> cloned \<and> new = [] \<and> (\<exists>f m socket. phase t = Handling f m \<and> payload m = New_Socket socket)
      | Handler_Return s v \<Rightarrow>
          v = Server_Returns \<and>
          (\<exists>f m client ev. phase t = Handling f m \<and> server_event_of (payload m) (handles t) (actor_ctx t) client = Some ev \<and>
            (cloned \<longleftrightarrow> (\<exists>socket. payload m = New_Socket socket)) \<and> handle ev (state t) = Some s \<and> new = [ev])
      | Handler_Stop \<Rightarrow> False
      | Handler_Panic s x \<Rightarrow> False
      | Hook_Panic msg \<Rightarrow> False
      | _ \<Rightarrow> new = [])"

definition clones :: "bool \<Rightarrow> ('s, 'v) event \<Rightarrow> bool" where
  "clones cloned e = (case e of Handler_Get_Shell \<Rightarrow> True | Handler_Return s v \<Rightarrow> False | _ \<Rightarrow> cloned)"

inductive server_loop ::
  "('k server_event \<Rightarrow> server_state \<Rightarrow> server_state option) \<Rightarrow> ('q, 'k server_value return_envelope) channel \<Rightarrow>
     shell_ref \<Rightarrow> nat \<Rightarrow> (server_state, 'k server_value) event list \<Rightarrow> (server_state, 'q, 'k server_value) task \<Rightarrow>
     bool \<Rightarrow> 'k server_event list \<Rightarrow> bool"
  for handle C shell time
where
  server_start: "server_loop handle C shell time [] (start_task server_program C shell server_default time) False []"
| server_next: "server_loop handle C shell time es t cloned evs \<Longrightarrow> step server_program C t e t' \<Longrightarrow>
    server_allows handle cloned t e new \<Longrightarrow>
    server_loop handle C shell time (es @ [e]) t' (clones cloned e) (evs @ new)"

section \<open>The server is an actor\<close>

lemma server_loop_steps:
  "server_loop handle C shell time es t cloned evs \<Longrightarrow>
    steps server_program C (start_task server_program C shell server_default time) es t"
  by (induction rule: server_loop.induct) (auto intro: steps_refl steps_step)

lemma server_loop_run: "server_loop handle C shell time es t cloned evs \<Longrightarrow> run server_program C es t"
  unfolding run_def using server_loop_steps by blast

lemma server_program_simps [simp]:
  "lp_queues server_program = 2" "lp_branches server_program = [(0, ''perform_msg_relay''), (1, ''perform_net_listener'')]"
  "lp_panic_hook server_program = No_Hook" "lp_exit_hook server_program = No_Hook"
  by (simp_all add: server_program_def)

lemma server_program_ok: "program_ok server_program"
  by (auto simp: program_ok_def server_program_def lessThan_Suc numeral_2_eq_2)

lemma server_event_loop:
  "role_channel C contents receiving connected \<Longrightarrow> event_loop C contents receiving connected server_program"
  by (intro event_loop.intro event_loop_axioms.intro server_program_ok)

lemma server_loop_sent: "server_loop handle C shell time es t cloned evs \<Longrightarrow> \<forall>m\<in>set (sent k es). server_message k m"
proof (induction rule: server_loop.induct)
  case (server_next es t cloned evs e t' new)
  then show ?case by (cases e) (auto simp: server_allows_def)
qed simp

lemma server_loop_received:
  assumes "role_channel C contents receiving connected" and "server_loop handle C shell time es t cloned evs"
    and "k < 2" and "m \<in> set (received k es)"
  shows "server_message k m"
proof -
  have "\<exists>rest. sent k es = received k es @ rest"
    using event_loop.run_fifo [OF server_event_loop [OF assms(1)] server_loop_run [OF assms(2)], of k] assms(3)
    by (auto split: if_splits)
  with server_loop_sent [OF assms(2), of k] assms(4) show ?thesis by auto
qed

section \<open>What the server has handled\<close>

text \<open>The payload in a message to the relay.\<close>

definition relayed :: "'k server_value return_envelope \<Rightarrow> relay_payload option" where
  "relayed m = (case payload m of Relay_Msg p \<Rightarrow> Some p | _ \<Rightarrow> None)"

lemma relayed_event: "server_event_of (payload m) n ctx client = Some ev \<Longrightarrow> relayed m = relay_of ev"
  by (cases "payload m") (auto simp: relayed_def)

text \<open>Those handled are those of the relay's queue.\<close>

lemma relayed_handled:
  assumes "role_channel C contents receiving connected" and "server_loop handle C shell time es t cloned evs"
  shows "filter_unwrap relayed (filter_unwrap handled es) = filter_unwrap relayed (received 0 es)"
  using assms(2)
proof (induction rule: server_loop.induct)
  case (server_next es t cloned evs e t' new)
  show ?case
  proof (cases "\<exists>k f m. e = Receive k f m")
    case True
    then obtain k f m where e: "e = Receive k f m" by blast
    then have "k < 2"
      using event_loop.step_Receive [OF server_event_loop [OF assms(1)] server_loop_run [OF server_next.hyps(1)]]
        server_next.hyps(2) by fastforce
    then have "server_message k m"
      using server_loop_received [OF assms(1) server_loop.server_next [OF server_next.hyps], of k m] by (simp add: e)
    then have "k \<noteq> 0 \<longrightarrow> relayed m = None"
      by (auto simp: server_message_def relayed_def msg_relay_def split: server_value.splits)
    with server_next.IH show ?thesis by (simp add: e)
  next
    case False
    with server_next.IH show ?thesis by (cases e) auto
  qed
qed (simp add: received_def)

text \<open>The state is what the handlers that have returned make of it, in the order of their messages.\<close>

lemma server_run_append:
  "server_run env order split (es @ fs) self =
     (case server_run env order split es self of None \<Rightarrow> None | Some self' \<Rightarrow> server_run env order split fs self')"
  by (induction es arbitrary: self) (auto split: option.splits)

lemma server_loop_state:
  assumes "server_loop (server_step env order split) C shell time es t cloned evs"
  shows "server_run env order split evs server_default = Some (state t) \<and>
    length evs = length (filter_unwrap returned es) \<and>
    filter_unwrap relay_of evs = filter_unwrap relayed (take (length evs) (filter_unwrap handled es))"
  using assms
proof (induction rule: server_loop.induct)
  case (server_next es t cloned evs e t' new)
  have "length (filter_unwrap returned es) \<le> length (filter_unwrap handled es)"
    using run_answers [OF server_loop_run [OF server_next.hyps(1)]] answers_ok_lengths by blast
  with server_next.IH have len: "length evs \<le> length (filter_unwrap handled es)" by simp
  show ?case
  proof (cases "\<exists>s v. e = Handler_Return s v")
    case True
    then obtain s v where e: "e = Handler_Return s v" by blast
    then obtain f m client ev where phase: "phase t = Handling f m"
      and ev: "server_event_of (payload m) (handles t) (actor_ctx t) client = Some ev"
        "server_step env order split ev (state t) = Some s" "new = [ev]"
      using server_next.hyps(3) by (auto simp: server_allows_def)
    obtain before where before: "filter_unwrap handled es = before @ [m]" "length before = length evs"
      using run_answers [OF server_loop_run [OF server_next.hyps(1)]] phase server_next.IH by auto
    have "state t' = s" using server_next.hyps(2) by (auto simp: e step_simps)
    with server_next.IH ev before relayed_event [OF ev(1)] show ?thesis
      by (simp add: e server_run_append split: option.splits)
  next
    case False
    then have "new = []" "returned e = None" "state t' = state t"
      using server_next.hyps(2,3)
      by (cases e; auto simp: server_allows_def step_simps finish_task_def split: if_splits)+
    with server_next.IH len show ?thesis by (cases "handled e") auto
  qed
qed (simp add: start_task_def)

section \<open>The room\<close>

lemma server_loop_relayed:
  assumes "role_channel C contents receiving connected"
    and "server_loop (server_step env order split) C shell time es t cloned evs"
  shows "\<exists>rest. filter_unwrap relayed (sent 0 es) = filter_unwrap relay_of evs @ rest"
proof -
  note state = server_loop_state [OF assms(2)]
  obtain lost where "sent 0 es = received 0 es @ lost"
    using event_loop.run_fifo [OF server_event_loop [OF assms(1)] server_loop_run [OF assms(2)], of 0]
    by (auto split: if_splits)
  moreover have "filter_unwrap relayed (received 0 es) =
      filter_unwrap relay_of evs @ filter_unwrap relayed (drop (length evs) (filter_unwrap handled es))"
    unfolding relayed_handled [OF assms, symmetric] using state
    by (metis append_take_drop_id filter_unwrap_append)
  ultimately show ?thesis by simp
qed

lemma server_room_log:
  assumes "reads_all order" and "server_loop (server_step env order split) C shell time es t cloned evs"
    and "length (filter_unwrap returned es) < 2 ^ 64 - 1"
  shows "\<exists>log. console (state t) = map announce log \<and> members {} log = Some (fst ` set (users (state t))) \<and>
    distinct (filter_unwrap departed log) \<and> distinct (map fst (users (state t))) \<and>
    filter_unwrap entered log = map of_nat [1..<Suc (arrivals evs)] \<and>
    filter_unwrap said log = filter_unwrap payload_line (filter_unwrap relay_of evs) \<and>
    set (filter_unwrap departed log) \<subseteq>
      set (filter_unwrap payload_leaver (filter_unwrap relay_of evs)) \<union> set (failed env [] (calls (state t)))"
proof -
  note state = server_loop_state [OF assms(2)]
  then have "server_run env order split evs server_default = Some (state t)" "length evs < 2 ^ 64 - 1"
    using assms(3) by simp_all
  from chat_room [OF assms(1) this] show ?thesis by blast
qed

text \<open>
  C18. In every run of the chat server's generated event loop, with messages sent by any clients at
  any time, the console tells the story of a room: clients enter with the numbers 1, 2, 3 and so
  on, each leaves at most once and only while it is in, those who have entered and not left are
  the keys of the map, and what is said are the first of the lines sent to the relay, each
  once and in order. Who leaves has had its outcome sent to the relay, or has not taken a line. This is for
  runs in which fewer than \<open>2 ^ 64 - 1\<close> handlers have returned, so that the counter of clients has not wrapped.
\<close>

theorem server_is_room:
  assumes "role_channel C contents receiving connected" and "reads_all order"
    and "server_loop (server_step env order split) C shell time es t cloned evs"
    and "length (filter_unwrap returned es) < 2 ^ 64 - 1"
  shows "\<exists>log rest. console (state t) = map announce log \<and> members {} log = Some (fst ` set (users (state t))) \<and>
    distinct (filter_unwrap departed log) \<and> distinct (map fst (users (state t))) \<and>
    (\<exists>k. filter_unwrap entered log = map of_nat [1..<Suc k]) \<and>
    filter_unwrap payload_line (filter_unwrap relayed (sent 0 es)) = filter_unwrap said log @ rest \<and>
    set (filter_unwrap departed log) \<subseteq>
      set (filter_unwrap payload_leaver (filter_unwrap relayed (sent 0 es))) \<union> set (failed env [] (calls (state t)))"
proof -
  obtain rest where rest: "filter_unwrap relayed (sent 0 es) = filter_unwrap relay_of evs @ rest"
    using server_loop_relayed [OF assms(1,3)] by blast
  show ?thesis
    by (rule exE [OF server_room_log [OF assms(2-)]], unfold rest filter_unwrap_append set_append,
        rule exI, rule exI [of _ "filter_unwrap payload_line rest"]) auto
qed

section \<open>A concrete run\<close>

primrec server_follows ::
  "('k server_event \<Rightarrow> server_state \<Rightarrow> server_state option) \<Rightarrow> ('q, 'k server_value return_envelope) channel \<Rightarrow>
     (server_state, 'k server_value) event list \<Rightarrow> bool \<Rightarrow> (server_state, 'q, 'k server_value) task \<Rightarrow>
     (server_state, 'q, 'k server_value) task \<Rightarrow> bool \<Rightarrow> 'k server_event list \<Rightarrow> bool"
where
  "server_follows handle C [] cloned t t' cloned' evs \<longleftrightarrow> t' = t \<and> cloned' = cloned \<and> evs = []"
| "server_follows handle C (e # es) cloned t t' cloned' evs \<longleftrightarrow>
     (\<exists>u. step server_program C t e u \<and>
       (\<exists>new later. server_allows handle cloned t e new \<and>
         server_follows handle C es (clones cloned e) u t' cloned' later \<and> evs = new @ later))"

lemma server_follows_loop:
  "server_loop handle C shell time es t cloned evs \<Longrightarrow> server_follows handle C es' cloned t t' cloned' evs' \<Longrightarrow>
    server_loop handle C shell time (es @ es') t' cloned' (evs @ evs')"
proof (induction es' arbitrary: es t cloned evs evs')
  case (Cons e es')
  then obtain u new later where u: "step server_program C t e u" "server_allows handle cloned t e new"
    and later: "server_follows handle C es' (clones cloned e) u t' cloned' later" "evs' = new @ later" by auto
  from Cons.IH [OF server_next [OF Cons.prems(1) u] later(1)] later(2) show ?case by simp
qed simp

text \<open>A socket arrives, and then a line of its client.\<close>

abbreviation one_client :: server_state where
  "one_client \<equiv> \<lparr>users = [(1, 10)], id_counter = 2, console = [entered_line 1], calls = [((1, 10), entered_line 1)]\<rparr>"

abbreviation one_line :: server_state where
  "one_line \<equiv> \<lparr>users = [(1, 10)], id_counter = 2, console = [entered_line 1, ''001: hi''],
     calls = [((1, 10), entered_line 1), ((1, 10), ''001: hi'')]\<rparr>"

abbreviation sample_handle :: "unit server_event \<Rightarrow> server_state \<Rightarrow> server_state option" where
  "sample_handle \<equiv> server_step (\<lambda>cs. Some (Inr (Inr ()))) id (Pair ())"

abbreviation sample_send :: "unit server_value \<Rightarrow> unit server_value return_envelope" where
  "sample_send p \<equiv> \<lparr>payload = p, return_path = Discard\<rparr>"

abbreviation server_events :: "(server_state, unit server_value) event list" where
  "server_events \<equiv>
     [Start, Read_Empty, Read_Running, Read_Empty, Read_Running, Read_Timer, Send 1 (sample_send (New_Socket ())),
      Receive 1 ''perform_net_listener'' (sample_send (New_Socket ())), Handler_Get_Shell,
      Handler_Return one_client Server_Returns, Respond [], Read_Empty, Read_Running, Read_Empty, Read_Running, Read_Timer,
      Send 0 (sample_send (Relay_Msg (Send_Msg 1 ''hi''))),
      Receive 0 ''perform_msg_relay'' (sample_send (Relay_Msg (Send_Msg 1 ''hi''))),
      Handler_Return one_line Server_Returns]"

lemma sample_handle_results:
  "sample_handle (Listen n ctx client ()) server_default = Some \<lparr>users = [(1, client)], id_counter = 2,
     console = [entered_line 1], calls = [((1, client), entered_line 1)]\<rparr>"
  "sample_handle (Relay (Send_Msg 1 ''hi'')) one_client = Some one_line"
proof -
  have line: "broadcast_line ''hi'' (Some 1) = ''001: hi''" by code_simp
  show "sample_handle (Listen n ctx client ()) server_default = Some \<lparr>users = [(1, client)], id_counter = 2,
     console = [entered_line 1], calls = [((1, client), entered_line 1)]\<rparr>"
    by (simp add: listen_def Client_new_def ActorHandles_new_def Let_def server_default_def broadcast.simps broadcast_line_def)
  show "sample_handle (Relay (Send_Msg 1 ''hi'')) one_client = Some one_line"
    by (simp add: send_msg_def broadcast.simps line)
qed

lemma server_events_loop:
  "\<exists>t evs. server_loop sample_handle fifo_channel 0 0 server_events t False evs \<and> state t = one_line"
proof -
  have "\<exists>t evs. server_follows sample_handle fifo_channel server_events False
      (start_task server_program fifo_channel 0 server_default 0) t False evs \<and> state t = one_line"
    by (simp add: client_eval sample_handle_results server_allows_def clones_def server_message_def msg_relay_def
        net_listener_def get_shell_def numeral_2_eq_2 Ex_less_Suc del: server_step.simps)
  then obtain t evs where "server_follows sample_handle fifo_channel server_events False
      (start_task server_program fifo_channel 0 server_default 0) t False evs" "state t = one_line" by blast
  from server_follows_loop [OF server_start this(1)] this(2) show ?thesis unfolding append_Nil by blast
qed

theorem server_is_room_witness:
  "\<exists>t evs log. server_loop sample_handle fifo_channel 0 0 server_events t False evs \<and>
    console (state t) = map announce log \<and> members {} log = Some {1} \<and>
    (\<exists>rest. [(1, ''hi'')] = filter_unwrap said log @ rest)"
proof -
  obtain t evs where t: "server_loop sample_handle fifo_channel 0 0 server_events t False evs" "state t = one_line"
    using server_events_loop by blast
  have "length (filter_unwrap returned server_events) < 2 ^ 64 - 1" by simp
  from server_is_room [OF fifo_channel_laws reads_all_id t(1) this] obtain log rest where
    "console (state t) = map announce log" "members {} log = Some (fst ` set (users (state t)))"
    "filter_unwrap payload_line (filter_unwrap relayed (sent 0 server_events)) = filter_unwrap said log @ rest" by blast
  moreover have "filter_unwrap payload_line (filter_unwrap relayed (sent 0 server_events)) = [(1, ''hi'')]"
    by (simp add: sent_def relayed_def)
  moreover have "fst ` set (users (state t)) = {1}" by (simp add: t(2))
  ultimately show ?thesis using t(1) by metis
qed

end
