(* ===== verification/Chat_System.thy ===== *)
theory Chat_System
  imports Chat_Server Actor_System
begin

text \<open>
  The whole program of \<open>src/examples/chat.rs\<close>: the server's event loop, the event loop of every client
  that \<open>listen\<close> has started, and the tasks between them, which \<open>feed_to\<close>, \<open>send_when_ready\<close> and dropped
  envelopes have spawned. They take turns in any order. From outside come the sockets, what is
  read from them, and the answers to the server's broadcasts; a handler of the server is one step, so
  the calls of \<open>send_out\<close> that reach the clients are left to the surroundings too.
\<close>

section \<open>The state of the program\<close>

text \<open>
  A client: its task, the tasks its handlers have spawned, the task that waits for its outcome, and
  the one that feeds it, with the items this has taken from the socket.
\<close>

record ('o, 'i, 'q) chat_client =
  cc_setup :: "('o, 'i, client_value) client_setup"
  cc_task :: "('o client_state, 'q, client_value) task"
  cc_events :: "('o client_state, client_value) event list"
  cc_sends :: "spawned_send list"
  cc_exit :: "relay_payload send_task"
  cc_feed :: "client_value feed_task"
  cc_taken :: "(codec_error + string) list"

record ('k, 'o, 'i, 'p, 'q) chat_world =
  cw_task :: "(server_state, 'p, 'k server_value) task"
  cw_cloned :: bool
  cw_events :: "(server_state, 'k server_value) event list"
  cw_handled :: "'k server_event list"
  cw_feed :: "'k server_value feed_task"
  cw_sockets :: "'k list"
  cw_clients :: "('o, 'i, 'q) chat_client list"

text \<open>What the program is run with: the parameters of its parts, and the name of the server's shell.\<close>

record ('k, 'o, 'i, 'p, 'q) chat_parts =
  replies :: env
  read_order :: "client_entry list \<Rightarrow> client_entry list"
  split_socket :: "'k \<Rightarrow> 'o \<times> 'i"
  put_line :: "'o \<Rightarrow> string \<Rightarrow> 'o \<times> (codec_error + unit)"
  server_channel :: "('p, 'k server_value return_envelope) channel"
  client_channel :: "('q, client_value return_envelope) channel"
  server_shell :: shell_ref

abbreviation handle_event ::
  "('k, 'o, 'i, 'p, 'q) chat_parts \<Rightarrow> 'k server_event \<Rightarrow> server_state \<Rightarrow> server_state option" where
  "handle_event X \<equiv> server_step (replies X) (read_order X) (split_socket X)"

definition client_shell :: "('o, 'i, 'q) chat_client \<Rightarrow> shell_ref" where
  "client_shell c = setup_handle (cc_setup c)"

definition client_number :: "('o, 'i, 'q) chat_client \<Rightarrow> usize" where
  "client_number c = cl_id (setup_state (cc_setup c))"

text \<open>The client that \<open>Client::new\<close> has set up, and the program when \<open>main\<close> waits for the server.\<close>

definition new_client ::
  "('q, client_value return_envelope) channel \<Rightarrow> nat \<Rightarrow> ('o, 'i, client_value) client_setup \<Rightarrow> ('o, 'i, 'q) chat_client" where
  "new_client C time setup' =
     \<lparr>cc_setup = setup', cc_task = start_task client_program C (setup_handle setup') (setup_state setup') time,
      cc_events = [], cc_sends = [], cc_exit = setup_exit setup', cc_feed = setup_feed setup', cc_taken = []\<rparr>"

definition new_world ::
  "('k, 'o, 'i, 'p, 'q) chat_parts \<Rightarrow> nat \<Rightarrow> ('k, 'k server_value) chat_setup \<Rightarrow> ('k, 'o, 'i, 'p, 'q) chat_world" where
  "new_world X time main =
     \<lparr>cw_task = start_task server_program (server_channel X) (server_shell X) (main_server main) time,
      cw_cloned = False, cw_events = [], cw_handled = [], cw_feed = main_feed main, cw_sockets = [], cw_clients = []\<rparr>"

section \<open>Messages on their way\<close>

text \<open>What the answer to the \<open>enqueue\<close> a task is at means: the message is accepted, or it is not.\<close>

fun enqueue_answer ::
  "'v enqueue_call option \<Rightarrow> ('v return_envelope + unit) poll \<Rightarrow> (dest \<times> 'v return_envelope \<times> bool) option" where
  "enqueue_answer (Some (d, m)) (Ready r) = Some (d, m, \<not> isl r)"
| "enqueue_answer _ _ = None"

fun send_call :: "'v send_task \<Rightarrow> 'v enqueue_call option" where
  "send_call (Await_Enqueue call) = Some call"
| "send_call _ = None"

fun feed_call :: "'v feed_task \<Rightarrow> 'v enqueue_call option" where
  "feed_call (Feed_Enqueue call) = Some call"
| "feed_call _ = None"

text \<open>A message of \<open>MsgRelay\<close> among the server's; these all discard what is returned.\<close>

definition relay_message :: "relay_payload return_envelope \<Rightarrow> 'k server_value return_envelope" where
  "relay_message m = \<lparr>payload = Relay_Msg (payload m), return_path = Discard\<rparr>"

definition relay_answer ::
  "relay_payload send_task \<Rightarrow> (relay_payload return_envelope + unit) poll \<Rightarrow>
     (dest \<times> 'k server_value return_envelope \<times> bool) option" where
  "relay_answer task enq = map_option (\<lambda>(d, m, ok). (d, relay_message m, ok)) (enqueue_answer (send_call task) enq)"

text \<open>What the exit handle of a client gives the task that polls it.\<close>

definition client_outcome :: "('o client_state, 'q, client_value) task \<Rightarrow> (usize, usize) outcome poll" where
  "client_outcome t =
     (case exit_handle_of t of
        Inr (Ready (Exit (Hook_Value (Client_Number i)))) \<Rightarrow> Ready (Exit i)
      | Inr (Ready (Panic (Hook_Value (Client_Number i)))) \<Rightarrow> Ready (Panic i)
      | _ \<Rightarrow> Pending)"

section \<open>Steps\<close>

definition server_acts ::
  "(server_state, 'k server_value) event \<Rightarrow> 'k server_event list \<Rightarrow> (server_state, 'p, 'k server_value) task \<Rightarrow>
     ('k, 'o, 'i, 'p, 'q) chat_world \<Rightarrow> ('k, 'o, 'i, 'p, 'q) chat_world" where
  "server_acts e new t w =
     w\<lparr>cw_task := t, cw_cloned := clones (cw_cloned w) e, cw_events := cw_events w @ [e], cw_handled := cw_handled w @ new\<rparr>"

definition client_acts ::
  "('o \<Rightarrow> string \<Rightarrow> 'o \<times> (codec_error + unit)) \<Rightarrow> ('o client_state, client_value) event \<Rightarrow>
     ('o client_state, 'q, client_value) task \<Rightarrow> ('o, 'i, 'q) chat_client \<Rightarrow> ('o, 'i, 'q) chat_client" where
  "client_acts put e t c =
     c\<lparr>cc_task := t, cc_events := cc_events c @ [e], cc_sends := cc_sends c @ client_spawns put (cc_task c) e\<rparr>"

definition set_client ::
  "nat \<Rightarrow> ('o, 'i, 'q) chat_client \<Rightarrow> ('k, 'o, 'i, 'p, 'q) chat_world \<Rightarrow> ('k, 'o, 'i, 'p, 'q) chat_world" where
  "set_client j c w = w\<lparr>cw_clients := (cw_clients w)[j := c]\<rparr>"

text \<open>A task's message reaches the server, or a client; the destination names the shell.\<close>

inductive to_server ::
  "('k, 'o, 'i, 'p, 'q) chat_parts \<Rightarrow> ('k, 'o, 'i, 'p, 'q) chat_world \<Rightarrow>
     (dest \<times> 'k server_value return_envelope \<times> bool) option \<Rightarrow> ('k, 'o, 'i, 'p, 'q) chat_world \<Rightarrow> bool"
  for X w
where
  server_not_sent: "to_server X w None w"
| server_sent: "dest_shell d = server_shell X \<Longrightarrow>
    step server_program (server_channel X) (cw_task w) (enqueue_event d m ok) t \<Longrightarrow>
    to_server X w (Some (d, m, ok)) (server_acts (enqueue_event d m ok) [] t w)"

inductive to_client ::
  "('k, 'o, 'i, 'p, 'q) chat_parts \<Rightarrow> ('o, 'i, 'q) chat_client \<Rightarrow>
     (dest \<times> client_value return_envelope \<times> bool) option \<Rightarrow> ('o, 'i, 'q) chat_client \<Rightarrow> bool"
  for X c
where
  client_not_sent: "to_client X c None c"
| client_sent: "dest_shell d = client_shell c \<Longrightarrow>
    step client_program (client_channel X) (cc_task c) (enqueue_event d m ok) t \<Longrightarrow>
    to_client X c (Some (d, m, ok)) (client_acts (put_line X) (enqueue_event d m ok) t c)"

inductive_simps to_server_simps: "to_server X w None w'" "to_server X w (Some (d, m, ok)) w'"
inductive_simps to_client_simps: "to_client X c None c'" "to_client X c (Some (d, m, ok)) c'"

text \<open>The messages that only the spawned tasks send: all of the server's, and the lines read by a client.\<close>

fun message_sent :: "('s, 'v) event \<Rightarrow> 'v return_envelope option" where
  "message_sent (Send k m) = Some m"
| "message_sent (Send_Failed k m) = Some m"
| "message_sent e = None"

fun line_input :: "client_value return_envelope \<Rightarrow> (codec_error + string) option" where
  "line_input m = (case payload m of On_Read val \<Rightarrow> Some val | _ \<Rightarrow> None)"

text \<open>
  The steps: the server's task and its handlers; \<open>ctx.get_shell()\<close> in \<open>listen\<close>, with which
  \<open>Client::new\<close> starts a client on a new shell; a client's task, its handlers and the server's calls of it; a poll of a task
  that relays a line, of the one that waits for a client's outcome, of the one that feeds a client, and of
  the one that feeds the server.
\<close>

datatype ('k, 'o) chat_event =
    Server_Event "(server_state, 'k server_value) event" "'k server_event list"
  | Client_Started shell_ref
  | Client_Event nat "('o client_state, client_value) event"
  | Line_Polled nat nat "(relay_payload return_envelope + unit) poll"
  | Outcome_Polled nat "(relay_payload return_envelope + unit) poll"
  | Input_Polled nat "(codec_error + string) option poll" "(client_value return_envelope + unit) poll"
  | Socket_Polled "'k option poll" "('k server_value return_envelope + unit) poll"

inductive program_step ::
  "('k, 'o, 'i, 'p, 'q) chat_parts \<Rightarrow> ('k, 'o, 'i, 'p, 'q) chat_world \<Rightarrow> ('k, 'o) chat_event \<Rightarrow>
     ('k, 'o, 'i, 'p, 'q) chat_world \<Rightarrow> bool"
  for X w
where
  server_event: "step server_program (server_channel X) (cw_task w) e t \<Longrightarrow>
    server_allows (handle_event X) (cw_cloned w) (cw_task w) e new \<Longrightarrow>
    e \<noteq> Handler_Get_Shell \<Longrightarrow> message_sent e = None \<Longrightarrow>
    \<forall>n ctx shell tcp. new = [Listen n ctx shell tcp] \<longrightarrow> shell = client_shell (last (cw_clients w)) \<Longrightarrow>
    program_step X w (Server_Event e new) (server_acts e new t w)"
| client_started: "phase (cw_task w) = Handling f m \<Longrightarrow> payload m = New_Socket tcp \<Longrightarrow> \<not> cw_cloned w \<Longrightarrow>
    shell \<notin> insert (server_shell X) (client_shell ` set (cw_clients w)) \<Longrightarrow>
    step server_program (server_channel X) (cw_task w) Handler_Get_Shell t \<Longrightarrow>
    made = fst (listen (replies X) (read_order X) (split_socket X) (handles (cw_task w)) (actor_ctx (cw_task w)) shell tcp
      (state (cw_task w))) \<Longrightarrow>
    program_step X w (Client_Started shell)
      ((server_acts Handler_Get_Shell [] t w)
         \<lparr>cw_clients := cw_clients w @ [new_client (client_channel X) (now (cw_task w)) made]\<rparr>)"
| client_event: "j < length (cw_clients w) \<Longrightarrow>
    step client_program (client_channel X) (cc_task (cw_clients w ! j)) e t \<Longrightarrow>
    client_allows (put_line X) (cc_task (cw_clients w ! j)) e \<Longrightarrow>
    Option.bind (message_sent e) line_input = None \<Longrightarrow>
    program_step X w (Client_Event j e) (set_client j (client_acts (put_line X) e t (cw_clients w ! j)) w)"
| line_polled: "j < length (cw_clients w) \<Longrightarrow> c = cw_clients w ! j \<Longrightarrow> i < length (cc_sends c) \<Longrightarrow>
    cc_sends c ! i = (fut, task) \<Longrightarrow>
    send_when_ready_step into_payload_reflexive (fut, enq) task = (task', sent_calls) \<Longrightarrow>
    to_server X (set_client j (c\<lparr>cc_sends := (cc_sends c)[i := (fut, task')]\<rparr>) w) (relay_answer task enq) w' \<Longrightarrow>
    program_step X w (Line_Polled j i enq) w'"
| outcome_polled: "j < length (cw_clients w) \<Longrightarrow> c = cw_clients w ! j \<Longrightarrow>
    send_when_ready_step Client_Leaves (client_outcome (cc_task c), enq) (cc_exit c) = (task', sent_calls) \<Longrightarrow>
    to_server X (set_client j (c\<lparr>cc_exit := task'\<rparr>) w) (relay_answer (cc_exit c) enq) w' \<Longrightarrow>
    program_step X w (Outcome_Polled j enq) w'"
| input_polled: "j < length (cw_clients w) \<Longrightarrow> c = cw_clients w ! j \<Longrightarrow>
    feed_to_step On_Read (nxt, enq) (cc_feed c) = (feed, items, sent_calls) \<Longrightarrow>
    to_client X (c\<lparr>cc_feed := feed, cc_taken := cc_taken c @ items\<rparr>) (enqueue_answer (feed_call (cc_feed c)) enq) c' \<Longrightarrow>
    program_step X w (Input_Polled j nxt enq) (set_client j c' w)"
| socket_polled: "feed_to_step New_Socket (nxt, enq) (cw_feed w) = (feed, items, sent_calls) \<Longrightarrow>
    to_server X (w\<lparr>cw_feed := feed, cw_sockets := cw_sockets w @ items\<rparr>) (enqueue_answer (feed_call (cw_feed w)) enq) w' \<Longrightarrow>
    program_step X w (Socket_Polled nxt enq) w'"

inductive program_run ::
  "('k, 'o, 'i, 'p, 'q) chat_parts \<Rightarrow> ('k, 'o) chat_event list \<Rightarrow> ('k, 'o, 'i, 'p, 'q) chat_world \<Rightarrow> bool"
  for X :: "('k, 'o, 'i, 'p, 'q) chat_parts"
where
  program_starts: "chat_main (listening :: string + unit) (incoming :: unit \<Rightarrow> (string + 'k) option poll list)
      (server_shell X) = Inr main \<Longrightarrow> program_run X [] (new_world X time main)"
| program_goes_on: "program_run X ls w \<Longrightarrow> program_step X w l w' \<Longrightarrow> program_run X (ls @ [l]) w'"

section \<open>The clients\<close>

text \<open>A line on its way to a client, and the lines the client has been sent.\<close>

abbreviation input_call :: "shell_ref \<Rightarrow> codec_error + string \<Rightarrow> client_value enqueue_call" where
  "input_call shell val \<equiv> (net_client shell, \<lparr>payload = On_Read val, return_path = Discard\<rparr>)"

definition inputs_sent :: "shell_ref \<Rightarrow> ('o client_state, client_value) event list \<Rightarrow> client_value enqueue_call list" where
  "inputs_sent shell es = map (Pair (net_client shell)) (filter (\<lambda>m. line_input m \<noteq> None) (sent 0 es))"

definition client_ok :: "('k, 'o, 'i, 'p, 'q) chat_parts \<Rightarrow> ('o, 'i, 'q) chat_client \<Rightarrow> bool" where
  "client_ok X c \<longleftrightarrow>
     (\<exists>time tasks. client_run (put_line X) (client_channel X) (client_shell c) (setup_state (cc_setup c)) time
        (cc_events c) (cc_task c) tasks) \<and>
     cl_relay (setup_state (cc_setup c)) = server_shell X \<and>
     (\<forall>d. cc_exit c = Await_Value d \<longrightarrow> d = msg_relay (server_shell X)) \<and>
     feed_ok (input_call (client_shell c)) (net_client (client_shell c)) (cc_feed c) (cc_taken c)
       (inputs_sent (client_shell c) (cc_events c))"

lemma client_parts [simp]:
  "client_shell (c\<lparr>cc_sends := ts\<rparr>) = client_shell c" "client_shell (c\<lparr>cc_exit := x\<rparr>) = client_shell c"
  "client_shell (c\<lparr>cc_feed := f\<rparr>) = client_shell c" "client_shell (c\<lparr>cc_taken := vs\<rparr>) = client_shell c"
  "client_shell (client_acts put e t c) = client_shell c" "client_shell (new_client C time made) = setup_handle made"
  "client_number (c\<lparr>cc_sends := ts\<rparr>) = client_number c" "client_number (c\<lparr>cc_exit := x\<rparr>) = client_number c"
  "client_number (c\<lparr>cc_feed := f\<rparr>) = client_number c" "client_number (c\<lparr>cc_taken := vs\<rparr>) = client_number c"
  "client_number (client_acts put e t c) = client_number c"
  "client_number (new_client C time made) = cl_id (setup_state made)"
  by (simp_all add: client_shell_def client_number_def client_acts_def new_client_def)

lemma server_acts_simps [simp]:
  "cw_task (server_acts e new t w) = t" "cw_cloned (server_acts e new t w) = clones (cw_cloned w) e"
  "cw_events (server_acts e new t w) = cw_events w @ [e]" "cw_handled (server_acts e new t w) = cw_handled w @ new"
  "cw_clients (server_acts e new t w) = cw_clients w"
  by (simp_all add: server_acts_def)

lemma set_client_simps [simp]:
  "cw_task (set_client j c w) = cw_task w" "cw_cloned (set_client j c w) = cw_cloned w"
  "cw_events (set_client j c w) = cw_events w" "cw_handled (set_client j c w) = cw_handled w"
  "cw_clients (set_client j c w) = (cw_clients w)[j := c]"
  by (simp_all add: set_client_def)

text \<open>The server's context always names its own shell.\<close>

lemma step_shell: "step P C t e t' \<Longrightarrow> shell_handle (actor_ctx t') = shell_handle (actor_ctx t)"
  by (erule step.cases) (auto simp: context_stop_def finish_task_def)

lemma to_server_clients:
  assumes "to_server X w answer w'"
  shows "cw_clients w' = cw_clients w" "shell_handle (actor_ctx (cw_task w')) = shell_handle (actor_ctx (cw_task w))"
  using assms by (induction rule: to_server.induct) (auto dest: step_shell)

lemma listen_made:
  "made = fst (listen env order split n ctx shell tcp self) \<Longrightarrow>
    setup_handle made = shell \<and> cl_id (setup_state made) = id_counter self \<and> cl_relay (setup_state made) = shell_handle ctx \<and>
    setup_exit made = Await_Value (msg_relay (shell_handle ctx)) \<and> setup_feed made = Feed_Next (net_client shell)"
  by (simp add: listen_def Client_new_def Let_def ActorHandles_new_def get_shell_def split: prod.splits)

lemma new_client_ok:
  assumes "made = fst (listen env order split n ctx shell tcp self)" and "shell_handle ctx = server_shell X"
  shows "client_ok X (new_client (client_channel X) time made)"
proof -
  have "\<exists>time' tasks. client_run (put_line X) (client_channel X) (setup_handle made) (setup_state made) time' []
      (start_task client_program (client_channel X) (setup_handle made) (setup_state made) time) tasks"
    using client_start by blast
  with listen_made [OF assms(1)] assms(2) show ?thesis
    by (simp add: client_ok_def new_client_def inputs_sent_def client_shell_def)
qed

lemma client_event_ok:
  assumes "client_ok X c" and "step client_program (client_channel X) (cc_task c) e t"
    and "client_allows (put_line X) (cc_task c) e"
    and "feed_ok (input_call (client_shell c)) (net_client (client_shell c)) feed taken
      (inputs_sent (client_shell c) (cc_events c @ [e]))"
  shows "client_ok X (client_acts (put_line X) e t (c\<lparr>cc_feed := feed, cc_taken := taken\<rparr>))"
  using assms client_next unfolding client_ok_def client_acts_def by (fastforce simp: client_shell_def)

lemma client_event_input:
  assumes "Option.bind (message_sent e) line_input = None"
  shows "inputs_sent shell (es @ [e]) = inputs_sent shell es"
  using assms by (cases e) (auto simp: inputs_sent_def)

lemma feed_call_input:
  assumes "client_ok X c" and "enqueue_answer (feed_call (cc_feed c)) enq = Some (d, m, b)"
  shows "cc_feed c = Feed_Enqueue (d, m) \<and> (\<exists>r. enq = Ready r \<and> b = (\<not> isl r)) \<and> (\<exists>val. (d, m) = input_call (client_shell c) val)"
  using assms by (cases "cc_feed c"; cases enq; auto simp: client_ok_def elim: feed_call.elims)

lemma input_allowed: "client_allows put t (enqueue_event d \<lparr>payload = On_Read val, return_path = Discard\<rparr> b)"
  by (simp add: client_allows_def client_message_def enqueue_event_def)

lemma input_polled_ok:
  assumes "client_ok X c" and "feed_to_step On_Read (nxt, enq) (cc_feed c) = (feed, items, sent_calls)"
    and "to_client X (c\<lparr>cc_feed := feed, cc_taken := cc_taken c @ items\<rparr>) (enqueue_answer (feed_call (cc_feed c)) enq) c'"
  shows "client_ok X c'"
proof -
  let ?shell = "client_shell c"
  have ok: "feed_ok (input_call ?shell) (net_client ?shell) (cc_feed c) (cc_taken c) (inputs_sent ?shell (cc_events c))"
    using assms(1) by (simp add: client_ok_def)
  from feed_to_step_ok [OF assms(2) this]
  have feed: "feed_ok (input_call ?shell) (net_client ?shell) feed (cc_taken c @ items)
      (inputs_sent ?shell (cc_events c) @ sent_calls)" .
  show ?thesis using assms(3)
  proof cases
    case client_not_sent
    then have "sent_calls = []"
      using assms(2) by (cases "cc_feed c"; cases enq; auto split: poll.splits option.splits)
    with assms(1) feed client_not_sent show ?thesis by (auto simp: client_ok_def client_shell_def)
  next
    case (client_sent d m ok t)
    then obtain r val where call: "cc_feed c = Feed_Enqueue (d, m)" "enq = Ready r" "ok = (\<not> isl r)"
      and val: "d = net_client ?shell" "m = \<lparr>payload = On_Read val, return_path = Discard\<rparr>"
      using feed_call_input [OF assms(1)] by fastforce
    have "sent_calls = (if ok then [(d, m)] else [])" using assms(2) call by (cases r) auto
    with val have "inputs_sent ?shell (cc_events c @ [enqueue_event d m ok]) = inputs_sent ?shell (cc_events c) @ sent_calls"
      by (simp add: inputs_sent_def enqueue_event_def net_client_def)
    moreover have "client_allows (put_line X) (cc_task c) (enqueue_event d m ok)"
      by (simp add: val input_allowed)
    ultimately show ?thesis
      using client_event_ok [OF assms(1)] client_sent(2,4) feed by simp
  qed
qed

lemma chat_clients_ok:
  "program_run X ls w \<Longrightarrow> shell_handle (actor_ctx (cw_task w)) = server_shell X \<and> (\<forall>c\<in>set (cw_clients w). client_ok X c)"
proof (induction rule: program_run.induct)
  case (program_starts listening incoming main time)
  then show ?case by (simp add: new_world_def start_task_def Context_new_def)
next
  case (program_goes_on ls w l w')
  note ctx = program_goes_on.IH [THEN conjunct1] and ok = program_goes_on.IH [THEN conjunct2, rule_format, OF nth_mem]
  have keep: "\<forall>c\<in>set ((cw_clients w)[j := c']). client_ok X c" if "client_ok X c'" for j c'
    using that program_goes_on.IH set_update_subset_insert [of "cw_clients w" j c'] by blast
  show ?case using program_goes_on.hyps(2)
  proof cases
    case (server_event e t new)
    then show ?thesis using program_goes_on.IH step_shell by fastforce
  next
    case (client_started f m tcp shell t made)
    then show ?thesis using program_goes_on.IH step_shell new_client_ok [OF _ ctx] by fastforce
  next
    case (client_event j e t)
    then have "client_ok X (client_acts (put_line X) e t (cw_clients w ! j))"
      using client_event_ok [OF ok, of j e t "cc_feed (cw_clients w ! j)" "cc_taken (cw_clients w ! j)"]
        client_event_input [of e] ok [of j] by (simp add: client_ok_def)
    with keep ctx client_event(2) show ?thesis by simp
  next
    case (line_polled j c i fut task enq task' sent_calls)
    then have "client_ok X (c\<lparr>cc_sends := (cc_sends c)[i := (fut, task')]\<rparr>)" using ok [of j] by (simp add: client_ok_def)
    with keep ctx to_server_clients [OF line_polled(7)] show ?thesis by simp
  next
    case (outcome_polled j c enq task' sent_calls)
    then have "client_ok X (c\<lparr>cc_exit := task'\<rparr>)"
      using ok [of j] by (cases "cc_exit c") (auto simp: client_ok_def split: poll.splits sum.splits)
    with keep ctx to_server_clients [OF outcome_polled(5)] show ?thesis by simp
  next
    case (input_polled j c nxt enq feed items sent_calls c')
    have "client_ok X c'"
      using input_polled_ok [OF _ input_polled(5,6)] ok [of j] input_polled(3,4) by simp
    with keep ctx input_polled(2) show ?thesis by simp
  next
    case (socket_polled nxt enq feed items sent_calls)
    with program_goes_on.IH to_server_clients [OF socket_polled(3)] show ?thesis by simp
  qed
qed

end
