(* ===== verification/Chat_Program.thy ===== *)
theory Chat_Program
  imports Chat_System
begin

text \<open>
  The chat program keeps its promises as a whole: every message to the server comes from a client, once;
  the server's map has the program's clients; and with what \<open>Chat_Room\<close> and \<open>Chat_Server\<close> show, what is said in
  the room are the lines taken from the clients' sockets.
\<close>

section \<open>What is sent to the relay\<close>

text \<open>
  The messages to the relay that a client has given rise to, by the lines its handlers have read and by
  its end, and those that its tasks have still to send.
\<close>

abbreviation relay_call :: "('k, 'o, 'i, 'p, 'q) chat_parts \<Rightarrow> relay_payload \<Rightarrow> relay_call" where
  "relay_call X p \<equiv> (msg_relay (server_shell X), \<lparr>payload = p, return_path = Discard\<rparr>)"

fun outcome_calls :: "dest \<Rightarrow> (usize, usize) outcome poll \<Rightarrow> relay_call multiset" where
  "outcome_calls d (Ready result) = {#(d, \<lparr>payload = Client_Leaves result, return_path = Discard\<rparr>)#}"
| "outcome_calls d Pending = {#}"

fun exit_to_send :: "(usize, usize) outcome poll \<Rightarrow> relay_payload send_task \<Rightarrow> relay_call multiset" where
  "exit_to_send result (Await_Value d) = outcome_calls d result"
| "exit_to_send result (Await_Enqueue call) = {#call#}"
| "exit_to_send result Send_Done = {#}"

definition calls_pending :: "('o, 'i, 'q) chat_client \<Rightarrow> relay_call multiset" where
  "calls_pending c = sum_list (map to_send (cc_sends c)) + exit_to_send (client_outcome (cc_task c)) (cc_exit c)"

definition calls_made :: "('o, 'i, 'q) chat_client \<Rightarrow> relay_call multiset" where
  "calls_made c =
     sum_list (map to_send (map (relay_task (setup_state (cc_setup c))) (lines_read (cc_events c)))) +
     outcome_calls (msg_relay (cl_relay (setup_state (cc_setup c)))) (client_outcome (cc_task c))"

definition calls_sent ::
  "('k, 'o, 'i, 'p, 'q) chat_parts \<Rightarrow> (server_state, 'k server_value) event list \<Rightarrow> relay_call multiset" where
  "calls_sent X es = mset (map (relay_call X) (filter_unwrap relayed (sent 0 es)))"

definition accounts :: "('k, 'o, 'i, 'p, 'q) chat_parts \<Rightarrow> ('k, 'o, 'i, 'p, 'q) chat_world \<Rightarrow> bool" where
  "accounts X w \<longleftrightarrow>
     calls_sent X (cw_events w) + sum_list (map calls_pending (cw_clients w)) \<subseteq># sum_list (map calls_made (cw_clients w))"

text \<open>A poll takes from what is to be sent what is accepted.\<close>

lemma send_when_ready_calls:
  "send_when_ready_step into (fut, enq) task = (task', cs) \<Longrightarrow>
    cs = (case enqueue_answer (send_call task) enq of Some (d, m, ok) \<Rightarrow> if ok then [(d, m)] else [] | None \<Rightarrow> [])"
  by (cases task; cases enq; auto split: poll.splits sum.splits)

lemma exit_to_send_step:
  "send_when_ready_step Client_Leaves (fut, enq) task = (task', cs) \<Longrightarrow>
    mset cs + exit_to_send fut task' \<subseteq># exit_to_send fut task"
  by (cases task; cases fut; cases enq) (auto split: sum.splits)

lemma send_call_pending:
  "send_call task = Some call \<Longrightarrow> call \<in># to_send (fut, task) \<and> call \<in># exit_to_send result task"
  by (cases task) auto

lemma in_sum_list_mset: "x \<in># sum_list ms \<longleftrightarrow> (\<exists>M\<in>set ms. x \<in># M)"
  by (induction ms) auto

lemma client_outcome_final:
  "client_outcome t = Ready r \<Longrightarrow> step P C t e t' \<Longrightarrow> client_outcome t' = Ready r"
proof -
  assume "client_outcome t = Ready r" and step: "step P C t e t'"
  then obtain v where v: "phase t = Finished v"
    by (auto simp: client_outcome_def exit_handle_of_def split: phase.splits)
  from step v have "phase t' = phase t" by cases auto
  with \<open>client_outcome t = Ready r\<close> show ?thesis by (simp add: client_outcome_def exit_handle_of_def)
qed

lemma add_shuffle: "(a + b) + (c + d) = (a + c) + (b + (d :: 'a :: comm_monoid_add))"
  by (simp add: ac_simps)

lemma calls_of_client_step:
  assumes "client_run (put_line X) (client_channel X) (client_shell c) (setup_state (cc_setup c)) time (cc_events c) (cc_task c) tasks"
    and "cl_relay (setup_state (cc_setup c)) = server_shell X"
    and "\<forall>d. cc_exit c = Await_Value d \<longrightarrow> d = msg_relay (server_shell X)"
    and "step client_program (client_channel X) (cc_task c) e t" and "client_allows (put_line X) (cc_task c) e"
  shows "\<exists>D. calls_made (client_acts (put_line X) e t c) = calls_made c + D \<and>
    calls_pending (client_acts (put_line X) e t c) \<subseteq># calls_pending c + D"
proof -
  let ?s = "setup_state (cc_setup c)" and ?spawned = "client_spawns (put_line X) (cc_task c) e"
  have lines: "map (relay_task ?s) (lines_read (cc_events c @ [e])) = map (relay_task ?s) (lines_read (cc_events c)) @ ?spawned"
    using client_run_tasks [OF client_next [OF assms(1,4,5)]] client_run_tasks [OF assms(1)] by simp
  define E where "E = (if client_outcome (cc_task c) = Pending then outcome_calls (msg_relay (server_shell X)) (client_outcome t) else {#})"
  have out: "outcome_calls (msg_relay (server_shell X)) (client_outcome t) =
      outcome_calls (msg_relay (server_shell X)) (client_outcome (cc_task c)) + E"
    using client_outcome_final [OF _ assms(4)] by (cases "client_outcome (cc_task c)") (simp_all add: E_def)
  then have exit: "exit_to_send (client_outcome t) (cc_exit c) \<subseteq># exit_to_send (client_outcome (cc_task c)) (cc_exit c) + E"
    using assms(3) by (cases "cc_exit c") auto
  define D where "D = sum_list (map to_send ?spawned) + E"
  have made: "calls_made (client_acts (put_line X) e t c) = calls_made c + D"
    by (simp add: calls_made_def client_acts_def assms(2) lines out D_def del: map_map)
  have "calls_pending (client_acts (put_line X) e t c) =
      sum_list (map to_send (cc_sends c)) + sum_list (map to_send ?spawned) + exit_to_send (client_outcome t) (cc_exit c)"
    by (simp add: calls_pending_def client_acts_def)
  also have "\<dots> \<subseteq># sum_list (map to_send (cc_sends c)) + sum_list (map to_send ?spawned) +
      (exit_to_send (client_outcome (cc_task c)) (cc_exit c) + E)"
    using exit by (rule subset_mset.add_left_mono)
  also have "\<dots> = calls_pending c + D" unfolding calls_pending_def D_def by (rule add_shuffle)
  finally have "calls_pending (client_acts (put_line X) e t c) \<subseteq># calls_pending c + D" .
  with made show ?thesis by (intro exI conjI)
qed

lemma calls_made_relay:
  assumes "client_ok X c" and "call \<in># calls_made c"
  shows "\<exists>p. call = relay_call X p"
  using assms by (cases "client_outcome (cc_task c)")
    (auto simp: calls_made_def client_ok_def relay_task_def in_sum_list_mset)

lemma pending_call:
  assumes "accounts X w" and "\<forall>c\<in>set (cw_clients w). client_ok X c" and "j < length (cw_clients w)"
    and "call \<in># calls_pending (cw_clients w ! j)"
  shows "\<exists>p. call = relay_call X p"
proof -
  have "call \<in># sum_list (map calls_pending (cw_clients w))" using assms(3,4) by (auto simp: in_sum_list_mset)
  then have "call \<in># calls_sent X (cw_events w) + sum_list (map calls_pending (cw_clients w))" by simp
  then have "call \<in># sum_list (map calls_made (cw_clients w))"
    by (rule mset_subset_eqD [OF assms(1) [unfolded accounts_def]])
  then obtain c where c: "c \<in> set (cw_clients w)" "call \<in># calls_made c" by (auto simp: in_sum_list_mset)
  show ?thesis by (rule calls_made_relay [OF assms(2) [rule_format, OF c(1)] c(2)])
qed

section \<open>The server in the program\<close>

abbreviation socket_call :: "shell_ref \<Rightarrow> 'k \<Rightarrow> 'k server_value enqueue_call" where
  "socket_call shell tcp \<equiv> (net_listener shell, \<lparr>payload = New_Socket tcp, return_path = Discard\<rparr>)"

definition server_ok :: "('k, 'o, 'i, 'p, 'q) chat_parts \<Rightarrow> ('k, 'o, 'i, 'p, 'q) chat_world \<Rightarrow> bool" where
  "server_ok X w \<longleftrightarrow>
     (\<exists>time. server_loop (handle_event X) (server_channel X) (server_shell X) time (cw_events w) (cw_task w) (cw_cloned w)
        (cw_handled w)) \<and>
     feed_ok (socket_call (server_shell X)) (net_listener (server_shell X)) (cw_feed w) (cw_sockets w)
       (map (Pair (net_listener (server_shell X))) (sent 1 (cw_events w))) \<and>
     accounts X w"

lemma clones_enqueue [simp]: "clones cloned (enqueue_event d m ok) = cloned"
  by (simp add: clones_def enqueue_event_def)

lemma server_loop_sends:
  assumes "server_loop handle C shell time es t cloned evs" and "step server_program C t (enqueue_event d m ok) t'"
    and "server_message (dest_role d) m"
  shows "server_loop handle C shell time (es @ [enqueue_event d m ok]) t' cloned evs"
proof -
  have "server_allows handle cloned t (enqueue_event d m ok) []"
    using assms(3) by (simp add: server_allows_def enqueue_event_def)
  from server_next [OF assms(1,2) this] show ?thesis by simp
qed

lemma sent_enqueue:
  "sent k (es @ [enqueue_event d m ok]) = sent k es @ (if ok \<and> dest_role d = k then [m] else [])"
  by (simp add: enqueue_event_def)

text \<open>What a client has still to send is taken from it, and given to the server.\<close>

lemma relay_polled_ok:
  assumes "server_ok X w" and "\<forall>c\<in>set (cw_clients w). client_ok X c" and "j < length (cw_clients w)"
    and "calls_made c' = calls_made (cw_clients w ! j)" and "mset cs + calls_pending c' \<subseteq># calls_pending (cw_clients w ! j)"
    and "\<And>call. send_call task = Some call \<Longrightarrow> call \<in># calls_pending (cw_clients w ! j)"
    and "cs = (case enqueue_answer (send_call task) enq of Some (d, m, ok) \<Rightarrow> if ok then [(d, m)] else [] | None \<Rightarrow> [])"
    and "to_server X (set_client j c' w) (relay_answer task enq) w'"
  shows "server_ok X w'"
proof -
  note ok = assms(1) [unfolded server_ok_def]
  have "calls_sent X (cw_events w) + (mset cs + sum_list (map calls_pending ((cw_clients w)[j := c']))) \<subseteq>#
      calls_sent X (cw_events w) + sum_list (map calls_pending (cw_clients w))"
    by (rule subset_mset.add_left_mono) (rule sum_update_mset [OF assms(3,5)])
  also have "\<dots> \<subseteq># sum_list (map calls_made (cw_clients w))"
    using ok by (simp add: accounts_def)
  also have "\<dots> = sum_list (map calls_made ((cw_clients w)[j := c']))"
    using assms(3,4) by (simp add: sum_update_same)
  finally have acc: "calls_sent X (cw_events w) + (mset cs + sum_list (map calls_pending ((cw_clients w)[j := c']))) \<subseteq>#
      sum_list (map calls_made ((cw_clients w)[j := c']))" .
  show ?thesis
  proof (cases "enqueue_answer (send_call task) enq")
    case None
    then have "w' = set_client j c' w" "cs = []"
      using assms(7,8) by (simp_all add: relay_answer_def to_server_simps)
    with ok acc show ?thesis by (simp add: server_ok_def accounts_def set_client_def)
  next
    case (Some answer)
    then obtain d m b where answer: "enqueue_answer (send_call task) enq = Some (d, m, b)" by (cases answer) auto
    then have "send_call task = Some (d, m)" by (auto elim!: enqueue_answer.elims)
    from pending_call [OF _ assms(2,3) assms(6) [OF this]] ok
    obtain p where p: "d = msg_relay (server_shell X)" "m = \<lparr>payload = p, return_path = Discard\<rparr>" by auto
    from answer assms(8) obtain t where
      t: "step server_program (server_channel X) (cw_task w) (enqueue_event d (relay_message m) b) t"
      and w': "w' = server_acts (enqueue_event d (relay_message m) b) [] t (set_client j c' w)"
      by (auto simp: relay_answer_def to_server_simps)
    have cs: "cs = (if b then [(d, m)] else [])" using answer assms(7) by simp
    have "calls_sent X (cw_events w @ [enqueue_event d (relay_message m) b]) = calls_sent X (cw_events w) + mset cs"
      unfolding calls_sent_def sent_enqueue by (simp add: cs p msg_relay_def relay_message_def relayed_def)
    with acc have "accounts X w'" by (simp add: accounts_def w' add.assoc)
    moreover have "server_message (dest_role d) (relay_message m)"
      by (simp add: p relay_message_def server_message_def msg_relay_def)
    then have "\<exists>time. server_loop (handle_event X) (server_channel X) (server_shell X) time (cw_events w') (cw_task w')
        (cw_cloned w') (cw_handled w')"
      using ok server_loop_sends [OF _ t] by (simp add: w') blast
    moreover have "sent 1 (cw_events w') = sent 1 (cw_events w)"
      unfolding w' server_acts_simps set_client_simps sent_enqueue by (simp add: p msg_relay_def)
    ultimately show ?thesis using ok by (simp add: server_ok_def w' server_acts_def set_client_def)
  qed
qed

lemma socket_polled_ok:
  assumes "server_ok X w" and "feed_to_step New_Socket (nxt, enq) (cw_feed w) = (feed, items, sent_calls)"
    and "to_server X (w\<lparr>cw_feed := feed, cw_sockets := cw_sockets w @ items\<rparr>) (enqueue_answer (feed_call (cw_feed w)) enq) w'"
  shows "server_ok X w'"
proof -
  let ?home = "server_shell X"
  note ok = assms(1) [unfolded server_ok_def]
  have feed: "feed_ok (socket_call ?home) (net_listener ?home) feed (cw_sockets w @ items)
      (map (Pair (net_listener ?home)) (sent 1 (cw_events w)) @ sent_calls)"
    using feed_to_step_ok [OF assms(2)] ok by blast
  show ?thesis using assms(3)
  proof cases
    case server_not_sent
    then have "sent_calls = []"
      using assms(2) by (cases "cw_feed w"; cases enq; auto split: poll.splits option.splits)
    with ok feed server_not_sent show ?thesis by (simp add: server_ok_def accounts_def)
  next
    case (server_sent d m b t)
    then obtain r where call: "cw_feed w = Feed_Enqueue (d, m)" "enq = Ready r" "b = (\<not> isl r)"
      by (cases "cw_feed w"; cases enq; auto elim: feed_call.elims)
    with ok obtain tcp where tcp: "d = net_listener ?home" "m = \<lparr>payload = New_Socket tcp, return_path = Discard\<rparr>" by auto
    have calls: "sent_calls = (if b then [(d, m)] else [])" using assms(2) call by (cases r) auto
    have t: "step server_program (server_channel X) (cw_task w) (enqueue_event d m b) t" using server_sent(4) by simp
    have "server_message (dest_role d) m" by (simp add: tcp server_message_def net_listener_def)
    then have "\<exists>time. server_loop (handle_event X) (server_channel X) ?home time (cw_events w @ [enqueue_event d m b]) t
        (cw_cloned w) (cw_handled w)"
      using ok server_loop_sends [OF _ t] by blast
    moreover have "sent 0 (cw_events w @ [enqueue_event d m b]) = sent 0 (cw_events w)"
      unfolding sent_enqueue by (simp add: tcp net_listener_def)
    moreover have "map (Pair (net_listener ?home)) (sent 1 (cw_events w @ [enqueue_event d m b])) =
        map (Pair (net_listener ?home)) (sent 1 (cw_events w)) @ sent_calls"
      unfolding sent_enqueue by (simp add: tcp calls net_listener_def)
    ultimately show ?thesis
      using ok feed unfolding server_sent(2) by (simp add: server_ok_def accounts_def calls_sent_def server_acts_def)
  qed
qed

lemma server_event_ok:
  assumes "server_ok X w" and "step server_program (server_channel X) (cw_task w) e t"
    and "server_allows (handle_event X) (cw_cloned w) (cw_task w) e new" and "message_sent e = None"
  shows "server_ok X (server_acts e new t w)"
proof -
  have "\<exists>time. server_loop (handle_event X) (server_channel X) (server_shell X) time (cw_events w @ [e]) t
      (clones (cw_cloned w) e) (cw_handled w @ new)"
    using assms(1) server_next [OF _ assms(2,3)] unfolding server_ok_def by blast
  moreover have "sent k (cw_events w @ [e]) = sent k (cw_events w)" for k
    using assms(4) by (cases e) auto
  ultimately show ?thesis
    using assms(1) by (simp add: server_ok_def accounts_def calls_sent_def) (simp add: server_acts_def)
qed

text \<open>A client that acts makes what it has then still to send.\<close>

lemma client_acts_accounts:
  assumes "accounts X w" and "j < length (cw_clients w)" and "client_ok X (cw_clients w ! j)"
    and "cc_setup c = cc_setup (cw_clients w ! j)" "cc_task c = cc_task (cw_clients w ! j)"
      "cc_events c = cc_events (cw_clients w ! j)" "cc_sends c = cc_sends (cw_clients w ! j)" "cc_exit c = cc_exit (cw_clients w ! j)"
    and "step client_program (client_channel X) (cc_task c) e t" and "client_allows (put_line X) (cc_task c) e"
  shows "accounts X (set_client j (client_acts (put_line X) e t c) w)"
proof -
  let ?c = "cw_clients w ! j" and ?c' = "client_acts (put_line X) e t c"
  obtain time tasks where run: "client_run (put_line X) (client_channel X) (client_shell c) (setup_state (cc_setup c)) time
      (cc_events c) (cc_task c) tasks"
    using assms(3-6) by (auto simp: client_ok_def client_shell_def)
  have "cl_relay (setup_state (cc_setup c)) = server_shell X"
    "\<forall>d. cc_exit c = Await_Value d \<longrightarrow> d = msg_relay (server_shell X)"
    using assms(3-8) by (simp_all add: client_ok_def)
  from calls_of_client_step [OF run this assms(9,10)] obtain D where
    D: "calls_made ?c' = calls_made ?c + D" "calls_pending ?c' \<subseteq># calls_pending ?c + D"
    using assms(4-8) by (auto simp: calls_made_def calls_pending_def)
  let ?cs = "cw_clients w" and ?cs' = "(cw_clients w)[j := ?c']"
  have "sum_list (map calls_made ?cs') = sum_list (map calls_made ?cs) + D"
    using sum_list_update_add [OF assms(2), of calls_made ?c'] by (simp add: D(1) ac_simps)
  then have made: "\<dots> = sum_list (map calls_made ?cs')" by (rule sym)
  have "sum_list (map calls_pending ?cs') + calls_pending ?c = sum_list (map calls_pending ?cs) + calls_pending ?c'"
    by (rule sum_list_update_add [OF assms(2)])
  then have "sum_list (map calls_pending ?cs') + calls_pending ?c \<subseteq># (sum_list (map calls_pending ?cs) + D) + calls_pending ?c"
    using subset_mset.add_left_mono [OF D(2), of "sum_list (map calls_pending ?cs)"] by (simp add: ac_simps)
  then have "sum_list (map calls_pending ?cs') \<subseteq># sum_list (map calls_pending ?cs) + D" by simp
  then have "calls_sent X (cw_events w) + sum_list (map calls_pending ?cs') \<subseteq>#
      calls_sent X (cw_events w) + (sum_list (map calls_pending ?cs) + D)"
    by (rule subset_mset.add_left_mono)
  also have "\<dots> = (calls_sent X (cw_events w) + sum_list (map calls_pending ?cs)) + D" by (simp add: add.assoc)
  also have "\<dots> \<subseteq># sum_list (map calls_made ?cs) + D"
    by (rule subset_mset.add_right_mono) (use assms(1) in \<open>simp add: accounts_def\<close>)
  also note made
  finally show ?thesis by (simp add: accounts_def)
qed

lemma server_ok_clients:
  assumes "server_ok X w" and "accounts X (w\<lparr>cw_clients := cs\<rparr>)"
  shows "server_ok X (w\<lparr>cw_clients := cs\<rparr>)"
  using assms by (simp add: server_ok_def)

lemma new_client_accounts:
  assumes "accounts X w" and "made = fst (listen env order split n ctx shell tcp self)"
  shows "accounts X (w\<lparr>cw_clients := cw_clients w @ [new_client C time made]\<rparr>)"
proof -
  have "client_outcome (start_task client_program C (setup_handle made) (setup_state made) time) = Pending"
    by (simp add: client_outcome_def exit_handle_of_def start_task_def)
  then have "calls_pending (new_client C time made) = {#}" "calls_made (new_client C time made) = {#}"
    using listen_made [OF assms(2)] by (simp_all add: calls_pending_def calls_made_def new_client_def lines_read_def)
  with assms(1) show ?thesis by (simp add: accounts_def)
qed

lemma sends_step_pending:
  assumes "i < length (cc_sends c)" and "cc_sends c ! i = (fut, task)"
    and "send_when_ready_step into_payload_reflexive (fut, enq) task = (task', cs)"
  shows "mset cs + calls_pending (c\<lparr>cc_sends := (cc_sends c)[i := (fut, task')]\<rparr>) \<subseteq># calls_pending c"
    "send_call task = Some call \<Longrightarrow> call \<in># calls_pending c"
proof -
  have "mset cs + sum_list (map to_send ((cc_sends c)[i := (fut, task')])) \<subseteq># sum_list (map to_send (cc_sends c))"
    by (rule sum_update_mset [OF assms(1)]) (use to_send_step [OF assms(3)] assms(2) in simp)
  from subset_mset.add_right_mono [OF this] show
    "mset cs + calls_pending (c\<lparr>cc_sends := (cc_sends c)[i := (fut, task')]\<rparr>) \<subseteq># calls_pending c"
    by (simp add: calls_pending_def add.assoc)
  show "send_call task = Some call \<Longrightarrow> call \<in># calls_pending c"
    using nth_mem [OF assms(1)] send_call_pending [of task call fut] assms(2)
    by (force simp: calls_pending_def in_sum_list_mset)
qed

lemma exit_step_pending:
  assumes "send_when_ready_step Client_Leaves (client_outcome (cc_task c), enq) (cc_exit c) = (task', cs)"
  shows "mset cs + calls_pending (c\<lparr>cc_exit := task'\<rparr>) \<subseteq># calls_pending c"
    "send_call (cc_exit c) = Some call \<Longrightarrow> call \<in># calls_pending c"
proof -
  from subset_mset.add_left_mono [OF exit_to_send_step [OF assms], of "sum_list (map to_send (cc_sends c))"]
  show "mset cs + calls_pending (c\<lparr>cc_exit := task'\<rparr>) \<subseteq># calls_pending c"
    by (simp add: calls_pending_def add.left_commute)
  show "send_call (cc_exit c) = Some call \<Longrightarrow> call \<in># calls_pending c"
    using send_call_pending [of "cc_exit c" call] by (auto simp: calls_pending_def)
qed

lemma calls_made_tasks [simp]:
  "calls_made (c\<lparr>cc_sends := ts\<rparr>) = calls_made c" "calls_made (c\<lparr>cc_exit := x\<rparr>) = calls_made c"
  by (simp_all add: calls_made_def)

lemma program_server_ok: "program_run X ls w \<Longrightarrow> server_ok X w"
proof (induction rule: program_run.induct)
  case (program_starts listening incoming main time)
  then have "main_server main = server_default" "main_feed main = Feed_Next (net_listener (server_shell X))"
    by (auto simp: chat_main_def Let_def ActorHandles_new_def split: sum.splits)
  then show ?case
    using server_start [of "handle_event X" "server_channel X" "server_shell X" time]
    by (auto simp: server_ok_def new_world_def accounts_def calls_sent_def)
next
  case (program_goes_on ls w l w')
  note server = program_goes_on.IH and clients = chat_clients_ok [OF program_goes_on.hyps(1), THEN conjunct2]
  note acc = server [unfolded server_ok_def, THEN conjunct2, THEN conjunct2]
  have set_client_ok: "server_ok X (set_client j c w)" if "accounts X (set_client j c w)" for j c
    using server_ok_clients [OF server] that by (simp add: set_client_def)
  show ?case using program_goes_on.hyps(2)
  proof cases
    case (server_event e t new)
    with server_event_ok [OF server] show ?thesis by simp
  next
    case (client_started f m tcp shell t made)
    have "server_ok X (server_acts Handler_Get_Shell [] t w)"
      using server_event_ok [OF server client_started(7)] client_started(3-5) by (simp add: server_allows_def)
    then show ?thesis
      using server_ok_clients [OF _ new_client_accounts [OF _ client_started(8)]] client_started(2)
      by (fastforce simp: server_ok_def)
  next
    case (client_event j e t)
    then show ?thesis
      using set_client_ok client_acts_accounts [OF acc client_event(3) clients [rule_format, OF nth_mem]] by simp
  next
    case (line_polled j c i fut task enq task' sent_calls)
    show ?thesis
      using relay_polled_ok [OF server clients line_polled(2) _ _ _ send_when_ready_calls [OF line_polled(6)] line_polled(7)]
        sends_step_pending [OF line_polled(4-6)] line_polled(3) by simp
  next
    case (outcome_polled j c enq task' sent_calls)
    show ?thesis
      using relay_polled_ok [OF server clients outcome_polled(2) _ _ _ send_when_ready_calls [OF outcome_polled(4)] outcome_polled(5)]
        exit_step_pending [OF outcome_polled(4)] outcome_polled(3) by simp
  next
    case (input_polled j c nxt enq feed items sent_calls c')
    show ?thesis using input_polled(6)
    proof cases
      case client_not_sent
      then have "calls_made c' = calls_made (cw_clients w ! j)" "calls_pending c' = calls_pending (cw_clients w ! j)"
        by (simp_all add: calls_made_def calls_pending_def input_polled(4))
      then have "accounts X (set_client j c' w)"
        using acc input_polled(3) by (simp add: accounts_def sum_update_same)
      with set_client_ok input_polled(2) show ?thesis by simp
    next
      case (client_sent d m b t)
      have "client_ok X c" using clients input_polled(3,4) by simp
      from feed_call_input [OF this client_sent(1)]
      have "client_allows (put_line X) (cc_task c) (enqueue_event d m b)" by (auto simp: input_allowed)
      then have "accounts X (set_client j c' w)" 
        using client_acts_accounts [OF acc input_polled(3) clients [rule_format, OF nth_mem [OF input_polled(3)]]] client_sent
          input_polled(4) by simp
      with set_client_ok input_polled(2) show ?thesis by simp
    qed
  next
    case (socket_polled nxt enq feed items sent_calls)
    with socket_polled_ok [OF server] show ?thesis by simp
  qed
qed

section \<open>Who the clients are\<close>

text \<open>
  Clients are numbered as they are started; the server's map only has clients of the program, each under its
  number and with its own shell. The last one is not yet in the map while \<open>listen\<close> is at work.
\<close>

definition registry :: "('o, 'i, 'q) chat_client list \<Rightarrow> client_entry set" where
  "registry cs = (\<lambda>c. (client_number c, client_shell c)) ` set cs"

definition clients_numbered :: "('k, 'o, 'i, 'p, 'q) chat_parts \<Rightarrow> ('k, 'o, 'i, 'p, 'q) chat_world \<Rightarrow> bool" where
  "clients_numbered X w \<longleftrightarrow>
     map client_number (cw_clients w) = map of_nat [1..<Suc (length (cw_clients w))] \<and>
     length (cw_clients w) = arrivals (cw_handled w) + of_bool (cw_cloned w) \<and>
     id_counter (state (cw_task w)) = of_nat (Suc (arrivals (cw_handled w))) \<and>
     set (users (state (cw_task w))) \<subseteq> registry (cw_clients w) \<and>
     distinct (server_shell X # map client_shell (cw_clients w))"

lemma relay_users:
  assumes "reads_all order" and "relay_dispatch env order p self = Some self'"
  shows "id_counter self' = id_counter self \<and> set (users self') \<subseteq> set (users self)"
proof (cases p)
  case (Send_Msg i msg)
  with assms(2) have "broadcast env order msg (Some i) self = Some self'" by (simp add: send_msg_def)
  with broadcast_removed(1) [OF assms(1)] show ?thesis by (fastforce dest: removedD(3,4))
next
  case (Client_Leaves result)
  with assms(2) obtain i where "remove_client env order i self = Some self'" by (auto simp: client_leaves_def)
  with broadcast_removed(3) [OF assms(1)] show ?thesis by (fastforce dest: removedD(3,4))
qed

lemma listen_users:
  assumes "reads_all order" and "snd (listen env order split n ctx shell tcp self) = Some self'"
  shows "id_counter self' = id_counter self + 1 \<and> set (users self') \<subseteq> insert (id_counter self, shell) (set (users self))"
proof -
  have "broadcast env order (entered_line (id_counter self)) None (self\<lparr>id_counter := id_counter self + 1,
      users := (id_counter self, shell) # filter (\<lambda>u. fst u \<noteq> id_counter self) (users self)\<rparr>) = Some self'"
    using assms(2) by (simp add: listen_def Client_new_def Let_def ActorHandles_new_def split: prod.splits)
  from broadcast_removed(1) [OF assms(1) this] obtain gone new where
    "removed env {} gone new (self\<lparr>id_counter := id_counter self + 1, users := (id_counter self, shell) #
      filter (\<lambda>u. fst u \<noteq> id_counter self) (users self), console := console self @ [entered_line (id_counter self)]\<rparr>) self'"
    by (auto simp: broadcast_line_def)
  from removedD(3,4) [OF this] show ?thesis by auto
qed

lemma server_event_state:
  assumes "step server_program C t e t'" and "server_allows handle cloned t e new" and "e \<noteq> Handler_Get_Shell"
  shows "new = [] \<and> state t' = state t \<and> clones cloned e = cloned \<or>
    (\<exists>ev. new = [ev] \<and> handle ev (state t) = Some (state t') \<and> (cloned \<longleftrightarrow> relay_of ev = None) \<and> \<not> clones cloned e)"
proof (cases "\<exists>s v. e = Handler_Return s v")
  case True
  then obtain s v where e: "e = Handler_Return s v" by blast
  obtain f m client ev where ev: "server_event_of (payload m) (handles t) (actor_ctx t) client = Some ev"
    "cloned \<longleftrightarrow> (\<exists>socket. payload m = New_Socket socket)" "handle ev (state t) = Some s" "new = [ev]"
    "phase t = Handling f m"
    using assms(2) unfolding server_allows_def e event.case by (elim conjE exE) (rule that; assumption)
  moreover have "relay_of ev = None \<longleftrightarrow> (\<exists>socket. payload m = New_Socket socket)"
    using ev(1) by (cases "payload m") auto
  moreover have "state t' = s" using assms(1) by (auto simp: e step_simps)
  ultimately show ?thesis by (simp add: clones_def e)
next
  case False
  then show ?thesis
    using assms by (cases e; auto simp: server_allows_def clones_def step_simps finish_task_def split: if_splits)
qed

lemma to_server_same:
  assumes "to_server X w answer w'"
  shows "cw_handled w' = cw_handled w" "cw_cloned w' = cw_cloned w" "state (cw_task w') = state (cw_task w)"
  using assms by (induction rule: to_server.induct) (auto simp: enqueue_event_def clones_def step_simps split: if_splits)

lemma to_client_same:
  assumes "to_client X c answer c'"
  shows "client_number c' = client_number c" "client_shell c' = client_shell c"
  using assms by (induction rule: to_client.induct) simp_all

lemma same_clients:
  fixes xs :: "('o, 'i, 'q) chat_client list"
  assumes "c = xs ! j" and "client_number c' = client_number c" and "client_shell c' = client_shell c"
  shows "map client_number (xs[j := c']) = map client_number xs" "map client_shell (xs[j := c']) = map client_shell xs"
    "registry (xs[j := c']) = registry xs"
proof -
  have same: "map f (xs[j := c']) = map f xs" if "f c' = f c" for f :: "('o, 'i, 'q) chat_client \<Rightarrow> 'x"
    using that assms(1) by (metis list_update_id map_update)
  show "map client_number (xs[j := c']) = map client_number xs" by (rule same) (rule assms(2))
  show "map client_shell (xs[j := c']) = map client_shell xs" by (rule same) (rule assms(3))
  have "map (\<lambda>c. (client_number c, client_shell c)) (xs[j := c']) = map (\<lambda>c. (client_number c, client_shell c)) xs"
    by (rule same) (simp add: assms(2,3))
  then show "registry (xs[j := c']) = registry xs"
    unfolding registry_def set_map [symmetric] by (rule arg_cong)
qed

lemma program_numbered:
  assumes "reads_all (read_order X)" and "program_run X ls w"
  shows "clients_numbered X w"
  using assms(2)
proof (induction rule: program_run.induct)
  case (program_starts listening incoming main time)
  then have "main_server main = server_default"
    by (auto simp: chat_main_def Let_def split: sum.splits)
  then show ?case by (simp add: clients_numbered_def new_world_def start_task_def server_default_def)
next
  case (program_goes_on ls w l w')
  note IH = program_goes_on.IH [unfolded clients_numbered_def]
  have by_server: "clients_numbered X w'" if "to_server X w1 answer w'" "clients_numbered X w1" for w1 answer
    using that(2) to_server_same [OF that(1)] to_server_clients(1) [OF that(1)] by (simp add: clients_numbered_def)
  have by_client: "clients_numbered X (set_client j c' w)"
    if "client_number c' = client_number (cw_clients w ! j)" "client_shell c' = client_shell (cw_clients w ! j)" for j c'
    using program_goes_on.IH same_clients [OF refl that] by (simp add: clients_numbered_def)
  show ?case using program_goes_on.hyps(2)
  proof cases
    case (server_event e t new)
    from server_event_state [OF server_event(3-5)] show ?thesis
    proof (elim disjE exE conjE)
      assume "new = []" "state t = state (cw_task w)" "clones (cw_cloned w) e = cw_cloned w"
      with program_goes_on.IH show ?thesis by (simp add: clients_numbered_def server_event(2))
    next
      fix ev
      assume ev: "new = [ev]" "handle_event X ev (state (cw_task w)) = Some (state t)"
        "cw_cloned w \<longleftrightarrow> relay_of ev = None" "\<not> clones (cw_cloned w) e"
      show ?thesis
      proof (cases ev)
        case (Relay p)
        with ev relay_users [OF assms(1)] have "id_counter (state t) = id_counter (state (cw_task w))"
          "set (users (state t)) \<subseteq> set (users (state (cw_task w)))" by auto
        with IH ev Relay show ?thesis by (auto simp: clients_numbered_def server_event(2))
      next
        case (Listen n ctx shell tcp)
        let ?cs = "cw_clients w"
        have cloned: "cw_cloned w" using ev(3) Listen by simp
        then have n: "length ?cs = Suc (arrivals (cw_handled w))" using IH by simp
        then have "?cs \<noteq> []" by auto
        then have last: "last ?cs \<in> set ?cs" "shell = client_shell (last ?cs)"
          using server_event(7) ev(1) Listen by auto
        have "client_number (last ?cs) = last (map client_number ?cs)" using \<open>?cs \<noteq> []\<close> by (simp add: last_map)
        then have "client_number (last ?cs) = id_counter (state (cw_task w))"
          using IH n cloned by simp
        then have "(id_counter (state (cw_task w)), shell) \<in> registry ?cs"
          unfolding registry_def using last by (intro image_eqI [where x = "last ?cs"]) simp_all
        moreover have "id_counter (state t) = id_counter (state (cw_task w)) + 1"
          "set (users (state t)) \<subseteq> insert (id_counter (state (cw_task w)), shell) (set (users (state (cw_task w))))"
          using listen_users [OF assms(1)] ev(2) Listen by fastforce+
        ultimately show ?thesis using IH ev Listen n by (auto simp: clients_numbered_def server_event(2))
      qed
    qed
  next
    case (client_started f m tcp shell t made)
    have "state t = state (cw_task w)" using client_started(7) by (auto simp: step_simps)
    with listen_made [OF client_started(8)] client_started(5,6) IH show ?thesis
      by (auto simp: clients_numbered_def client_started(2) registry_def clones_def)
  next
    case (client_event j e t)
    with by_client show ?thesis by simp
  next
    case (line_polled j c i fut task enq task' sent_calls)
    show ?thesis by (rule by_server [OF line_polled(7)], rule by_client) (simp_all add: line_polled(3))
  next
    case (outcome_polled j c enq task' sent_calls)
    show ?thesis by (rule by_server [OF outcome_polled(5)], rule by_client) (simp_all add: outcome_polled(3))
  next
    case (input_polled j c nxt enq feed items sent_calls c')
    with by_client to_client_same [OF input_polled(6)] show ?thesis by simp
  next
    case (socket_polled nxt enq feed items sent_calls)
    have "clients_numbered X (w\<lparr>cw_feed := feed, cw_sockets := cw_sockets w @ items\<rparr>)"
      using program_goes_on.IH by (simp add: clients_numbered_def)
    with by_server [OF socket_polled(3)] show ?thesis by simp
  qed
qed

section \<open>What is said, and who leaves\<close>

text \<open>The lines taken from a client's socket.\<close>

fun taken_line :: "codec_error + string \<Rightarrow> string option" where
  "taken_line (Inr line) = Some line"
| "taken_line (Inl e) = None"

definition lines_taken :: "('o, 'i, 'q) chat_client \<Rightarrow> string list" where
  "lines_taken c = filter_unwrap taken_line (cc_taken c)"

lemma feed_ok_prefix: "feed_ok msg d f items sent_calls \<Longrightarrow> \<exists>rest. map msg items = sent_calls @ rest"
  by (cases f) (auto, metis append_butlast_last_id map_append)

lemma filter_unwrap_map_filter:
  "(\<And>x. \<not> P x \<Longrightarrow> f (g x) = None) \<Longrightarrow> filter_unwrap f (map g (filter P xs)) = filter_unwrap (\<lambda>x. f (g x)) xs"
  by (induction xs) (auto split: option.splits)

lemma lines_taken_read:
  assumes "role_channel (client_channel X) contents receiving connected" and "client_ok X c"
  shows "\<exists>rest. lines_taken c = lines_read (cc_events c) @ rest"
proof -
  let ?line = "\<lambda>call. line_read (snd call)"
  have no_line: "line_read m = None" if "line_input m = None" for m
    using that by (cases "payload m") simp_all
  obtain rest where "map (input_call (client_shell c)) (cc_taken c) = inputs_sent (client_shell c) (cc_events c) @ rest"
    using assms(2) feed_ok_prefix unfolding client_ok_def by blast
  then have "filter_unwrap ?line (map (input_call (client_shell c)) (cc_taken c)) =
      filter_unwrap ?line (inputs_sent (client_shell c) (cc_events c)) @ filter_unwrap ?line rest" by simp
  moreover have "filter_unwrap ?line (map (input_call shell) vs) = filter_unwrap taken_line vs" for vs shell
    by (induction vs) (auto split: sum.splits)
  moreover have "filter_unwrap ?line (map (Pair d) (filter (\<lambda>m. line_input m \<noteq> None) ms)) = filter_unwrap line_read ms"
    for ms and d :: dest
    by (subst filter_unwrap_map_filter) (simp_all add: no_line del: line_read.simps line_input.simps)
  moreover obtain unread where "filter_unwrap line_read (sent 0 (cc_events c)) = lines_read (cc_events c) @ unread"
    using assms client_run_lines unfolding client_ok_def by blast
  ultimately show ?thesis by (simp add: lines_taken_def inputs_sent_def del: line_read.simps line_input.simps)
qed

text \<open>The lines among calls of the relay that are under a number.\<close>

definition lines_under :: "usize \<Rightarrow> relay_call multiset \<Rightarrow> string multiset" where
  "lines_under i M = image_mset (\<lambda>call. case payload (snd call) of Send_Msg k line \<Rightarrow> line | Client_Leaves r \<Rightarrow> [])
     (filter_mset (\<lambda>call. case payload (snd call) of Send_Msg k line \<Rightarrow> k = i | Client_Leaves r \<Rightarrow> False) M)"

lemma lines_under_simps [simp]:
  "lines_under i {#} = {#}" "lines_under i (M + N) = lines_under i M + lines_under i N"
  "lines_under i (add_mset (d, \<lparr>payload = Send_Msg k line, return_path = path\<rparr>) M) =
    (if k = i then add_mset line (lines_under i M) else lines_under i M)"
  "lines_under i (add_mset (d, \<lparr>payload = Client_Leaves r, return_path = path\<rparr>) M) = lines_under i M"
  by (simp_all add: lines_under_def)

lemma lines_under_mono: "M \<subseteq># N \<Longrightarrow> lines_under i M \<subseteq># lines_under i N"
  unfolding lines_under_def by (intro image_mset_subseteq_mono multiset_filter_mono)

lemma lines_under_relay:
  "lines_under i (mset (map (relay_call X) ps)) = mset (values_of i (filter_unwrap payload_line ps))"
proof (induction ps)
  case (Cons p ps)
  then show ?case by (cases p) simp_all
qed simp

lemma lines_under_made:
  "lines_under i (calls_made c) = (if client_number c = i then mset (map trim (lines_read (cc_events c))) else {#})"
proof -
  have "lines_under i (sum_list (map to_send (map (relay_task s) ls))) = (if cl_id s = i then mset (map trim ls) else {#})"
    for s :: "'a client_state" and ls
    by (induction ls) (auto simp: relay_task_def)
  moreover have "lines_under i (outcome_calls d r) = {#}" for d r by (cases r) simp_all
  ultimately show ?thesis by (simp add: calls_made_def client_number_def del: map_map)
qed

lemma lines_under_all:
  assumes "distinct (map client_number cs)" and "c \<in> set cs"
  shows "lines_under (client_number c) (sum_list (map calls_made cs)) = mset (map trim (lines_read (cc_events c)))"
  using assms
proof (induction cs)
  case (Cons a cs)
  have none: "lines_under i (sum_list (map calls_made cs)) = {#}" if "i \<notin> client_number ` set cs" for i
    using that by (induction cs) (auto simp: lines_under_made)
  show ?case
  proof (cases "c = a")
    case True
    with Cons.prems none [of "client_number c"] show ?thesis by (simp add: lines_under_made)
  next
    case False
    with Cons have "c \<in> set cs" "client_number a \<noteq> client_number c" by auto
    with Cons show ?thesis by (simp add: lines_under_made)
  qed
qed simp

lemma client_outcome_number:
  assumes "client_ok X c" and "client_outcome (cc_task c) = Ready r"
  shows "is_finished (phase (cc_task c)) \<and> payload_leaver (Client_Leaves r) = Some (client_number c)"
proof -
  obtain v where v: "phase (cc_task c) = Finished v"
    using assms(2) by (auto simp: client_outcome_def exit_handle_of_def split: phase.splits)
  with assms client_run_state show ?thesis
    by (fastforce simp: client_ok_def client_number_def client_outcome_def exit_handle_of_def)
qed

text \<open>Every message to the relay comes from a client: a line it has read, or its outcome.\<close>

lemma relayed_from:
  assumes "server_ok X w" and "\<forall>c\<in>set (cw_clients w). client_ok X c" and "p \<in> set (filter_unwrap relayed (sent 0 (cw_events w)))"
  shows "\<exists>c\<in>set (cw_clients w). (\<exists>line\<in>set (lines_read (cc_events c)). p = Send_Msg (client_number c) (trim line)) \<or>
    (is_finished (phase (cc_task c)) \<and> payload_leaver p = Some (client_number c))"
proof -
  have "relay_call X p \<in># calls_sent X (cw_events w) + sum_list (map calls_pending (cw_clients w))"
    using assms(3) by (simp add: calls_sent_def)
  then have "relay_call X p \<in># sum_list (map calls_made (cw_clients w))"
    by (rule mset_subset_eqD [rotated]) (use assms(1) in \<open>simp add: server_ok_def accounts_def\<close>)
  then obtain c where c: "c \<in> set (cw_clients w)" "relay_call X p \<in># calls_made c" by (auto simp: in_sum_list_mset)
  note ok = assms(2) [rule_format, OF c(1)]
  show ?thesis
  proof (intro bexI [OF _ c(1)])
    show "(\<exists>line\<in>set (lines_read (cc_events c)). p = Send_Msg (client_number c) (trim line)) \<or>
        (is_finished (phase (cc_task c)) \<and> payload_leaver p = Some (client_number c))"
      using c(2) client_outcome_number [OF ok] by (cases "client_outcome (cc_task c)")
        (auto simp: calls_made_def in_sum_list_mset relay_task_def client_number_def)
  qed
qed

text \<open>What is said under a client's number has been taken from its socket.\<close>

lemma relayed_lines:
  assumes "role_channel (client_channel X) contents receiving connected" and "server_ok X w"
    and "\<forall>c\<in>set (cw_clients w). client_ok X c" and "distinct (map client_number (cw_clients w))"
    and "c \<in> set (cw_clients w)" and "filter_unwrap relayed (sent 0 (cw_events w)) = ps @ rest"
  shows "mset (values_of (client_number c) (filter_unwrap payload_line ps)) \<subseteq># mset (map trim (lines_taken c))"
proof -
  have "mset (map (relay_call X) ps) \<subseteq># calls_sent X (cw_events w)"
    by (simp add: calls_sent_def assms(6))
  also have "\<dots> \<subseteq># calls_sent X (cw_events w) + sum_list (map calls_pending (cw_clients w))" by simp
  also have "\<dots> \<subseteq># sum_list (map calls_made (cw_clients w))"
    using assms(2) by (simp add: server_ok_def accounts_def)
  finally have "mset (values_of (client_number c) (filter_unwrap payload_line ps)) \<subseteq>#
      lines_under (client_number c) (sum_list (map calls_made (cw_clients w)))"
    unfolding lines_under_relay [where X = X, symmetric] by (rule lines_under_mono)
  also have "\<dots> = mset (map trim (lines_read (cc_events c)))" by (rule lines_under_all [OF assms(4,5)])
  finally have said: "mset (values_of (client_number c) (filter_unwrap payload_line ps)) \<subseteq>#
      mset (map trim (lines_read (cc_events c)))" .
  obtain unread where "lines_taken c = lines_read (cc_events c) @ unread"
    using lines_taken_read [OF assms(1) assms(3) [rule_format, OF assms(5)]] by blast
  then have "mset (map trim (lines_read (cc_events c))) \<subseteq># mset (map trim (lines_taken c))" by simp
  with said show ?thesis by (rule subset_mset.order_trans)
qed

lemma distinct_numbers:
  assumes "n < 2 ^ 64"
  shows "distinct (map (of_nat :: nat \<Rightarrow> usize) [1..<Suc n])"
proof -
  have "inj_on (of_nat :: nat \<Rightarrow> usize) {1..<Suc n}"
    using assms by (intro inj_onI) (simp add: word_of_nat_eq_iff take_bit_nat_eq_self)
  then show ?thesis by (simp add: distinct_map del: upt_Suc)
qed

lemma numbered_entered:
  assumes "clients_numbered X w"
  shows "map client_number (cw_clients w) =
    map of_nat [1..<Suc (arrivals (cw_handled w))] @ (if cw_cloned w then [client_number (last (cw_clients w))] else [])"
proof (cases "cw_cloned w")
  case True
  with assms have n: "map client_number (cw_clients w) = map of_nat [1..<Suc (arrivals (cw_handled w))] @ [of_nat (Suc (arrivals (cw_handled w)))]"
    and "cw_clients w \<noteq> []"
    by (auto simp: clients_numbered_def)
  from this(2) have "client_number (last (cw_clients w)) = last (map client_number (cw_clients w))" by (simp add: last_map)
  with n True show ?thesis by (simp only: last_snoc if_True)
next
  case False
  with assms show ?thesis by (simp add: clients_numbered_def)
qed

text \<open>What a step does to the server: nothing, or it ends a handler.\<close>

lemma program_step_handled:
  assumes "program_step X w l w'"
  shows "cw_handled w' = cw_handled w \<and> state (cw_task w') = state (cw_task w) \<or>
    (\<exists>ev. cw_handled w' = cw_handled w @ [ev] \<and> handle_event X ev (state (cw_task w)) = Some (state (cw_task w')) \<and>
      (cw_cloned w \<longleftrightarrow> relay_of ev = None) \<and> cw_clients w' = cw_clients w)"
  using assms
proof cases
  case (server_event e t new)
  from server_event_state [OF server_event(3-5)] show ?thesis by (auto simp: server_event(2))
next
  case (client_started f m tcp shell t made)
  then have "state t = state (cw_task w)" by (auto simp: step_simps)
  then show ?thesis by (simp add: client_started(2))
next
  case (line_polled j c i fut task enq task' sent_calls)
  with to_server_same [OF line_polled(7)] show ?thesis by simp
next
  case (outcome_polled j c enq task' sent_calls)
  with to_server_same [OF outcome_polled(5)] show ?thesis by simp
next
  case (socket_polled nxt enq feed items sent_calls)
  with to_server_same [OF socket_polled(3)] show ?thesis by simp
qed simp_all

text \<open>A client whose outcome has been handled is out for good: no later one has its number.\<close>

definition leavers_gone :: "'k server_event list \<Rightarrow> server_state \<Rightarrow> bool" where
  "leavers_gone evs self \<longleftrightarrow>
     (\<forall>i\<in>set (filter_unwrap payload_leaver (filter_unwrap relay_of evs)).
       (\<exists>k\<le>arrivals evs. i = of_nat k) \<and> i \<notin> fst ` set (users self))"

lemma removed_leaver:
  assumes "reads_all order" and "relay_dispatch env order p self = Some self'" and "payload_leaver p = Some i"
  shows "i \<notin> fst ` set (users self')"
proof (cases p)
  case (Client_Leaves result)
  with assms have "remove_client env order i self = Some self'" by (auto simp: client_leaves_def)
  from broadcast_removed(3) [OF assms(1) this] obtain gone new where "removed env {i} gone new self self'" by blast
  from removedD(3,7) [OF this] show ?thesis by auto
qed (use assms(3) in simp)

lemma leavers_gone_relay:
  assumes "reads_all order" and "relay_dispatch env order p self = Some self'" and "leavers_gone evs self"
    and "\<And>i. payload_leaver p = Some i \<Longrightarrow> \<exists>k\<le>arrivals evs. i = of_nat k"
  shows "leavers_gone (evs @ [Relay p]) self'"
proof -
  have "i \<notin> fst ` set (users self')" if "i \<notin> fst ` set (users self)" for i
    using relay_users [OF assms(1,2)] that by blast
  with assms(3,4) removed_leaver [OF assms(1,2)] show ?thesis
    unfolding leavers_gone_def by (cases "payload_leaver p") auto
qed

lemma leavers_gone_listen:
  assumes "reads_all order" and "snd (listen env order split n ctx shell tcp self) = Some self'" and "leavers_gone evs self"
    and "id_counter self = of_nat (Suc (arrivals evs))" and "Suc (arrivals evs) < 2 ^ 64"
  shows "leavers_gone (evs @ [Listen n ctx shell tcp]) self'"
proof -
  have keys: "fst ` set (users self') \<subseteq> insert (id_counter self) (fst ` set (users self))"
    using listen_users [OF assms(1,2)] by auto
  have "(of_nat k :: usize) \<noteq> id_counter self" if "k \<le> arrivals evs" for k
    using that assms(4,5) by (simp add: word_of_nat_eq_iff take_bit_nat_eq_self del: of_nat_Suc)
  note fresh = this
  show ?thesis unfolding leavers_gone_def
  proof
    fix i assume "i \<in> set (filter_unwrap payload_leaver (filter_unwrap relay_of (evs @ [Listen n ctx shell tcp])))"
    then have "i \<in> set (filter_unwrap payload_leaver (filter_unwrap relay_of evs))" by simp
    from assms(3) [unfolded leavers_gone_def, rule_format, OF this]
    obtain k where k: "k \<le> arrivals evs" "i = of_nat k" "i \<notin> fst ` set (users self)" by (elim conjE exE) (rule that)
    from fresh [OF k(1)] k(2,3) have "i \<notin> insert (id_counter self) (fst ` set (users self))" by simp
    with keys have "i \<notin> fst ` set (users self')" by (rule contra_subsetD)
    moreover have "k \<le> arrivals (evs @ [Listen n ctx shell tcp])" using k(1) by simp
    ultimately show "(\<exists>k\<le>arrivals (evs @ [Listen n ctx shell tcp]). i = of_nat k) \<and> i \<notin> fst ` set (users self')"
      using k(2) by blast
  qed
qed

lemma program_leavers:
  assumes "role_channel (server_channel X) contents receiving connected" and "reads_all (read_order X)"
    and "program_run X ls w" and "length (cw_handled w) < 2 ^ 64 - 1"
  shows "leavers_gone (cw_handled w) (state (cw_task w))"
  using assms(3,4)
proof (induction rule: program_run.induct)
  case (program_goes_on ls w l w')
  note run' = program_run.program_goes_on [OF program_goes_on.hyps]
  note numbered = program_numbered [OF assms(2) program_goes_on.hyps(1), unfolded clients_numbered_def]
  from program_step_handled [OF program_goes_on.hyps(2)] show ?case
  proof (elim disjE exE conjE)
    assume "cw_handled w' = cw_handled w" "state (cw_task w') = state (cw_task w)"
    with program_goes_on show ?thesis by simp
  next
    fix ev
    assume ev: "cw_handled w' = cw_handled w @ [ev]" "handle_event X ev (state (cw_task w)) = Some (state (cw_task w'))"
      "cw_cloned w \<longleftrightarrow> relay_of ev = None" "cw_clients w' = cw_clients w"
    have len: "Suc (length (cw_handled w)) < 2 ^ 64 - 1" using program_goes_on.prems by (simp add: ev(1))
    have gone: "leavers_gone (cw_handled w) (state (cw_task w))" using program_goes_on.IH len by simp
    have few: "arrivals (cw_handled w) \<le> length (cw_handled w)" by (rule length_filter_le)
    show ?thesis
    proof (cases ev)
      case (Relay p)
      have "\<exists>k\<le>arrivals (cw_handled w). i = of_nat k" if i: "payload_leaver p = Some i" for i
      proof -
        obtain time rest where "server_loop (handle_event X) (server_channel X) (server_shell X) time (cw_events w')
            (cw_task w') (cw_cloned w') (cw_handled w')"
          using program_server_ok [OF run'] unfolding server_ok_def by blast
        from server_loop_relayed [OF assms(1) this] have "p \<in> set (filter_unwrap relayed (sent 0 (cw_events w')))"
          by (auto simp: ev(1) Relay)
        from relayed_from [OF program_server_ok [OF run'] chat_clients_ok [OF run', THEN conjunct2] this] i
        have "i \<in> set (map client_number (cw_clients w))" by (auto simp: ev(4))
        then have "i \<in> of_nat ` {1..<Suc (arrivals (cw_handled w))}"
          using numbered ev(3) Relay by (simp del: upt_Suc)
        then obtain k where k: "i = of_nat k" "k \<in> {1..<Suc (arrivals (cw_handled w))}" by (rule imageE)
        from k(2) have "k \<le> arrivals (cw_handled w)" by simp
        with k(1) show ?thesis by (intro exI conjI)
      qed
      with leavers_gone_relay [OF assms(2) _ gone] ev(1,2) Relay show ?thesis by simp
    next
      case (Listen n ctx shell tcp)
      have "Suc (arrivals (cw_handled w)) < 2 ^ 64" using few len by linarith
      moreover have "id_counter (state (cw_task w)) = of_nat (Suc (arrivals (cw_handled w)))" using numbered by blast
      ultimately show ?thesis
        using leavers_gone_listen [OF assms(2) ev(2) [unfolded Listen server_step.simps] gone] by (simp add: ev(1) Listen)
    qed
  qed
qed (simp add: leavers_gone_def new_world_def)

lemma leavers_gone_out:
  assumes "leavers_gone evs self" and "Relay (Client_Leaves (Exit i)) \<in> set evs \<or> Relay (Client_Leaves (Panic i)) \<in> set evs"
  shows "i \<notin> fst ` set (users self)"
proof -
  obtain p where p: "Relay p \<in> set evs" "payload_leaver p = Some i"
    using assms(2) by (elim disjE) (rule that, assumption, simp)+
  then have "p \<in> set (filter_unwrap relay_of evs)"
    unfolding set_filter_unwrap by (intro bexI) simp_all
  with p(2) have "i \<in> set (filter_unwrap payload_leaver (filter_unwrap relay_of evs))"
    unfolding set_filter_unwrap [of i payload_leaver] by blast
  with assms(1) show ?thesis unfolding leavers_gone_def by blast
qed

text \<open>
  C17. The chat program is a chat room, whatever comes from outside and however its tasks take turns.
  Its console is the log of a room that is entered by the clients the server has started, in that order
  and, if one is being set up, up to it; those in the room are the keys of the server's map, which has
  each of them with its own shell. Nobody but a client says anything, and what is said under its
  number are lines taken from its socket, trimmed, each at most as often as it was taken. A client leaves
  at most once, and only if its task is over, or if it has failed to take a line; and when the server has
  handled its outcome it is not in the room, then or later. This is for runs in which the server has handled
  fewer than \<open>2 ^ 64 - 1\<close> messages, so that its counter of clients has not wrapped.
\<close>

theorem chat_program_room:
  assumes "role_channel (server_channel X) contents receiving connected"
    and "role_channel (client_channel X) contents' receiving' connected'"
    and "reads_all (read_order X)" and "program_run X ls w" and "length (cw_handled w) < 2 ^ 64 - 1"
  shows "\<exists>log. console (state (cw_task w)) = map announce log \<and>
    map client_number (cw_clients w) =
      filter_unwrap entered log @ (if cw_cloned w then [client_number (last (cw_clients w))] else []) \<and>
    distinct (map client_number (cw_clients w)) \<and>
    members {} log = Some (fst ` set (users (state (cw_task w)))) \<and>
    set (users (state (cw_task w))) \<subseteq> registry (cw_clients w) \<and>
    fst ` set (filter_unwrap said log) \<subseteq> client_number ` set (cw_clients w) \<and>
    (\<forall>c\<in>set (cw_clients w).
      mset (values_of (client_number c) (filter_unwrap said log)) \<subseteq># mset (map trim (lines_taken c))) \<and>
    distinct (filter_unwrap departed log) \<and>
    (\<forall>i\<in>set (filter_unwrap departed log).
      (\<exists>c\<in>set (cw_clients w). client_number c = i \<and> is_finished (phase (cc_task c))) \<or>
      i \<in> set (failed (replies X) [] (calls (state (cw_task w))))) \<and>
    (\<forall>i. Relay (Client_Leaves (Exit i)) \<in> set (cw_handled w) \<or> Relay (Client_Leaves (Panic i)) \<in> set (cw_handled w) \<longrightarrow>
      members {} log \<noteq> None \<and> i \<notin> the (members {} log))"
proof -
  let ?cs = "cw_clients w" and ?evs = "cw_handled w"
  note server = program_server_ok [OF assms(4)] and clients = chat_clients_ok [OF assms(4), THEN conjunct2]
  note numbered = program_numbered [OF assms(3,4), unfolded clients_numbered_def]
  obtain time where loop: "server_loop (handle_event X) (server_channel X) (server_shell X) time (cw_events w)
      (cw_task w) (cw_cloned w) ?evs"
    using server unfolding server_ok_def by blast
  have "length (filter_unwrap returned (cw_events w)) < 2 ^ 64 - 1"
    using server_loop_state [OF loop] assms(5) by simp
  from server_room_log [OF assms(3) loop this] obtain log where
    log: "console (state (cw_task w)) = map announce log" "members {} log = Some (fst ` set (users (state (cw_task w))))"
    "distinct (filter_unwrap departed log)" "filter_unwrap entered log = map of_nat [1..<Suc (arrivals ?evs)]"
    "filter_unwrap said log = filter_unwrap payload_line (filter_unwrap relay_of ?evs)"
    "set (filter_unwrap departed log) \<subseteq>
      set (filter_unwrap payload_leaver (filter_unwrap relay_of ?evs)) \<union> set (failed (replies X) [] (calls (state (cw_task w))))"
    by (elim exE conjE) (rule that)
  obtain rest where sent: "filter_unwrap relayed (sent 0 (cw_events w)) = filter_unwrap relay_of ?evs @ rest"
    using server_loop_relayed [OF assms(1) loop] by blast
  have from_client: "\<exists>c\<in>set ?cs. (\<exists>line\<in>set (lines_read (cc_events c)). p = Send_Msg (client_number c) (trim line)) \<or>
      (is_finished (phase (cc_task c)) \<and> payload_leaver p = Some (client_number c))" if "p \<in> set (filter_unwrap relay_of ?evs)" for p
    using relayed_from [OF server clients, of p] that sent by simp
  have bound: "length ?cs < 2 ^ 64"
  proof -
    have "arrivals ?evs \<le> length ?evs" by (rule length_filter_le)
    moreover have "length ?cs \<le> arrivals ?evs + 1" using numbered by simp
    ultimately show ?thesis using assms(5) by linarith
  qed
  have distinct: "distinct (map client_number ?cs)"
    by (subst numbered [THEN conjunct1]) (rule distinct_numbers [OF bound])
  have entered: "map client_number ?cs =
      filter_unwrap entered log @ (if cw_cloned w then [client_number (last ?cs)] else [])"
    using numbered_entered [OF program_numbered [OF assms(3,4)]] log(4) by simp
  have lines: "mset (values_of (client_number c) (filter_unwrap said log)) \<subseteq># mset (map trim (lines_taken c))"
    if "c \<in> set ?cs" for c
    unfolding log(5) by (rule relayed_lines [OF assms(2) server clients distinct that sent])
  have who: "fst ` set (filter_unwrap said log) \<subseteq> client_number ` set ?cs"
  proof
    fix i assume "i \<in> fst ` set (filter_unwrap said log)"
    then obtain line p where p: "p \<in> set (filter_unwrap relay_of ?evs)" "payload_line p = Some (i, line)"
      unfolding log(5) by (auto simp: set_filter_unwrap)
    from this(2) have "p = Send_Msg i line" by (cases p) auto
    with from_client [OF p(1)] show "i \<in> client_number ` set ?cs" by auto
  qed
  have left: "(\<exists>c\<in>set ?cs. client_number c = i \<and> is_finished (phase (cc_task c))) \<or>
      i \<in> set (failed (replies X) [] (calls (state (cw_task w))))" if i: "i \<in> set (filter_unwrap departed log)" for i
  proof (cases "i \<in> set (filter_unwrap payload_leaver (filter_unwrap relay_of ?evs))")
    case True
    then obtain p where p: "p \<in> set (filter_unwrap relay_of ?evs)" "payload_leaver p = Some i"
      unfolding set_filter_unwrap [of i payload_leaver] by blast
    with from_client [OF p(1)] show ?thesis by auto
  next
    case False
    with i log(6) show ?thesis by blast
  qed
  have out: "i \<notin> fst ` set (users (state (cw_task w)))"
    if "Relay (Client_Leaves (Exit i)) \<in> set ?evs \<or> Relay (Client_Leaves (Panic i)) \<in> set ?evs" for i
    by (rule leavers_gone_out [OF program_leavers [OF assms(1,3-5)] that])
  have keys: "set (users (state (cw_task w))) \<subseteq> registry ?cs" using numbered by blast
  show ?thesis
    by (intro exI [of _ log] conjI ballI allI impI; (rule log(1-3) entered distinct keys who lines left; assumption)?)
      (simp_all only: log(2) option.sel not_False_eq_True option.distinct out)
qed

section \<open>A concrete run\<close>

inductive_simps program_step_simps:
  "program_step X w (Server_Event e new) w'"
  "program_step X w (Client_Started shell) w'"
  "program_step X w (Client_Event j e) w'"
  "program_step X w (Line_Polled j i enq) w'"
  "program_step X w (Outcome_Polled j enq) w'"
  "program_step X w (Input_Polled j nxt enq) w'"
  "program_step X w (Socket_Polled nxt enq) w'"

primrec program_follows ::
  "('k, 'o, 'i, 'p, 'q) chat_parts \<Rightarrow> ('k, 'o) chat_event list \<Rightarrow> ('k, 'o, 'i, 'p, 'q) chat_world \<Rightarrow>
     ('k, 'o, 'i, 'p, 'q) chat_world \<Rightarrow> bool"
where
  "program_follows X [] w w' \<longleftrightarrow> w' = w"
| "program_follows X (l # ls) w w' \<longleftrightarrow> (\<exists>u. program_step X w l u \<and> program_follows X ls u w')"

lemma program_follows_run: "program_run X ls w \<Longrightarrow> program_follows X ls' w w' \<Longrightarrow> program_run X (ls @ ls') w'"
proof (induction ls' arbitrary: ls w)
  case (Cons l ls')
  then obtain u where "program_step X w l u" "program_follows X ls' u w'" by auto
  with Cons.IH [OF program_goes_on [OF Cons.prems(1)]] show ?case by simp
qed simp

abbreviation sample_parts ::
  "(unit, unit, unit, unit server_value return_envelope fifo, client_value return_envelope fifo) chat_parts" where
  "sample_parts \<equiv> \<lparr>replies = \<lambda>cs. Some (Inr (Inr ())), read_order = id, split_socket = Pair (),
     put_line = \<lambda>out msg. (out, Inr ()), server_channel = fifo_channel, client_channel = fifo_channel, server_shell = 0\<rparr>"

text \<open>A socket arrives, and then a line from it.\<close>

abbreviation quiet :: "(server_state, unit server_value) event list \<Rightarrow> (unit, unit) chat_event list" where
  "quiet \<equiv> map (\<lambda>e. Server_Event e [])"

abbreviation sample_labels :: "(unit, unit) chat_event list" where
  "sample_labels \<equiv>
     quiet [Start, Read_Empty, Read_Running, Read_Empty, Read_Running, Read_Timer] @
     [Socket_Polled (Ready (Some ())) Pending, Socket_Polled Pending (Ready (Inr ()))] @
     quiet [Receive 1 ''perform_net_listener'' (sample_send (New_Socket ()))] @
     [Client_Started 10,
      Server_Event (Handler_Return one_client Server_Returns) [Listen 2 \<lparr>shell_handle = 0, running = True\<rparr> 10 ()]] @
     quiet [Respond [], Read_Empty, Read_Running, Read_Empty, Read_Running, Read_Timer] @
     map (Client_Event 0) [Start, Read_Empty, Read_Running, Read_Timer] @
     [Input_Polled 0 (Ready (Some (Inr ''hi''))) Pending, Input_Polled 0 Pending (Ready (Inr ()))] @
     map (Client_Event 0) [Receive 0 ''perform_net_client'' (line_message (Inr ''hi'')),
       Handler_Return \<lparr>cl_id = 1, cl_relay = 0, net_out_stream = ()\<rparr> On_Read_Returns] @
     [Line_Polled 0 0 Pending, Line_Polled 0 0 (Ready (Inr ()))] @
     quiet [Receive 0 ''perform_msg_relay'' (sample_send (Relay_Msg (Send_Msg 1 ''hi'')))] @
     [Server_Event (Handler_Return one_line Server_Returns) [Relay (Send_Msg 1 ''hi'')]]"

lemma sample_program_run:
  "\<exists>w. program_run sample_parts sample_labels w \<and> state (cw_task w) = one_line \<and> length (cw_handled w) = 2 \<and>
    map client_number (cw_clients w) = [1] \<and> map lines_taken (cw_clients w) = [[''hi'']] \<and> \<not> cw_cloned w"
proof -
  have trims: "trim ''hi'' = ''hi''" "id_counter server_default = 1" by code_simp+
  obtain main :: "(unit, unit server_value) chat_setup" where main: "chat_main (Inr () :: string + unit) (\<lambda>l. [] :: (string + unit) option poll list) 0 = Inr main"
    "main_server main = server_default" "main_feed main = Feed_Next (net_listener 0)"
    by (simp add: chat_main_def Let_def ActorHandles_new_def)
  have "\<exists>w. program_follows sample_parts sample_labels (new_world sample_parts 0 main) w \<and> state (cw_task w) = one_line \<and>
      length (cw_handled w) = 2 \<and> map client_number (cw_clients w) = [1] \<and> map lines_taken (cw_clients w) = [[''hi'']] \<and>
      \<not> cw_cloned w"
    by (simp add: main new_world_def program_step_simps server_acts_def client_acts_def set_client_def to_server_simps to_client_simps
        client_eval sample_handle_results trims server_allows_def clones_def server_message_def msg_relay_def
        net_listener_def net_client_def get_shell_def numeral_2_eq_2 Ex_less_Suc enqueue_event_def relay_answer_def relay_message_def
        into_payload_reflexive_def new_client_def listen_def Client_new_def ActorHandles_new_def Let_def
        client_shell_def client_number_def lines_taken_def del: server_step.simps)
  then obtain w where w: "program_follows sample_parts sample_labels (new_world sample_parts 0 main) w"
    "state (cw_task w) = one_line" "length (cw_handled w) = 2" "map client_number (cw_clients w) = [1]"
    "map lines_taken (cw_clients w) = [[''hi'']]" "\<not> cw_cloned w" by (elim exE conjE) (rule that)
  have start: "program_run sample_parts [] (new_world sample_parts 0 main)"
    by (rule program_starts [of "Inr ()" "\<lambda>l. []"]) (simp add: main(1))
  show ?thesis
    by (intro exI [of _ w] conjI w(2-) program_follows_run [OF start w(1), unfolded append_Nil])
qed

theorem chat_program_room_witness:
  "\<exists>w log. program_run sample_parts sample_labels w \<and> console (state (cw_task w)) = map announce log \<and>
    filter_unwrap entered log = [1] \<and> members {} log = Some {1} \<and> fst ` set (filter_unwrap said log) \<subseteq> {1} \<and>
    mset (values_of 1 (filter_unwrap said log)) \<subseteq># {#trim ''hi''#}"
proof -
  obtain w where w: "program_run sample_parts sample_labels w" "state (cw_task w) = one_line" "length (cw_handled w) = 2"
    "map client_number (cw_clients w) = [1]" "map lines_taken (cw_clients w) = [[''hi'']]" "\<not> cw_cloned w"
    using sample_program_run by (elim exE conjE) (rule that)
  from w(4,5) obtain c where c: "cw_clients w = [c]" "client_number c = 1" "lines_taken c = [''hi'']" by (auto simp: map_eq_Cons_conv)
  have laws: "role_channel (server_channel sample_parts) fifo_items fifo_receiver fifo_sender"
    "role_channel (client_channel sample_parts) fifo_items fifo_receiver fifo_sender" "reads_all (read_order sample_parts)"
    "length (cw_handled w) < 2 ^ 64 - 1"
    using fifo_channel_laws reads_all_id w(3) by simp_all
  from chat_program_room [OF laws(1-3) w(1) laws(4)] obtain log where
    "console (state (cw_task w)) = map announce log" "map client_number (cw_clients w) =
      filter_unwrap entered log @ (if cw_cloned w then [client_number (last (cw_clients w))] else [])"
    "members {} log = Some (fst ` set (users (state (cw_task w))))"
    "fst ` set (filter_unwrap said log) \<subseteq> client_number ` set (cw_clients w)"
    "\<forall>c\<in>set (cw_clients w).
      mset (values_of (client_number c) (filter_unwrap said log)) \<subseteq># mset (map trim (lines_taken c))"
    by (elim exE conjE) (rule that)
  then show ?thesis using w(1,2,6) c by (intro exI [of _ w] exI [of _ log]) simp
qed

end
